(* ===== verification/Velora_Prelude.thy ===== *)
theory Velora_Prelude
  imports Main "HOL-Library.Word" "HOL-Library.Monad_Syntax"
begin

unbundle bit_operations_syntax

text \<open>
  Shared vocabulary of the development: the C integer types as words, byte blocks with their
  bounds-checked reads and writes, circular slices of a block, and the facts on words that carry
  the arithmetic of the components over to \<^typ>\<open>nat\<close>.

  A C expression whose evaluation would be undefined behaviour (a null or dangling pointer, an
  index outside its block, a division by zero) has the value \<^term>\<open>None\<close> in the option monad;
  every other outcome, error returns included, is a \<^term>\<open>Some\<close>.
\<close>

section \<open>C types\<close>

type_synonym uint8 = "8 word"
type_synonym uint16 = "16 word"
type_synonym uint32 = "32 word"
type_synonym uint64 = "64 word"
type_synonym size_t = "64 word"
type_synonym ssize_t = int
type_synonym bytes = "uint8 list"

section \<open>Collections of rewrite rules\<close>

named_theorems wnat \<open>facts that move word arithmetic to natural numbers\<close>
named_theorems block_simps \<open>reads and writes of byte blocks\<close>
named_theorems c_defs \<open>constants and small operations unfolded by the component proofs\<close>

section \<open>Words as natural numbers\<close>

lemma unat_ucast_16_32 [wnat, simp]: "unat (ucast (w :: uint16) :: uint32) = unat w"
  by (transfer, simp add: take_bit_eq_mod)

lemma unat_ucast_8_16 [wnat, simp]: "unat (ucast (w :: uint8) :: uint16) = unat w"
  by (transfer, simp add: take_bit_eq_mod)

lemma unat_ucast_16_64 [wnat, simp]: "unat (ucast (w :: uint16) :: uint64) = unat w"
  by (transfer, simp add: take_bit_eq_mod)

lemma unat_ucast_32_64 [wnat, simp]: "unat (ucast (w :: uint32) :: uint64) = unat w"
  by (transfer, simp add: take_bit_eq_mod)

lemma unat_ucast_32_16 [wnat]: "unat (ucast (w :: uint32) :: uint16) = unat w mod 65536"
  by (transfer, simp add: take_bit_eq_mod nat_mod_distrib)

lemma unat_ucast_64_32 [wnat]: "unat (ucast (w :: uint64) :: uint32) = unat w mod 4294967296"
  by (transfer, simp add: take_bit_eq_mod nat_mod_distrib)

lemma unat16_less [simp]: "unat (w :: uint16) < 65536"
  using unsigned_less [of w] by simp

lemma unat32_less [simp]: "unat (w :: uint32) < 4294967296"
  using unsigned_less [of w] by simp

lemma unat8_less [simp]: "unat (w :: uint8) < 256"
  using unsigned_less [of w] by simp

lemma unat_plus_bounded [wnat]:
  "unat a + unat b < 4294967296 \<Longrightarrow> unat (a + b :: uint32) = unat a + unat b"
  by (simp add: unat_word_ariths)

lemma unat_succ_ucast_16 [wnat, simp]: "unat (ucast (w :: uint16) + 1 :: uint32) = unat w + 1"
proof -
  have "unat (ucast w :: uint32) + unat (1 :: uint32) < 4294967296"
    using unat16_less [of w] by (simp del: unat16_less)
  then show ?thesis by (simp only: unat_plus_bounded) simp
qed

lemmas unat_order = word_less_nat_alt word_le_nat_alt

text \<open>A counter below a bound does not wrap when it is incremented.\<close>

lemma unat_inc_less: "(i :: 'a::len word) < n \<Longrightarrow> unat (i + 1) = unat i + 1"
proof -
  assume "i < n"
  then have "Suc (unat i) \<le> unat n" by (simp add: word_less_nat_alt)
  also have "unat n < 2 ^ LENGTH('a)" by (rule unsigned_less)
  finally show ?thesis by (simp add: unat_word_ariths)
qed

section \<open>Byte blocks\<close>

text \<open>
  A pointer to a block is the block itself, \<^term>\<open>None\<close> being the null pointer.
  \<open>mem_get\<close>, \<open>mem_read\<close> and \<open>mem_write\<close> are an indexed load, the source and the destination
  of a \<open>memcpy\<close>; each is \<^term>\<open>None\<close> outside the block.
\<close>

definition overwrite :: "'a list \<Rightarrow> nat \<Rightarrow> 'a list \<Rightarrow> 'a list" where
  "overwrite xs off ys = take off xs @ ys @ drop (off + length ys) xs"

definition mem_get :: "'a list option \<Rightarrow> nat \<Rightarrow> 'a option" where
  "mem_get p i = (case p of None \<Rightarrow> None | Some xs \<Rightarrow> if i < length xs then Some (xs ! i) else None)"

definition mem_read :: "'a list option \<Rightarrow> nat \<Rightarrow> nat \<Rightarrow> 'a list option" where
  "mem_read p off n = (case p of None \<Rightarrow> None
     | Some xs \<Rightarrow> if off + n \<le> length xs then Some (take n (drop off xs)) else None)"

definition mem_write :: "'a list option \<Rightarrow> nat \<Rightarrow> 'a list \<Rightarrow> 'a list option" where
  "mem_write p off ys = (case p of None \<Rightarrow> None
     | Some xs \<Rightarrow> if off + length ys \<le> length xs then Some (overwrite xs off ys) else None)"

lemma mem_get_Some [block_simps]: "i < length xs \<Longrightarrow> mem_get (Some xs) i = Some (xs ! i)"
  by (simp add: mem_get_def)

lemma mem_read_Some [block_simps]:
  "off + n \<le> length xs \<Longrightarrow> mem_read (Some xs) off n = Some (take n (drop off xs))"
  by (simp add: mem_read_def)

lemma mem_write_Some [block_simps]:
  "off + length ys \<le> length xs \<Longrightarrow> mem_write (Some xs) off ys = Some (overwrite xs off ys)"
  by (simp add: mem_write_def)

lemma mem_null [simp]:
  "mem_get None i = None" "mem_read None off n = None" "mem_write None off ys = None"
  by (simp_all add: mem_get_def mem_read_def mem_write_def)

lemma length_overwrite [simp]: "off + length ys \<le> length xs \<Longrightarrow> length (overwrite xs off ys) = length xs"
  by (simp add: overwrite_def)

lemma nth_overwrite:
  "off + length ys \<le> length xs \<Longrightarrow> i < length xs \<Longrightarrow>
   overwrite xs off ys ! i = (if off \<le> i \<and> i < off + length ys then ys ! (i - off) else xs ! i)"
  by (auto simp: overwrite_def nth_append min_def)

lemma overwrite_Nil [simp]: "overwrite xs off [] = xs"
  by (simp add: overwrite_def)

lemma overwrite_single: "off < length xs \<Longrightarrow> overwrite xs off [y] = xs[off := y]"
  by (simp add: overwrite_def upd_conv_take_nth_drop)

lemma overwrite_read_back:
  "off + length ys \<le> length xs \<Longrightarrow> take (length ys) (drop off (overwrite xs off ys)) = ys"
  by (simp add: overwrite_def)

lemma take_overwrite_twice:
  "length xs + length ys \<le> length new \<Longrightarrow>
   take (length xs + length ys) (overwrite (overwrite new 0 xs) (length xs) ys) = xs @ ys"
  by (simp add: overwrite_def)

section \<open>Circular slices\<close>

lemma mod_advance: "k \<le> n \<Longrightarrow> ((r + k) mod c + (n - k)) mod c = (r + n) mod (c :: nat)"
  by (simp only: mod_add_left_eq) simp

text \<open>
  \<open>cyc d r n\<close> is the sequence of \<open>n\<close> cells of the block \<open>d\<close> that starts at index \<open>r\<close> and goes on
  at index 0 after the last one.
\<close>

definition cyc :: "'a list \<Rightarrow> nat \<Rightarrow> nat \<Rightarrow> 'a list" where
  "cyc d r n = map (\<lambda>i. d ! ((r + i) mod length d)) [0..<n]"

lemma length_cyc [simp]: "length (cyc d r n) = n"
  by (simp add: cyc_def)

lemma cyc_0 [simp]: "cyc d r 0 = []"
  by (simp add: cyc_def)

lemma nth_cyc [simp]: "i < n \<Longrightarrow> cyc d r n ! i = d ! ((r + i) mod length d)"
  by (simp add: cyc_def)

lemma take_cyc [simp]: "take k (cyc d r n) = cyc d r (min k n)"
  by (rule nth_equalityI) auto

lemma drop_cyc: "drop k (cyc d r n) = cyc d ((r + k) mod length d) (n - k)"
  by (rule nth_equalityI) (auto simp: mod_add_left_eq add.assoc)

lemma cyc_mod [simp]: "cyc d (r mod length d) n = cyc d r n"
  by (rule nth_equalityI) (auto simp: mod_add_left_eq)

lemma cyc_append: "cyc d r (m + n) = cyc d r m @ cyc d (r + m) n"
  by (rule nth_equalityI) (auto simp: nth_append add.assoc)

lemma cyc_Suc: "cyc d r (Suc n) = d ! (r mod length d) # cyc d (r + 1) n"
  using cyc_append [of d r 1 n] by (simp add: cyc_def)

lemma cyc_contiguous: "r + n \<le> length d \<Longrightarrow> cyc d r n = take n (drop r d)"
  by (rule nth_equalityI) auto

lemma cyc_wrapped:
  assumes "r \<le> length d" "length d \<le> r + n" "n \<le> length d"
  shows "cyc d r n = drop r d @ take (n - (length d - r)) d"
proof -
  let ?m = "length d - r"
  have "cyc d r n = cyc d r (?m + (n - ?m))" using assms by simp
  also have "\<dots> = cyc d r ?m @ cyc d (r + ?m) (n - ?m)" by (rule cyc_append)
  also have "cyc d r ?m = drop r d" using assms by (simp add: cyc_contiguous)
  also have "cyc d (r + ?m) (n - ?m) = cyc d 0 (n - ?m)"
    using assms cyc_mod [of d "length d" "n - ?m"] by simp
  also have "\<dots> = take (n - ?m) d" using assms by (simp add: cyc_contiguous)
  finally show ?thesis .
qed

text \<open>Writing behind the live part of a ring leaves the live part as it was.\<close>

lemma cyc_overwrite_other:
  assumes "r < length d" "n + length ys \<le> length d"
    and "w = (r + n) mod length d" "w + length ys \<le> length d"
  shows "cyc (overwrite d w ys) r n = cyc d r n"
proof (rule nth_equalityI)
  fix i assume "i < length (cyc (overwrite d w ys) r n)"
  then have i: "i < n" by simp
  let ?j = "(r + i) mod length d"
  have j: "?j < length d" using assms(1) by (simp add: mod_less_divisor[OF le_less_trans[OF le0]])
  have "\<not> (w \<le> ?j \<and> ?j < w + length ys)"
  proof (cases "r + n < length d")
    case True then show ?thesis using i assms by simp
  next
    case False
    then have w: "w = r + n - length d" using assms by (simp add: mod_if)
    show ?thesis
    proof (cases "r + i < length d")
      case True
      then have "?j = r + i" by simp
      then show ?thesis using w i assms(2) \<open>\<not> r + n < length d\<close> by linarith
    next
      case False
      then have "?j = r + i - length d" using i assms by (simp add: mod_if)
      then show ?thesis using w i False by simp
    qed
  qed
  then show "cyc (overwrite d w ys) r n ! i = cyc d r n ! i"
    using i j assms(4) by (auto simp: nth_overwrite)
qed simp

lemma cyc_overwrite_here:
  assumes "w + length ys \<le> length d"
  shows "cyc (overwrite d w ys) w (length ys) = ys"
  using assms by (simp add: cyc_contiguous overwrite_read_back)

lemma cyc_overwrite_append:
  assumes "r < length d" "n + length ys \<le> length d"
    and "w = (r + n) mod length d" "w + length ys \<le> length d"
  shows "cyc (overwrite d w ys) r (n + length ys) = cyc d r n @ ys"
proof -
  have "cyc (overwrite d w ys) (r + n) (length ys) = cyc (overwrite d w ys) w (length ys)"
    using assms(3,4) cyc_mod [of "overwrite d w ys" "r + n"] by simp
  then show ?thesis
    using cyc_overwrite_other [OF assms] cyc_overwrite_here [OF assms(4)] by (simp add: cyc_append)
qed

lemma cyc_update_append:
  assumes "r < length d" "n < length d" "w = (r + n) mod length d"
  shows "cyc (d[w := y]) r (Suc n) = cyc d r n @ [y]"
proof -
  have "w < length d" using assms by (metis mod_less_divisor le0 le_less_trans)
  then show ?thesis
    using cyc_overwrite_append [of r d n "[y]" w] assms by (simp add: overwrite_single)
qed

end
