(* ===== verification/Velora_System.thy ===== *)
theory Velora_System
  imports Velora_Prelude
begin

text \<open>
  The boundary of the program: the C library's allocator and the Linux system calls.
  What they answer is an argument of the model. A \<open>sys\<close> record holds, for each kind of call, the
  list of the answers still to be given, in the order in which the program will ask; every
  theorem quantifies over these lists, so over every behaviour of the allocator and the kernel.
  The allocation of a reply packet, whose result the code does not test, has a list of its own. A list
  that has run out answers in one fixed way: the allocator with a zeroed block, \<open>recv\<close>,
  \<open>send\<close> and \<open>accept\<close> with \<open>EAGAIN\<close>, \<open>epoll_ctl\<close> with success, \<open>epoll_wait\<close> with a
  shutdown signal, any other call with an error.

  The documented contracts the code relies on are built into the operations: \<open>malloc(n)\<close> gives a
  block of \<open>n\<close> bytes with indeterminate contents, \<open>recv\<close> gives the next bytes of the stream and
  at most as many as asked for, \<open>send\<close> takes a prefix of what it is given, \<open>accept\<close> gives a
  descriptor that is not in use, \<open>epoll_wait\<close> reports registered descriptors, each at most once.
\<close>

section \<open>errno\<close>

definition ENOENT :: int where "ENOENT = 2"
definition EINTR :: int where "EINTR = 4"
definition EAGAIN :: int where "EAGAIN = 11"
definition EWOULDBLOCK :: int where "EWOULDBLOCK = EAGAIN"
definition ENOMEM :: int where "ENOMEM = 12"
definition EEXIST :: int where "EEXIST = 17"
definition EINVAL :: int where "EINVAL = 22"
definition EMFILE :: int where "EMFILE = 24"
definition ENOBUFS :: int where "ENOBUFS = 105"

lemmas errno_defs [c_defs] =
  ENOENT_def EINTR_def EAGAIN_def EWOULDBLOCK_def ENOMEM_def EEXIST_def EINVAL_def EMFILE_def
  ENOBUFS_def

section \<open>Answers\<close>

datatype alloc_answer = Alloc_null | Alloc_block nat "nat \<Rightarrow> nat"
  \<comment> \<open>a null pointer, or the address and the indeterminate contents of the new block\<close>

datatype recv_answer = Recv_bytes bytes | Recv_error int
  \<comment> \<open>an empty \<open>Recv_bytes\<close> is the peer's orderly shutdown\<close>

datatype send_answer = Send_upto nat | Send_error int

record sockaddr_in =
  sin_family :: uint16
  sin_port :: uint16
  sin_addr :: uint32

datatype accept_answer = Accept_conn int sockaddr_in | Accept_error int

datatype wait_answer = Wait_ready "(int \<times> uint32) list" bool | Wait_error int bool
  \<comment> \<open>the flag says whether the shutdown handler ran before the program next tests its status\<close>

record sys =
  errno :: int
  allocs :: "alloc_answer list"
  callocs :: "bool list"         \<comment> \<open>whether the allocation of a reply packet succeeds\<close>
  blocks :: int                  \<comment> \<open>heap blocks allocated and not yet freed\<close>
  recvs :: "recv_answer list"
  sends :: "send_answer list"
  accepts :: "accept_answer list"
  ntops :: "bool list"
  rets :: "(int + int) list"
  ctls :: "int option list"
  waits :: "wait_answer list"
  interest :: "int \<rightharpoonup> nat \<times> uint32"  \<comment> \<open>the epoll interest list: \<open>data.ptr\<close> and \<open>events\<close> per fd\<close>
  rcvd :: "(int \<times> bytes) list"   \<comment> \<open>what \<open>recv\<close> has delivered, per call\<close>
  sent :: "(int \<times> bytes) list"   \<comment> \<open>what \<open>send\<close> has accepted, per call\<close>
  closed :: "int list"           \<comment> \<open>the descriptors passed to \<open>close\<close>, in order\<close>

section \<open>The allocator\<close>

definition alloc :: "sys \<Rightarrow> (nat \<times> (nat \<Rightarrow> nat)) option \<times> sys" where
  "alloc s = (case allocs s of
       [] \<Rightarrow> (Some (0, \<lambda>_. 0), s\<lparr>blocks := blocks s + 1\<rparr>)
     | Alloc_null # as \<Rightarrow> (None, s\<lparr>errno := ENOMEM, allocs := as\<rparr>)
     | Alloc_block a f # as \<Rightarrow> (Some (a, f), s\<lparr>allocs := as, blocks := blocks s + 1\<rparr>))"

definition malloc_bytes :: "nat \<Rightarrow> sys \<Rightarrow> bytes option \<times> sys" where
  "malloc_bytes n s = (case alloc s of
       (None, s') \<Rightarrow> (None, s')
     | (Some (a, f), s') \<Rightarrow> (Some (map (\<lambda>i. of_nat (f i)) [0..<n]), s'))"

definition calloc_words :: "nat \<Rightarrow> sys \<Rightarrow> nat list option \<times> sys" where
  "calloc_words n s = (case alloc s of
       (None, s') \<Rightarrow> (None, s')
     | (Some (a, f), s') \<Rightarrow> (Some (replicate n 0), s'))"

text \<open>\<open>realloc\<close> of an array of words: the old cells are kept, new ones are indeterminate; on
  failure the old block stays.\<close>

definition realloc_words :: "nat list option \<Rightarrow> nat \<Rightarrow> sys \<Rightarrow> nat list option \<times> sys" where
  "realloc_words p n s = (case alloc s of
       (None, s') \<Rightarrow> (None, s')
     | (Some (a, f), s') \<Rightarrow> (case p of
           None \<Rightarrow> (Some (map f [0..<n]), s')
         | Some xs \<Rightarrow> (Some (take n xs @ map f [length xs..<n]), s'\<lparr>blocks := blocks s' - 1\<rparr>)))"

definition c_free :: "'a option \<Rightarrow> sys \<Rightarrow> sys" where
  "c_free p s = (case p of None \<Rightarrow> s | Some _ \<Rightarrow> s\<lparr>blocks := blocks s - 1\<rparr>)"

text \<open>\<open>plenty n s\<close>: the next \<open>n\<close> allocations succeed.\<close>

definition plenty :: "nat \<Rightarrow> sys \<Rightarrow> bool" where
  "plenty n s \<longleftrightarrow> Alloc_null \<notin> set (take n (allocs s))"

text \<open>\<open>replies_ok s\<close>: no allocation of a reply packet fails; \<open>unlimited s\<close>: no allocation fails.\<close>

definition replies_ok :: "sys \<Rightarrow> bool" where
  "replies_ok s \<longleftrightarrow> False \<notin> set (callocs s)"

definition unlimited :: "sys \<Rightarrow> bool" where
  "unlimited s \<longleftrightarrow> Alloc_null \<notin> set (allocs s) \<and> replies_ok s"

lemma unlimited_replies: "unlimited s \<Longrightarrow> replies_ok s"
  by (simp add: unlimited_def)

text \<open>\<open>heap_frame s s'\<close>: only the allocator, which has given some of its answers, and \<open>errno\<close> have changed.\<close>

definition heap_frame :: "sys \<Rightarrow> sys \<Rightarrow> bool" where
  "heap_frame s s' \<longleftrightarrow> s' = s\<lparr>errno := errno s', allocs := allocs s', callocs := callocs s', blocks := blocks s'\<rparr> \<and>
     set (allocs s') \<subseteq> set (allocs s) \<and> set (callocs s') \<subseteq> set (callocs s)"

lemma heap_frame_refl [simp]: "heap_frame s s"
  by (simp add: heap_frame_def)

lemma heap_frame_trans [trans]: "heap_frame s t \<Longrightarrow> heap_frame t u \<Longrightarrow> heap_frame s u"
  by (cases s; cases t; cases u) (auto simp: heap_frame_def)

lemma heap_frame_errno [simp]: "heap_frame s (s\<lparr>errno := e\<rparr>)"
  by (cases s) (simp add: heap_frame_def)

lemma heap_frame_free [simp]: "heap_frame s (c_free p s)"
  by (cases s) (simp add: heap_frame_def c_free_def split: option.split)

lemma heap_frame_fields:
  assumes "heap_frame s s'"
  shows "recvs s' = recvs s" "sends s' = sends s" "accepts s' = accepts s" "ntops s' = ntops s"
    "rets s' = rets s" "ctls s' = ctls s" "waits s' = waits s" "interest s' = interest s"
    "sent s' = sent s" "closed s' = closed s" "rcvd s' = rcvd s"
  using assms by (cases s; cases s'; simp add: heap_frame_def)+

lemma heap_frame_replies: "heap_frame s s' \<Longrightarrow> replies_ok s \<Longrightarrow> replies_ok s'"
  by (auto simp: heap_frame_def replies_ok_def)

lemma heap_frame_unlimited: "heap_frame s s' \<Longrightarrow> unlimited s \<Longrightarrow> unlimited s'"
  using heap_frame_replies [of s s'] by (auto simp: heap_frame_def unlimited_def)

lemma alloc_cases:
  obtains (null) s' where "alloc s = (None, s')" "blocks s' = blocks s" "heap_frame s s'"
      "\<And>n. \<not> plenty (Suc n) s"
  | (block) a f s' where "alloc s = (Some (a, f), s')" "blocks s' = blocks s + 1" "heap_frame s s'"
      "\<And>n. plenty (Suc n) s \<Longrightarrow> plenty n s'"
  by (cases s; cases "allocs s"; cases "hd (allocs s)")
    (auto simp: alloc_def heap_frame_def plenty_def)

lemma malloc_bytes_cases:
  obtains (null) s' where "malloc_bytes k s = (None, s')" "blocks s' = blocks s" "heap_frame s s'"
      "\<And>n. \<not> plenty (Suc n) s"
  | (block) d s' where "malloc_bytes k s = (Some d, s')" "length d = k" "blocks s' = blocks s + 1"
      "heap_frame s s'" "\<And>n. plenty (Suc n) s \<Longrightarrow> plenty n s'"
  by (cases rule: alloc_cases [of s]) (auto simp: malloc_bytes_def)

lemma plenty_mono: "plenty n s \<Longrightarrow> m \<le> n \<Longrightarrow> plenty m s"
  unfolding plenty_def by (meson set_take_subset_set_take subsetD)

lemma unlimited_plenty: "unlimited s \<Longrightarrow> plenty n s"
  unfolding unlimited_def plenty_def by (meson in_set_takeD)

lemma plenty_Suc: "plenty (Suc n) s \<Longrightarrow> plenty n s"
  by (erule plenty_mono) simp

lemma plenty_errno [simp]: "plenty n (s\<lparr>errno := e\<rparr>) = plenty n s"
  by (simp add: plenty_def)

lemma plenty_free [simp]: "plenty n (c_free p s) = plenty n s"
  by (simp add: plenty_def c_free_def split: option.split)

lemma blocks_free: "blocks (c_free p s) = blocks s - of_bool (p \<noteq> None)"
  by (simp add: c_free_def split: option.split)

section \<open>Sockets\<close>

definition recv_call :: "int \<Rightarrow> nat \<Rightarrow> sys \<Rightarrow> bytes option \<times> sys" where
  "recv_call fd len s = (case recvs s of
       [] \<Rightarrow> (None, s\<lparr>errno := EAGAIN\<rparr>)
     | Recv_error e # rs \<Rightarrow> (None, s\<lparr>errno := e, recvs := rs\<rparr>)
     | Recv_bytes bs # rs \<Rightarrow>
         (if length bs \<le> len then (Some bs, s\<lparr>recvs := rs, rcvd := rcvd s @ [(fd, bs)]\<rparr>)
          else (Some (take len bs),
            s\<lparr>recvs := Recv_bytes (drop len bs) # rs, rcvd := rcvd s @ [(fd, take len bs)]\<rparr>)))"

definition send_call :: "int \<Rightarrow> bytes \<Rightarrow> sys \<Rightarrow> ssize_t \<times> sys" where
  "send_call fd data s = (case sends s of
       [] \<Rightarrow> (-1, s\<lparr>errno := EAGAIN\<rparr>)
     | Send_error e # ss \<Rightarrow> (-1, s\<lparr>errno := e, sends := ss\<rparr>)
     | Send_upto n # ss \<Rightarrow>
         (let k = min n (length data)
          in (int k, s\<lparr>sends := ss, sent := sent s @ [(fd, take k data)]\<rparr>)))"

text \<open>\<open>accept\<close> gives a descriptor that is not in use, an \<open>int\<close> that is not negative; an answer that
  says otherwise counts as \<open>EMFILE\<close>.\<close>

definition fresh_fd :: "int \<Rightarrow> sys \<Rightarrow> bool" where
  "fresh_fd fd s \<longleftrightarrow> 0 \<le> fd \<and> fd < 2 ^ 31 \<and> interest s fd = None"

definition accept_call :: "sys \<Rightarrow> (int \<times> sockaddr_in) option \<times> sys" where
  "accept_call s = (case accepts s of
       [] \<Rightarrow> (None, s\<lparr>errno := EAGAIN\<rparr>)
     | Accept_error e # as \<Rightarrow> (None, s\<lparr>errno := e, accepts := as\<rparr>)
     | Accept_conn fd addr # as \<Rightarrow>
         if fresh_fd fd s then (Some (fd, addr), s\<lparr>accepts := as\<rparr>)
         else (None, s\<lparr>errno := EMFILE, accepts := as\<rparr>))"

text \<open>\<open>inet_ntop\<close>: whether the address could be converted.\<close>

definition ntop_call :: "sys \<Rightarrow> bool \<times> sys" where
  "ntop_call s = (case ntops s of [] \<Rightarrow> (True, s) | b # bs \<Rightarrow> (b, s\<lparr>ntops := bs\<rparr>))"

text \<open>\<open>socket\<close>, \<open>bind\<close>, \<open>listen\<close>, \<open>setsockopt\<close>, \<open>fcntl\<close> and \<open>epoll_create1\<close>: a value, or
  \<open>-1\<close> and an error number.\<close>

definition ret_call :: "sys \<Rightarrow> int \<times> sys" where
  "ret_call s = (case rets s of
       [] \<Rightarrow> (-1, s\<lparr>errno := EINVAL\<rparr>)
     | Inl e # rs \<Rightarrow> (-1, s\<lparr>errno := e, rets := rs\<rparr>)
     | Inr v # rs \<Rightarrow> (v, s\<lparr>rets := rs\<rparr>))"

text \<open>\<open>close\<close> also takes the descriptor off every interest list.\<close>

definition close_call :: "int \<Rightarrow> sys \<Rightarrow> sys" where
  "close_call fd s = s\<lparr>closed := closed s @ [fd], interest := (interest s)(fd := None)\<rparr>"

section \<open>epoll\<close>

text \<open>\<open>close\<close> of the epoll descriptor, whose result the program tests; the interest list goes with it.\<close>

definition close_epoll_call :: "int \<Rightarrow> sys \<Rightarrow> int \<times> sys" where
  "close_epoll_call fd s = (case ret_call s of (r, s) \<Rightarrow>
     if r = -1 then (-1, s) else (0, (close_call fd s)\<lparr>interest := Map.empty\<rparr>))"

datatype epoll_op = EPOLL_CTL_ADD | EPOLL_CTL_MOD | EPOLL_CTL_DEL

definition EPOLLIN :: uint32 where "EPOLLIN = 1"
definition EPOLLOUT :: uint32 where "EPOLLOUT = 4"
definition EPOLLET :: uint32 where "EPOLLET = push_bit 31 1"

definition epoll_ctl_call :: "epoll_op \<Rightarrow> int \<Rightarrow> nat \<Rightarrow> uint32 \<Rightarrow> sys \<Rightarrow> int \<times> sys" where
  "epoll_ctl_call op fd p ev s =
     (let s0 = (case ctls s of [] \<Rightarrow> s | _ # cs \<Rightarrow> s\<lparr>ctls := cs\<rparr>)
      in case ctls s of
          Some e # cs \<Rightarrow> (-1, s0\<lparr>errno := e\<rparr>)
        | _ \<Rightarrow> (case op of
              EPOLL_CTL_ADD \<Rightarrow>
                if interest s fd \<noteq> None then (-1, s0\<lparr>errno := EEXIST\<rparr>)
                else (0, s0\<lparr>interest := (interest s)(fd \<mapsto> (p, ev))\<rparr>)
            | EPOLL_CTL_MOD \<Rightarrow>
                if interest s fd \<noteq> None then (0, s0\<lparr>interest := (interest s)(fd \<mapsto> (p, ev))\<rparr>)
                else (-1, s0\<lparr>errno := ENOENT\<rparr>)
            | EPOLL_CTL_DEL \<Rightarrow>
                if interest s fd \<noteq> None then (0, s0\<lparr>interest := (interest s)(fd := None)\<rparr>)
                else (-1, s0\<lparr>errno := ENOENT\<rparr>)))"

text \<open>The events reported for a list of ready descriptors: at most \<open>n\<close>, registered ones only,
  each once.\<close>

fun ready_list :: "(int \<rightharpoonup> nat \<times> uint32) \<Rightarrow> int list \<Rightarrow> (int \<times> uint32) list \<Rightarrow> (nat \<times> uint32) list"
where
  "ready_list reg seen [] = []"
| "ready_list reg seen ((fd, ev) # xs) =
     (case reg fd of
        None \<Rightarrow> ready_list reg seen xs
      | Some (p, _) \<Rightarrow> if fd \<in> set seen then ready_list reg seen xs
                       else (p, ev) # ready_list reg (fd # seen) xs)"

definition epoll_wait_call :: "nat \<Rightarrow> sys \<Rightarrow> (nat \<times> uint32) list option \<times> bool \<times> sys" where
  "epoll_wait_call maxevents s = (case waits s of
       [] \<Rightarrow> (None, True, s\<lparr>errno := EINTR\<rparr>)
     | Wait_error e sig # ws \<Rightarrow> (None, sig, s\<lparr>errno := e, waits := ws\<rparr>)
     | Wait_ready xs sig # ws \<Rightarrow>
         (Some (take maxevents (ready_list (interest s) [] xs)), sig, s\<lparr>waits := ws\<rparr>))"

section \<open>Sample environments\<close>

text \<open>A system with \<open>n\<close> allocations to give and no other answers, and one whose first allocation fails;
  the witnesses run in them.\<close>

definition sys_with :: "nat \<Rightarrow> sys" where
  "sys_with n = \<lparr>errno = 0, allocs = replicate n (Alloc_block 1 (\<lambda>_. 0)), callocs = [], blocks = 0, recvs = [],
     sends = [], accepts = [], ntops = [], rets = [], ctls = [], waits = [], interest = Map.empty,
     rcvd = [], sent = [], closed = []\<rparr>"

definition sys_poor :: sys where
  "sys_poor = (sys_with 0)\<lparr>allocs := [Alloc_null], callocs := [False]\<rparr>"

lemma plenty_sys_with [simp]: "plenty m (sys_with n)"
  by (simp add: plenty_def sys_with_def)

lemma unlimited_sys_with [simp]: "unlimited (sys_with n)" "replies_ok (sys_with n)"
  by (simp_all add: unlimited_def replies_ok_def sys_with_def)

lemma alloc_sys_poor [simp]: "fst (alloc sys_poor) = None"
  by (simp add: alloc_def sys_poor_def sys_with_def)

end
