(* ===== verification/Velora_C_Layout.thy ===== *)
theory Velora_C_Layout
  imports Velora_Prelude
begin

text \<open>
  Where the members of a C structure lie: the layout rule of the x86-64 ABI, for the types whose size or
  member offsets the sources depend on. An enumeration is an \<open>unsigned int\<close> of four bytes.
\<close>

section \<open>Types\<close>

datatype ctype =
    C_int nat                             \<comment> \<open>an integer of that many bytes, aligned to its size\<close>
  | C_ptr
  | C_bits nat "(string \<times> nat) list"      \<comment> \<open>bit-fields that share one integer\<close>
  | C_array ctype nat
  | C_struct "(string \<times> ctype) list"      \<comment> \<open>an empty name is an anonymous member\<close>
  | C_packed "(string \<times> ctype) list"
  | C_union "(string \<times> ctype) list"

definition align_up :: "nat \<Rightarrow> nat \<Rightarrow> nat" where
  "align_up n a = (n + a - 1) div a * a"

text \<open>Members given by size and alignment, each at the next multiple of its alignment.\<close>

fun members_end :: "nat \<Rightarrow> (nat \<times> nat) list \<Rightarrow> nat" where
  "members_end off [] = off"
| "members_end off ((sz, al) # ms) = members_end (align_up off al + sz) ms"

fun member_offsets :: "nat \<Rightarrow> (nat \<times> nat) list \<Rightarrow> nat list" where
  "member_offsets off [] = []"
| "member_offsets off ((sz, al) # ms) = align_up off al # member_offsets (align_up off al + sz) ms"

definition max_align :: "(nat \<times> nat) list \<Rightarrow> nat" where
  "max_align ms = foldr (\<lambda>(sz, al) m. max al m) ms 1"

definition struct_size :: "(nat \<times> nat) list \<Rightarrow> nat" where
  "struct_size ms = align_up (members_end 0 ms) (max_align ms)"

definition union_size :: "(nat \<times> nat) list \<Rightarrow> nat" where
  "union_size ms = align_up (foldr (\<lambda>(sz, al) m. max sz m) ms 0) (max_align ms)"

text \<open>Size and alignment of a type.\<close>

fun extent :: "ctype \<Rightarrow> nat \<times> nat" where
  "extent (C_int n) = (n, n)"
| "extent C_ptr = (8, 8)"
| "extent (C_bits n bs) = (n, n)"
| "extent (C_array t n) = (n * fst (extent t), snd (extent t))"
| "extent (C_struct fs) = (let ms = map (\<lambda>f. extent (snd f)) fs in (struct_size ms, max_align ms))"
| "extent (C_packed fs) = (sum_list (map (\<lambda>f. fst (extent (snd f))) fs), 1)"
| "extent (C_union fs) = (let ms = map (\<lambda>f. extent (snd f)) fs in (union_size ms, max_align ms))"

definition sizeof :: "ctype \<Rightarrow> nat" where "sizeof t = fst (extent t)"
definition alignof :: "ctype \<Rightarrow> nat" where "alignof t = snd (extent t)"

lemmas layout_simps =
  sizeof_def alignof_def struct_size_def union_size_def max_align_def align_up_def Let_def

section \<open>Members\<close>

text \<open>The named members with their offsets; those of an anonymous member count as members of the whole.\<close>

fun all_members :: "ctype \<Rightarrow> (string \<times> nat \<times> ctype) list" where
  "all_members (C_struct fs) =
     (let inner = map (\<lambda>f. if fst f = [] then all_members (snd f) else [(fst f, 0, snd f)]) fs;
          offs = member_offsets 0 (map (\<lambda>f. extent (snd f)) fs)
      in concat (map2 (\<lambda>off ms. map (\<lambda>(n, p, t). (n, off + p, t)) ms) offs inner))"
| "all_members (C_packed fs) =
     (let inner = map (\<lambda>f. if fst f = [] then all_members (snd f) else [(fst f, 0, snd f)]) fs;
          offs = member_offsets 0 (map (\<lambda>f. (fst (extent (snd f)), 1)) fs)
      in concat (map2 (\<lambda>off ms. map (\<lambda>(n, p, t). (n, off + p, t)) ms) offs inner))"
| "all_members (C_union fs) =
     concat (map (\<lambda>f. if fst f = [] then all_members (snd f) else [(fst f, 0, snd f)]) fs)"
| "all_members t = []"

definition offsetof :: "ctype \<Rightarrow> string \<Rightarrow> nat option" where
  "offsetof t name = map_option fst (map_of (all_members t) name)"

section \<open>Soundness\<close>

lemma align_up_ge:
  assumes "0 < a"
  shows "n \<le> align_up n a"
proof -
  have "(n + a - 1) mod a < a" using assms by simp
  moreover have "(n + a - 1) div a * a + (n + a - 1) mod a = n + a - 1" by simp
  ultimately show ?thesis unfolding align_up_def by linarith
qed

lemma align_up_dvd [simp]: "a dvd align_up n a"
  by (simp add: align_up_def)

lemma members_end_ge:
  "\<forall>(sz, al)\<in>set ms. 0 < al \<Longrightarrow> off \<le> members_end off ms"
  by (induction off ms rule: members_end.induct) (auto intro: order_trans [OF align_up_ge])

lemma length_member_offsets [simp]: "length (member_offsets off ms) = length ms"
  by (induction off ms rule: member_offsets.induct) auto

lemma member_inside:
  assumes "\<forall>(sz, al)\<in>set ms. 0 < al" "i < length ms"
  shows "off \<le> member_offsets off ms ! i \<and> member_offsets off ms ! i + fst (ms ! i) \<le> members_end off ms \<and>
    snd (ms ! i) dvd member_offsets off ms ! i"
  using assms
proof (induction off ms arbitrary: i rule: member_offsets.induct)
  case (2 off sz al ms)
  have al: "0 < al" "\<forall>(sz, al)\<in>set ms. 0 < al" using "2.prems"(1) by auto
  show ?case
  proof (cases i)
    case 0
    then show ?thesis using align_up_ge [OF al(1), of off] members_end_ge [OF al(2)] by simp
  next
    case (Suc j)
    then show ?thesis using "2.IH" [OF al(2), of j] "2.prems"(2) align_up_ge [OF al(1), of off] by auto
  qed
qed simp

lemma members_disjoint:
  assumes "\<forall>(sz, al)\<in>set ms. 0 < al" "i < j" "j < length ms"
  shows "member_offsets off ms ! i + fst (ms ! i) \<le> member_offsets off ms ! j"
  using assms
proof (induction off ms arbitrary: i j rule: member_offsets.induct)
  case (2 off sz al ms)
  have al: "\<forall>(sz, al)\<in>set ms. 0 < al" using "2.prems"(1) by auto
  obtain k where k: "j = Suc k" using "2.prems"(2) by (cases j) auto
  show ?case
  proof (cases i)
    case 0
    then show ?thesis using member_inside [OF al, of k "align_up off al + sz"] "2.prems"(3) k by simp
  next
    case (Suc l)
    then show ?thesis using "2.IH" [OF al, of l k] "2.prems"(2,3) k by simp
  qed
qed simp

text \<open>Integers have sizes that are powers of two up to eight.\<close>

fun wf_ctype :: "ctype \<Rightarrow> bool" where
  "wf_ctype (C_int n) \<longleftrightarrow> n \<in> {1, 2, 4, 8}"
| "wf_ctype C_ptr \<longleftrightarrow> True"
| "wf_ctype (C_bits n bs) \<longleftrightarrow> n \<in> {1, 2, 4, 8} \<and> sum_list (map snd bs) \<le> 8 * n"
| "wf_ctype (C_array t n) \<longleftrightarrow> wf_ctype t"
| "wf_ctype (C_struct fs) \<longleftrightarrow> (\<forall>f\<in>set fs. wf_ctype (snd f))"
| "wf_ctype (C_packed fs) \<longleftrightarrow> (\<forall>f\<in>set fs. wf_ctype (snd f))"
| "wf_ctype (C_union fs) \<longleftrightarrow> (\<forall>f\<in>set fs. wf_ctype (snd f))"

lemma max_align_range: "(\<forall>(sz, al)\<in>set ms. al \<in> {1, 2, 4, 8}) \<Longrightarrow> max_align ms \<in> {1, 2, 4, 8}"
  by (induction ms) (auto simp: max_align_def max_def)

lemma ball_extents:
  "(\<forall>(sz, al)\<in>set (map (\<lambda>f. extent (snd f)) fs). P al) \<longleftrightarrow> (\<forall>f\<in>set fs. P (snd (extent (snd f))))"
  by (simp add: case_prod_beta)

lemma extent_wf: "wf_ctype t \<Longrightarrow> snd (extent t) \<in> {1, 2, 4, 8} \<and> snd (extent t) dvd fst (extent t)"
proof (induction t rule: wf_ctype.induct)
  case (5 fs)
  then have "max_align (map (\<lambda>f. extent (snd f)) fs) \<in> {1, 2, 4, 8}" by (intro max_align_range) (unfold ball_extents, auto)
  then show ?case by (simp add: Let_def struct_size_def)
next
  case (7 fs)
  then have "max_align (map (\<lambda>f. extent (snd f)) fs) \<in> {1, 2, 4, 8}" by (intro max_align_range) (unfold ball_extents, auto)
  then show ?case by (simp add: Let_def union_size_def)
qed auto

lemma extents_pos: "\<forall>f\<in>set fs. wf_ctype (snd f) \<Longrightarrow> \<forall>(sz, al)\<in>set (map (\<lambda>f. extent (snd f)) fs). 0 < al"
  unfolding ball_extents by (auto dest!: extent_wf bspec)

lemma max_align_pos: "0 < max_align ms"
  by (induction ms) (auto simp: max_align_def)

lemma struct_size_ge: "members_end 0 ms \<le> struct_size ms"
  unfolding struct_size_def by (rule align_up_ge [OF max_align_pos])

lemma union_size_ge: "(sz, al) \<in> set ms \<Longrightarrow> sz \<le> union_size ms"
proof -
  assume "(sz, al) \<in> set ms"
  then have "sz \<le> foldr (\<lambda>(sz, al) m. max sz m) ms 0" by (induction ms) auto
  also have "\<dots> \<le> union_size ms" unfolding union_size_def by (rule align_up_ge [OF max_align_pos])
  finally show ?thesis .
qed

lemma packed_end: "members_end off (map (\<lambda>f. (g f, 1)) fs) = off + sum_list (map g fs)"
  by (induction fs arbitrary: off) (simp_all add: align_up_def)

text \<open>Where the members of the placed fields come from.\<close>

lemma placed_member:
  assumes "(n, off, t) \<in> set (concat (map2 (\<lambda>o1 ms. map (\<lambda>(n, p, t). (n, o1 + p, t)) ms) offs (map g fs)))"
    and "length offs = length fs"
  obtains i p where "i < length fs" "(n, p, t) \<in> set (g (fs ! i))" "off = offs ! i + p"
proof -
  from assms(1) obtain o1 ms p where m: "(o1, ms) \<in> set (zip offs (map g fs))" "(n, p, t) \<in> set ms" "off = o1 + p"
    by auto
  from m(1) obtain i where "i < length fs" "o1 = offs ! i" "ms = g (fs ! i)"
    using assms(2) by (auto simp: set_zip)
  then show thesis using that m(2,3) by blast
qed

lemma members_inside:
  assumes "wf_ctype t" "(n, off, t') \<in> set (all_members t)"
  shows "off + fst (extent t') \<le> fst (extent t)"
  using assms
proof (induction t arbitrary: off rule: all_members.induct)
  case (1 fs)
  let ?ms = "map (\<lambda>f. extent (snd f)) fs"
  let ?g = "\<lambda>f. if fst f = [] then all_members (snd f) else [(fst f, 0, snd f)]"
  obtain i p where i: "i < length fs" "(n, p, t') \<in> set (?g (fs ! i))" "off = member_offsets 0 ?ms ! i + p"
    by (rule placed_member [of n off t' "member_offsets 0 ?ms" ?g fs])
      (use "1.prems"(2) in \<open>simp_all add: Let_def\<close>)
  have fi: "fs ! i \<in> set fs" "wf_ctype (snd (fs ! i))" using i(1) "1.prems"(1) by auto
  have "p + fst (extent t') \<le> fst (extent (snd (fs ! i)))"
    using i(2) "1.IH" [OF fi(1) _ fi(2)] by (auto split: if_splits)
  moreover have "member_offsets 0 ?ms ! i + fst (extent (snd (fs ! i))) \<le> members_end 0 ?ms"
    using member_inside [OF extents_pos, of fs i 0] "1.prems"(1) i(1) by simp
  ultimately show ?case using i(3) struct_size_ge [of ?ms] by (simp add: Let_def)
next
  case (2 fs)
  let ?ms = "map (\<lambda>f. (fst (extent (snd f)), 1 :: nat)) fs"
  let ?g = "\<lambda>f. if fst f = [] then all_members (snd f) else [(fst f, 0, snd f)]"
  obtain i p where i: "i < length fs" "(n, p, t') \<in> set (?g (fs ! i))" "off = member_offsets 0 ?ms ! i + p"
    by (rule placed_member [of n off t' "member_offsets 0 ?ms" ?g fs])
      (use "2.prems"(2) in \<open>simp_all add: Let_def\<close>)
  have fi: "fs ! i \<in> set fs" "wf_ctype (snd (fs ! i))" using i(1) "2.prems"(1) by auto
  have "p + fst (extent t') \<le> fst (extent (snd (fs ! i)))"
    using i(2) "2.IH" [OF fi(1) _ fi(2)] by (auto split: if_splits)
  moreover have "member_offsets 0 ?ms ! i + fst (extent (snd (fs ! i))) \<le> members_end 0 ?ms"
    using member_inside [of ?ms i 0] i(1) by auto
  ultimately show ?case using i(3) packed_end [of 0 "\<lambda>f. fst (extent (snd f))" fs] by simp
next
  case (3 fs)
  then obtain f where f: "f \<in> set fs" "wf_ctype (snd f)"
      "(n, off, t') \<in> set (if fst f = [] then all_members (snd f) else [(fst f, 0, snd f)])" by auto
  have "off + fst (extent t') \<le> fst (extent (snd f))"
    using f(3) "3.IH" [OF f(1) _ f(2)] by (auto split: if_splits)
  also have "\<dots> \<le> union_size (map (\<lambda>f. extent (snd f)) fs)"
    by (rule union_size_ge [of _ "snd (extent (snd f))"]) (use f(1) in force)
  finally show ?case by (simp add: Let_def)
qed auto

lemma all_members_wf: "wf_ctype t \<Longrightarrow> (n, off, t') \<in> set (all_members t) \<Longrightarrow> wf_ctype t'"
proof (induction t arbitrary: off rule: all_members.induct)
  case (1 fs)
  let ?g = "\<lambda>f. if fst f = [] then all_members (snd f) else [(fst f, 0, snd f)]"
  obtain i p where i: "i < length fs" "(n, p, t') \<in> set (?g (fs ! i))"
    by (rule placed_member [of n off t' "member_offsets 0 (map (\<lambda>f. extent (snd f)) fs)" ?g fs])
      (use "1.prems"(2) in \<open>simp_all add: Let_def\<close>)
  have "fs ! i \<in> set fs" "wf_ctype (snd (fs ! i))" using i(1) "1.prems"(1) by auto
  then show ?case using i(2) "1.IH" by (auto split: if_splits)
next
  case (2 fs)
  let ?g = "\<lambda>f. if fst f = [] then all_members (snd f) else [(fst f, 0, snd f)]"
  obtain i p where i: "i < length fs" "(n, p, t') \<in> set (?g (fs ! i))"
    by (rule placed_member [of n off t' "member_offsets 0 (map (\<lambda>f. (fst (extent (snd f)), 1)) fs)" ?g fs])
      (use "2.prems"(2) in \<open>simp_all add: Let_def\<close>)
  have "fs ! i \<in> set fs" "wf_ctype (snd (fs ! i))" using i(1) "2.prems"(1) by auto
  then show ?case using i(2) "2.IH" by (auto split: if_splits)
next
  case (3 fs)
  then show ?case by (fastforce split: if_splits)
qed auto

end
