(* ===== verification/Velora_Common.thy ===== *)
theory Velora_Common
  imports Velora_System Velora_C_Layout
begin

text \<open>
  \<open>include/velora/common.h\<close>, \<open>src/core/error.c\<close> and \<open>src/shared/utilities.c\<close>: the result codes,
  the program's run state, the error messages, the shutdown handler of \<open>src/main.c\<close> and the growth of a
  heap array.

  \<open>vr_log\<close> and \<open>vr_perror\<close> write to the log only; the components below leave their calls out.
\<close>

datatype vr_result_t = VR_SUCCESS | VR_ERROR | VR_INTERRUPTED | VR_EMPTY

datatype State = RUNNING | SHUTDOWN_REQUESTED | EXITED

datatype vr_error_t =
    VR_OK | VR_ERR_LOG_INIT | VR_ERR_MUTEX_INIT | VR_ERR_SOCKET_CREATE | VR_ERR_SOCKET_CONNECT
  | VR_ERR_SOCKET_ACCEPT | VR_ERR_SOCKET_BIND | VR_ERR_SOCKET_LISTEN | VR_ERR_INVALID_ADDR
  | VR_ERR_INVALID_ADDR_FAMILY

primrec vr_error_code :: "vr_error_t \<Rightarrow> int" where
  "vr_error_code VR_OK = 0"
| "vr_error_code VR_ERR_LOG_INIT = 1"
| "vr_error_code VR_ERR_MUTEX_INIT = 2"
| "vr_error_code VR_ERR_SOCKET_CREATE = 3"
| "vr_error_code VR_ERR_SOCKET_CONNECT = 4"
| "vr_error_code VR_ERR_SOCKET_ACCEPT = 5"
| "vr_error_code VR_ERR_SOCKET_BIND = 6"
| "vr_error_code VR_ERR_SOCKET_LISTEN = 7"
| "vr_error_code VR_ERR_INVALID_ADDR = 8"
| "vr_error_code VR_ERR_INVALID_ADDR_FAMILY = 9"

text \<open>\<open>vr_error_string\<close> takes any integer: a C enumeration is not confined to its constants.\<close>

definition vr_error_string :: "int \<Rightarrow> string" where
  "vr_error_string err =
     (if err = vr_error_code VR_OK then ''No error''
      else if err = vr_error_code VR_ERR_LOG_INIT then ''Failed to initialize logger''
      else if err = vr_error_code VR_ERR_MUTEX_INIT then ''Failed to initialize mutex''
      else if err = vr_error_code VR_ERR_SOCKET_CREATE then ''Failed to create socket''
      else if err = vr_error_code VR_ERR_SOCKET_CONNECT then ''Failed to connect to the socket fd''
      else if err = vr_error_code VR_ERR_SOCKET_ACCEPT then ''Failed to accept queued connection''
      else if err = vr_error_code VR_ERR_SOCKET_BIND then ''Failed to bind socket''
      else if err = vr_error_code VR_ERR_SOCKET_LISTEN then ''Failed to listen on socket''
      else if err = vr_error_code VR_ERR_INVALID_ADDR then ''Error due to invalid address provided''
      else if err = vr_error_code VR_ERR_INVALID_ADDR_FAMILY then ''Error due to unsupported address family''
      else ''Unknown error'')"

section \<open>The shutdown handler\<close>

text \<open>The literal of \<open>handle_shutdown\<close> with its terminating null character. The handler writes twenty bytes of
  it and sets the status.\<close>

definition shutdown_literal :: bytes where
  "shutdown_literal = map of_char ''Shutdown requested'' @ [10, 0]"

definition handle_shutdown :: "State \<Rightarrow> bytes \<times> State" where
  "handle_shutdown running_status = (take 20 shutdown_literal, SHUTDOWN_REQUESTED)"

section \<open>Growing an array\<close>

text \<open>
  \<open>vr_util_array_extend\<close> on an array of word-sized cells. The byte size \<open>new_capacity *
  element_size\<close> is a \<open>size_t\<close> product and wraps; the array holds as many cells as fit in it.
\<close>

definition vr_util_array_extend ::
  "nat list option \<Rightarrow> size_t \<Rightarrow> size_t \<Rightarrow> sys \<Rightarrow> vr_result_t \<times> nat list option \<times> sys" where
  "vr_util_array_extend arr new_capacity element_size s =
     (case realloc_words arr (unat (new_capacity * element_size) div unat element_size) s of
        (None, s') \<Rightarrow> (VR_ERROR, arr, s')
      | (Some temp, s') \<Rightarrow> (VR_SUCCESS, Some temp, s'))"

end
