(* ===== verification/Velora_Ring_Buffer.thy ===== *)
theory Velora_Ring_Buffer
  imports Velora_Common
begin

text \<open>
  \<open>src/conn/ring_buffer.c\<close>: the byte ring that buffers each direction of a connection.

  The record has the fields of \<open>vr_connection_ring_buf_t\<close> at their C widths: positions are 16-bit,
  capacity and count 32-bit. The data pointer is the block it points to, \<^term>\<open>None\<close> when null.
  An operation takes the ring and, when it allocates, the \<open>sys\<close> record, and returns its result code
  with the new values; \<^term>\<open>None\<close> is undefined behaviour. A pointer into the block is its offset.
  Every caller passes the address of a ring embedded in a connection, so a ring argument is never
  null and the operations' null tests on it have no counterpart here.
\<close>

section \<open>The ring and its operations\<close>

definition VR_CONNECTION_BUFFER_INITIAL_SIZE :: uint32 where
  "VR_CONNECTION_BUFFER_INITIAL_SIZE = 4096"

definition VR_CONNECTION_BUFFER_MAX_SIZE :: uint32 where
  "VR_CONNECTION_BUFFER_MAX_SIZE = 65536"

lemmas buffer_sizes [c_defs] =
  VR_CONNECTION_BUFFER_INITIAL_SIZE_def VR_CONNECTION_BUFFER_MAX_SIZE_def

datatype vr_connection_ring_buf_state_t =
  VR_CONN_RING_BUF_UNALLOC | VR_CONN_RING_BUF_ACTIVE | VR_CONN_RING_BUF_FULL

datatype vr_connection_ring_buf_type_t = VR_CONN_RING_BUF_READ | VR_CONN_RING_BUF_WRITE

record vr_connection_ring_buf_t =
  rb_data :: "bytes option"
  rb_capacity :: uint32
  rb_count :: uint32
  rb_read_pos :: uint16
  rb_write_pos :: uint16
  rb_state :: vr_connection_ring_buf_state_t

text \<open>The ring of a freshly zeroed connection object.\<close>

definition ring_zero :: vr_connection_ring_buf_t where
  "ring_zero = \<lparr>rb_data = None, rb_capacity = 0, rb_count = 0, rb_read_pos = 0, rb_write_pos = 0,
     rb_state = VR_CONN_RING_BUF_UNALLOC\<rparr>"

definition vr_conn_ring_buf_init ::
  "vr_connection_ring_buf_t \<Rightarrow> sys \<Rightarrow> vr_result_t \<times> vr_connection_ring_buf_t \<times> sys" where
  "vr_conn_ring_buf_init buf s =
     (if rb_data buf \<noteq> None then (VR_ERROR, buf, s)
      else let buf = buf\<lparr>rb_capacity := VR_CONNECTION_BUFFER_INITIAL_SIZE\<rparr>
           in case malloc_bytes (unat (rb_capacity buf)) s of
                (None, s) \<Rightarrow> (VR_ERROR, buf\<lparr>rb_data := None, rb_capacity := 0\<rparr>, s)
              | (Some d, s) \<Rightarrow>
                  (VR_SUCCESS, buf\<lparr>rb_data := Some d, rb_count := 0, rb_read_pos := 0,
                     rb_write_pos := 0, rb_state := VR_CONN_RING_BUF_ACTIVE\<rparr>, s))"

definition vr_conn_ring_buf_size :: "vr_connection_ring_buf_t \<Rightarrow> uint32" where
  "vr_conn_ring_buf_size buf = rb_count buf"

definition vr_conn_ring_buf_free :: "vr_connection_ring_buf_t \<Rightarrow> uint32" where
  "vr_conn_ring_buf_free buf = rb_capacity buf - rb_count buf"

definition vr_conn_ring_buf_empty :: "vr_connection_ring_buf_t \<Rightarrow> bool" where
  "vr_conn_ring_buf_empty buf = (rb_count buf = 0)"

definition vr_conn_ring_buf_full :: "vr_connection_ring_buf_t \<Rightarrow> bool" where
  "vr_conn_ring_buf_full buf = (rb_count buf = rb_capacity buf)"

text \<open>\<open>(pos + n) % capacity\<close> in 32-bit arithmetic, stored in a 16-bit field; a zero capacity
  divides by zero.\<close>

definition advance :: "uint16 \<Rightarrow> uint32 \<Rightarrow> uint32 \<Rightarrow> uint16 option" where
  "advance pos n cap = (if cap = 0 then None else Some (ucast ((ucast pos + n) mod cap)))"

definition vr_conn_ring_buf_push ::
  "vr_connection_ring_buf_t \<Rightarrow> uint8 \<Rightarrow> sys \<Rightarrow>
     (vr_result_t \<times> vr_connection_ring_buf_t \<times> sys) option" where
  "vr_conn_ring_buf_push buf data s =
     (let (r, buf, s) =
        (if rb_capacity buf = 0 then vr_conn_ring_buf_init buf s else (VR_SUCCESS, buf, s))
      in if r = VR_ERROR then Some (VR_ERROR, buf\<lparr>rb_state := VR_CONN_RING_BUF_UNALLOC\<rparr>, s)
      else if rb_count buf = rb_capacity buf
      then Some (VR_ERROR, buf\<lparr>rb_state := VR_CONN_RING_BUF_FULL\<rparr>, s)
      else do {
        d \<leftarrow> mem_write (rb_data buf) (unat (rb_write_pos buf)) [data];
        w \<leftarrow> advance (rb_write_pos buf) 1 (rb_capacity buf);
        Some (VR_SUCCESS,
          buf\<lparr>rb_count := rb_count buf + 1, rb_data := Some d, rb_write_pos := w\<rparr>, s)
      })"

definition vr_conn_ring_buf_pop ::
  "vr_connection_ring_buf_t \<Rightarrow> (vr_result_t \<times> uint8 option \<times> vr_connection_ring_buf_t) option" where
  "vr_conn_ring_buf_pop buf =
     (if rb_count buf = 0 then Some (VR_ERROR, None, buf)
      else do {
        x \<leftarrow> mem_get (rb_data buf) (unat (rb_read_pos buf));
        r \<leftarrow> advance (rb_read_pos buf) 1 (rb_capacity buf);
        Some (VR_SUCCESS, Some x, buf\<lparr>rb_count := rb_count buf - 1, rb_read_pos := r\<rparr>)
      })"

definition vr_conn_ring_buf_peek ::
  "vr_connection_ring_buf_t \<Rightarrow> (vr_result_t \<times> uint8 option) option" where
  "vr_conn_ring_buf_peek buf =
     (if rb_count buf = 0 then Some (VR_ERROR, None)
      else do {
        x \<leftarrow> mem_get (rb_data buf) (unat (rb_read_pos buf));
        Some (VR_SUCCESS, Some x)
      })"

text \<open>The doubled capacity, clamped to the maximum.\<close>

definition grown_capacity :: "uint32 \<Rightarrow> uint32" where
  "grown_capacity capacity =
     (let new_capacity = capacity * 2
      in if new_capacity > VR_CONNECTION_BUFFER_MAX_SIZE then VR_CONNECTION_BUFFER_MAX_SIZE
         else new_capacity)"

text \<open>The live bytes copied to the front of the new block, in one piece or in two.\<close>

definition grow_copy :: "vr_connection_ring_buf_t \<Rightarrow> bytes \<Rightarrow> bytes option" where
  "grow_copy buf new_buf =
     (if rb_count buf > 0 then
        if rb_read_pos buf < rb_write_pos buf then do {
          xs \<leftarrow> mem_read (rb_data buf) (unat (rb_read_pos buf)) (unat (rb_count buf));
          mem_write (Some new_buf) 0 xs
        } else do {
          let first_chunk = rb_capacity buf - ucast (rb_read_pos buf);
          xs \<leftarrow> mem_read (rb_data buf) (unat (rb_read_pos buf)) (unat first_chunk);
          new_buf \<leftarrow> mem_write (Some new_buf) 0 xs;
          ys \<leftarrow> mem_read (rb_data buf) 0 (unat (rb_count buf - first_chunk));
          mem_write (Some new_buf) (unat first_chunk) ys
        }
      else Some new_buf)"

definition vr_conn_ring_buf_grow ::
  "vr_connection_ring_buf_t \<Rightarrow> sys \<Rightarrow> (vr_result_t \<times> vr_connection_ring_buf_t \<times> sys) option" where
  "vr_conn_ring_buf_grow buf s =
     (if rb_capacity buf = 0 then Some (vr_conn_ring_buf_init buf s)
      else if rb_capacity buf \<ge> VR_CONNECTION_BUFFER_MAX_SIZE
      then Some (VR_ERROR, buf, s\<lparr>errno := ENOMEM\<rparr>)
      else
        (case malloc_bytes (unat (grown_capacity (rb_capacity buf))) s of
           (None, s) \<Rightarrow> Some (VR_ERROR, buf, s)
         | (Some new_buf, s) \<Rightarrow> do {
             new_buf \<leftarrow> grow_copy buf new_buf;
             Some (VR_SUCCESS,
               buf\<lparr>rb_data := Some new_buf, rb_capacity := grown_capacity (rb_capacity buf),
                   rb_read_pos := 0, rb_write_pos := ucast (rb_count buf),
                   rb_state := VR_CONN_RING_BUF_ACTIVE\<rparr>,
               c_free (rb_data buf) s)
           }))"

text \<open>The second argument is the old value of the out-parameter \<open>*data\<close>.\<close>

definition vr_conn_ring_buf_contiguous_read ::
  "vr_connection_ring_buf_t \<Rightarrow> nat option \<Rightarrow> uint32 \<times> nat option" where
  "vr_conn_ring_buf_contiguous_read buf data =
     (if rb_count buf = 0 then (0, data)
      else (if rb_read_pos buf < rb_write_pos buf then rb_count buf
            else rb_capacity buf - ucast (rb_read_pos buf),
            Some (unat (rb_read_pos buf))))"

definition vr_conn_ring_buf_consume ::
  "vr_connection_ring_buf_t \<Rightarrow> uint32 \<Rightarrow> (vr_result_t \<times> vr_connection_ring_buf_t) option" where
  "vr_conn_ring_buf_consume buf count =
     (if count > rb_count buf then Some (VR_ERROR, buf)
      else do {
        r \<leftarrow> advance (rb_read_pos buf) count (rb_capacity buf);
        let buf = buf\<lparr>rb_read_pos := r, rb_count := rb_count buf - count\<rparr>;
        let buf = (if rb_count buf = 0 then buf\<lparr>rb_read_pos := 0, rb_write_pos := 0\<rparr> else buf);
        let buf = (if rb_state buf = VR_CONN_RING_BUF_FULL
                   then buf\<lparr>rb_state := VR_CONN_RING_BUF_ACTIVE\<rparr> else buf);
        Some (VR_SUCCESS, buf)
      })"

text \<open>The bytes copied to \<open>out\<close>; \<open>out\<close> is a block of at least \<open>len\<close> bytes in every call.\<close>

definition vr_conn_ring_buf_peek_n ::
  "vr_connection_ring_buf_t \<Rightarrow> uint32 \<Rightarrow> (vr_result_t \<times> bytes) option" where
  "vr_conn_ring_buf_peek_n buf len =
     (if len > rb_count buf then Some (VR_ERROR, [])
      else if len = 0 then Some (VR_SUCCESS, [])
      else
        let first_chunk = rb_capacity buf - ucast (rb_read_pos buf)
        in if first_chunk \<ge> len then do {
             xs \<leftarrow> mem_read (rb_data buf) (unat (rb_read_pos buf)) (unat len);
             Some (VR_SUCCESS, xs)
           } else do {
             xs \<leftarrow> mem_read (rb_data buf) (unat (rb_read_pos buf)) (unat first_chunk);
             ys \<leftarrow> mem_read (rb_data buf) 0 (unat (len - first_chunk));
             Some (VR_SUCCESS, xs @ ys)
           })"

definition vr_conn_ring_buf_contiguous_write ::
  "vr_connection_ring_buf_t \<Rightarrow> nat option \<Rightarrow> uint32 \<times> nat option" where
  "vr_conn_ring_buf_contiguous_write buf data =
     (if rb_capacity buf = 0 then (0, data)
      else let free_space = rb_capacity buf - rb_count buf
           in if free_space = 0 then (0, data)
           else if rb_write_pos buf \<ge> rb_read_pos buf then
             let region1_len = rb_capacity buf - ucast (rb_write_pos buf)
             in (if region1_len > free_space then free_space else region1_len,
                 Some (unat (rb_write_pos buf)))
           else
             let contiguous = ucast (rb_read_pos buf - rb_write_pos buf)
             in (if contiguous > free_space then free_space else contiguous,
                 Some (unat (rb_write_pos buf))))"

definition vr_conn_ring_buf_commit ::
  "vr_connection_ring_buf_t \<Rightarrow> uint32 \<Rightarrow> (vr_result_t \<times> vr_connection_ring_buf_t) option" where
  "vr_conn_ring_buf_commit buf count =
     (if count = 0 then Some (VR_SUCCESS, buf)
      else if rb_capacity buf = 0 \<or> count > rb_capacity buf - rb_count buf
      then Some (VR_ERROR, buf)
      else do {
        w \<leftarrow> advance (rb_write_pos buf) count (rb_capacity buf);
        let buf = buf\<lparr>rb_write_pos := w, rb_count := rb_count buf + count\<rparr>;
        Some (VR_SUCCESS, if rb_count buf = rb_capacity buf
                          then buf\<lparr>rb_state := VR_CONN_RING_BUF_FULL\<rparr> else buf)
      })"

subsection \<open>The growth loop of reserve\<close>

lemma init_result:
  assumes "vr_conn_ring_buf_init buf s = (r, buf', s')"
  shows "r = VR_SUCCESS \<and> rb_capacity buf' = 4096 \<and> rb_data buf = None \<or> r = VR_ERROR"
  using assms
  by (auto simp: vr_conn_ring_buf_init_def c_defs Let_def split: prod.splits option.splits if_splits)

lemma unat_grown_capacity:
  assumes "unat c < 65536"
  shows "unat (grown_capacity c) = min (2 * unat c) 65536"
proof -
  have "unat (c * 2) = 2 * unat c"
    using assms by (simp add: unat_word_ariths)
  then show ?thesis
    by (auto simp: grown_capacity_def Let_def c_defs unat_order)
qed

lemma grow_result:
  assumes "vr_conn_ring_buf_grow buf s = Some (r, buf', s')" "r \<noteq> VR_ERROR"
  shows "unat (rb_capacity buf) < unat (rb_capacity buf') \<and> unat (rb_capacity buf') \<le> 65536"
proof (cases "rb_capacity buf = 0")
  case True
  then show ?thesis using assms init_result [of buf s r buf' s']
    by (simp add: vr_conn_ring_buf_grow_def)
next
  case False
  then have c: "unat (rb_capacity buf) < 65536" "0 < unat (rb_capacity buf)"
    using assms by (auto simp: vr_conn_ring_buf_grow_def c_defs unat_order unat_gt_0 split: if_splits)
  have "rb_capacity buf' = grown_capacity (rb_capacity buf)"
    using False assms
    by (auto simp: vr_conn_ring_buf_grow_def split: if_splits prod.splits option.splits bind_splits)
  then show ?thesis using unat_grown_capacity [OF c(1)] c by simp
qed

function reserve_loop ::
  "vr_connection_ring_buf_t \<Rightarrow> uint32 \<Rightarrow> sys \<Rightarrow>
     (vr_result_t \<times> vr_connection_ring_buf_t \<times> sys) option" where
  "reserve_loop buf needed s =
     (if vr_conn_ring_buf_free buf < needed then do {
        (r, buf, s) \<leftarrow> vr_conn_ring_buf_grow buf s;
        if r = VR_ERROR then Some (VR_ERROR, buf, s) else reserve_loop buf needed s
      } else Some (VR_SUCCESS, buf, s))"
  by pat_completeness auto
termination
  by (relation "measure (\<lambda>(buf, _, _). 65536 - unat (rb_capacity buf))")
    (auto dest!: grow_result)

declare reserve_loop.simps [simp del]

definition vr_conn_ring_buf_reserve ::
  "vr_connection_ring_buf_t \<Rightarrow> uint32 \<Rightarrow> sys \<Rightarrow>
     (vr_result_t \<times> vr_connection_ring_buf_t \<times> sys) option" where
  "vr_conn_ring_buf_reserve buf needed s =
     (let (r, buf, s) =
        (if rb_capacity buf = 0 then vr_conn_ring_buf_init buf s else (VR_SUCCESS, buf, s))
      in if r = VR_ERROR then Some (VR_ERROR, buf, s) else reserve_loop buf needed s)"

end
