(* ===== verification/Velora_Ring_Spec.thy ===== *)
theory Velora_Ring_Spec
  imports Velora_Ring_Buffer
begin

text \<open>
  What the ring buffer of \<open>src/conn/ring_buffer.c\<close> promises: a byte queue. The invariant
  \<open>ring_inv\<close> relates the fields, \<open>ring_contents\<close> is the queue a ring stands for, and each
  operation is shown to be free of undefined behaviour, to keep the invariant and to act on the
  contents as the queue operation it implements.
\<close>

section \<open>Invariant and abstraction\<close>

definition ring_inv :: "vr_connection_ring_buf_t \<Rightarrow> bool" where
  "ring_inv b \<longleftrightarrow> (case rb_data b of
       None \<Rightarrow> b = ring_zero
     | Some d \<Rightarrow> length d = unat (rb_capacity b) \<and> 0 < unat (rb_capacity b)
         \<and> unat (rb_capacity b) \<le> 65536 \<and> unat (rb_count b) \<le> unat (rb_capacity b)
         \<and> unat (rb_read_pos b) < unat (rb_capacity b)
         \<and> unat (rb_write_pos b) = (unat (rb_read_pos b) + unat (rb_count b)) mod unat (rb_capacity b)
         \<and> rb_state b \<noteq> VR_CONN_RING_BUF_UNALLOC)"

definition ring_contents :: "vr_connection_ring_buf_t \<Rightarrow> bytes" where
  "ring_contents b = (case rb_data b of
       None \<Rightarrow> [] | Some d \<Rightarrow> cyc d (unat (rb_read_pos b)) (unat (rb_count b)))"

lemma ring_inv_zero [simp]: "ring_inv ring_zero"
  by (simp add: ring_inv_def ring_zero_def)

lemma ring_contents_zero [simp]: "ring_contents ring_zero = []"
  by (simp add: ring_contents_def ring_zero_def)

lemma ring_zero_fields [simp]:
  "rb_data ring_zero = None" "rb_capacity ring_zero = 0" "rb_count ring_zero = 0"
  "rb_state ring_zero = VR_CONN_RING_BUF_UNALLOC"
  by (simp_all add: ring_zero_def)

lemma live_not_zero: "rb_data b = Some d \<Longrightarrow> b \<noteq> ring_zero"
  by (auto simp: ring_zero_def)

lemma ring_inv_cases:
  assumes "ring_inv b"
  obtains (zero) "b = ring_zero"
  | (live) d where "rb_data b = Some d" "length d = unat (rb_capacity b)"
      "0 < unat (rb_capacity b)" "unat (rb_capacity b) \<le> 65536"
      "unat (rb_count b) \<le> unat (rb_capacity b)"
      "unat (rb_read_pos b) < unat (rb_capacity b)"
      "unat (rb_write_pos b) = (unat (rb_read_pos b) + unat (rb_count b)) mod unat (rb_capacity b)"
      "rb_state b \<noteq> VR_CONN_RING_BUF_UNALLOC"
      "ring_contents b = cyc d (unat (rb_read_pos b)) (unat (rb_count b))"
  using assms by (auto simp: ring_inv_def ring_contents_def split: option.splits)

lemma ring_inv_live:
  assumes "rb_data b = Some d"
  shows "ring_inv b \<longleftrightarrow> length d = unat (rb_capacity b) \<and> 0 < unat (rb_capacity b)
         \<and> unat (rb_capacity b) \<le> 65536 \<and> unat (rb_count b) \<le> unat (rb_capacity b)
         \<and> unat (rb_read_pos b) < unat (rb_capacity b)
         \<and> unat (rb_write_pos b) = (unat (rb_read_pos b) + unat (rb_count b)) mod unat (rb_capacity b)
         \<and> rb_state b \<noteq> VR_CONN_RING_BUF_UNALLOC"
  using assms by (simp add: ring_inv_def)

lemma ring_contents_live:
  "rb_data b = Some d \<Longrightarrow> ring_contents b = cyc d (unat (rb_read_pos b)) (unat (rb_count b))"
  by (simp add: ring_contents_def)

lemma ring_capacity_zero_iff: "ring_inv b \<Longrightarrow> rb_capacity b = 0 \<longleftrightarrow> b = ring_zero"
  by (erule ring_inv_cases) (auto simp: ring_zero_def)

lemma ring_data_None_iff: "ring_inv b \<Longrightarrow> rb_data b = None \<longleftrightarrow> b = ring_zero"
  by (auto simp: ring_inv_def ring_zero_def)

lemma ring_state_iff: "ring_inv b \<Longrightarrow> rb_state b = VR_CONN_RING_BUF_UNALLOC \<longleftrightarrow> b = ring_zero"
  by (erule ring_inv_cases) (auto simp: ring_zero_def)

lemma ring_capacity_le: "ring_inv b \<Longrightarrow> unat (rb_capacity b) \<le> 65536"
  by (erule ring_inv_cases) (auto simp: ring_zero_def)

lemma length_ring_contents: "ring_inv b \<Longrightarrow> length (ring_contents b) = unat (rb_count b)"
  by (erule ring_inv_cases) (simp_all add: ring_zero_def ring_contents_def)

lemma ring_count_le: "ring_inv b \<Longrightarrow> unat (rb_count b) \<le> unat (rb_capacity b)"
  by (erule ring_inv_cases) (auto simp: ring_zero_def)

lemma unat_ring_free:
  "ring_inv b \<Longrightarrow> unat (vr_conn_ring_buf_free b) = unat (rb_capacity b) - length (ring_contents b)"
  using ring_count_le [of b] by (simp add: vr_conn_ring_buf_free_def length_ring_contents unat_sub unat_order)

lemma advance_Some:
  assumes "0 < unat c" "unat c \<le> 65536" "unat n \<le> 65536"
  obtains w where "advance p n c = Some w" "unat w = (unat p + unat n) mod unat c"
proof -
  have c: "c \<noteq> 0" using assms(1) by auto
  have "unat (ucast p :: uint32) + unat n < 4294967296"
    using assms(3) unat16_less [of p] by (simp del: unat16_less)
  then have "unat ((ucast p + n) mod c) = (unat p + unat n) mod unat c"
    by (simp add: unat_mod unat_plus_bounded)
  moreover have "(unat p + unat n) mod unat c < 65536"
    using mod_less_divisor [OF assms(1)] assms(2) order_less_le_trans by blast
  ultimately have "unat (ucast ((ucast p + n) mod c) :: uint16) = (unat p + unat n) mod unat c"
    by (simp add: unat_ucast_32_16)
  then show ?thesis using that c by (simp add: advance_def)
qed

section \<open>Single bytes\<close>

lemma init_spec:
  assumes "ring_inv b"
  obtains r b' s' where "vr_conn_ring_buf_init b s = (r, b', s')" "ring_inv b'"
    "ring_contents b' = ring_contents b"
    "r = VR_ERROR \<and> b' = b \<or> r = VR_SUCCESS \<and> b = ring_zero \<and> unat (rb_capacity b') = 4096"
    "blocks s' = blocks s + of_bool (r = VR_SUCCESS)" "heap_frame s s'"
    "\<forall>n. plenty (Suc n) s \<longrightarrow> plenty n s' \<and> (b = ring_zero \<longrightarrow> r = VR_SUCCESS)"
proof (cases rule: ring_inv_cases [OF assms])
  case 1
  show ?thesis
  proof (cases rule: malloc_bytes_cases [of 4096 s])
    case (null s')
    then show ?thesis using 1 that [of VR_ERROR b s']
      by (simp add: vr_conn_ring_buf_init_def ring_zero_def c_defs ring_inv_def)
  next
    case (block d s')
    then show ?thesis using 1
        that [of VR_SUCCESS "ring_zero\<lparr>rb_capacity := 4096, rb_data := Some d,
                rb_state := VR_CONN_RING_BUF_ACTIVE\<rparr>" s']
      by (simp add: vr_conn_ring_buf_init_def ring_zero_def c_defs ring_inv_def ring_contents_def)
  qed
next
  case (2 d)
  have nz: "b \<noteq> ring_zero" using 2(1) by (rule live_not_zero)
  have "vr_conn_ring_buf_init b s = (VR_ERROR, b, s)"
    using 2(1) by (simp add: vr_conn_ring_buf_init_def)
  then show ?thesis using assms by (rule that) (simp_all add: nz plenty_Suc)
qed

lemma push_live:
  assumes "ring_inv b" "rb_data b = Some d" "unat (rb_count b) < unat (rb_capacity b)"
  obtains b' where "vr_conn_ring_buf_push b x s = Some (VR_SUCCESS, b', s)" "ring_inv b'"
    "ring_contents b' = ring_contents b @ [x]" "rb_capacity b' = rb_capacity b"
proof -
  note inv = assms(1)[unfolded ring_inv_live [OF assms(2)]]
  from inv have c: "0 < unat (rb_capacity b)" "unat (rb_capacity b) \<le> 65536" by auto
  obtain w where w: "advance (rb_write_pos b) 1 (rb_capacity b) = Some w"
      "unat w = (unat (rb_write_pos b) + 1) mod unat (rb_capacity b)"
    using advance_Some [OF c, of 1 "rb_write_pos b"] by auto
  have wlt: "unat (rb_write_pos b) < length d" using inv by simp
  have cnt: "unat (rb_count b + 1) = unat (rb_count b) + 1"
    using assms(3) c by (simp add: unat_word_ariths)
  have "rb_capacity b \<noteq> 0" "rb_count b \<noteq> rb_capacity b" using c assms(3) by auto
  then have p: "vr_conn_ring_buf_push b x s = Some (VR_SUCCESS,
      b\<lparr>rb_count := rb_count b + 1, rb_data := Some (d[unat (rb_write_pos b) := x]),
        rb_write_pos := w\<rparr>, s)" (is "_ = Some (_, ?b', _)")
    using w(1) wlt assms(2)
    by (simp add: vr_conn_ring_buf_push_def block_simps overwrite_single)
  have "ring_inv ?b'"
    using inv cnt w(2) assms(3) by (simp add: ring_inv_def mod_simps)
  moreover have "ring_contents ?b' = ring_contents b @ [x]"
    using cnt inv assms(2,3) cyc_update_append [of "unat (rb_read_pos b)" d "unat (rb_count b)" _ x]
    by (simp add: ring_contents_def)
  ultimately show ?thesis using that p by simp
qed

lemma push_full:
  assumes "ring_inv b" "rb_data b = Some d" "\<not> unat (rb_count b) < unat (rb_capacity b)"
  shows "vr_conn_ring_buf_push b x s = Some (VR_ERROR, b\<lparr>rb_state := VR_CONN_RING_BUF_FULL\<rparr>, s)"
    and "ring_inv (b\<lparr>rb_state := VR_CONN_RING_BUF_FULL\<rparr>)"
    and "ring_contents (b\<lparr>rb_state := VR_CONN_RING_BUF_FULL\<rparr>) = ring_contents b"
    and "vr_conn_ring_buf_full (b\<lparr>rb_state := VR_CONN_RING_BUF_FULL\<rparr>)"
proof -
  note inv = assms(1)[unfolded ring_inv_live [OF assms(2)]]
  then have "unat (rb_count b) = unat (rb_capacity b)" using assms(3) by simp
  then have full: "rb_count b = rb_capacity b" by (simp add: word_unat_eq_iff)
  have nz: "rb_capacity b \<noteq> 0" using inv by auto
  show "vr_conn_ring_buf_push b x s = Some (VR_ERROR, b\<lparr>rb_state := VR_CONN_RING_BUF_FULL\<rparr>, s)"
    using full nz by (simp add: vr_conn_ring_buf_push_def)
  show "ring_inv (b\<lparr>rb_state := VR_CONN_RING_BUF_FULL\<rparr>)"
    using inv assms(2) by (simp add: ring_inv_def)
  show "ring_contents (b\<lparr>rb_state := VR_CONN_RING_BUF_FULL\<rparr>) = ring_contents b"
    using assms(2) by (simp add: ring_contents_def)
  show "vr_conn_ring_buf_full (b\<lparr>rb_state := VR_CONN_RING_BUF_FULL\<rparr>)"
    using full by (simp add: vr_conn_ring_buf_full_def)
qed

lemma push_live_cases:
  assumes "ring_inv b" "rb_data b = Some d"
  shows "\<exists>r b' s'. vr_conn_ring_buf_push b x s = Some (r, b', s') \<and> ring_inv b' \<and>
    (r = VR_SUCCESS \<and> ring_contents b' = ring_contents b @ [x] \<or>
     r = VR_ERROR \<and> ring_contents b' = ring_contents b \<and> vr_conn_ring_buf_full b')"
proof (cases "unat (rb_count b) < unat (rb_capacity b)")
  case True
  show ?thesis by (rule push_live [OF assms True, of x s]) blast
next
  case False
  show ?thesis using push_full [OF assms False] by blast
qed

lemma push_zero:
  assumes "vr_conn_ring_buf_init ring_zero s = (r, b1, s1)"
  shows "r = VR_ERROR \<Longrightarrow> vr_conn_ring_buf_push ring_zero x s =
      Some (VR_ERROR, b1\<lparr>rb_state := VR_CONN_RING_BUF_UNALLOC\<rparr>, s1)"
    and "r \<noteq> VR_ERROR \<Longrightarrow> rb_capacity b1 \<noteq> 0 \<Longrightarrow>
      vr_conn_ring_buf_push ring_zero x s = vr_conn_ring_buf_push b1 x s1"
proof -
  have "rb_capacity ring_zero = 0" by (simp add: ring_zero_def)
  then show "r = VR_ERROR \<Longrightarrow> vr_conn_ring_buf_push ring_zero x s =
      Some (VR_ERROR, b1\<lparr>rb_state := VR_CONN_RING_BUF_UNALLOC\<rparr>, s1)"
    and "r \<noteq> VR_ERROR \<Longrightarrow> rb_capacity b1 \<noteq> 0 \<Longrightarrow>
      vr_conn_ring_buf_push ring_zero x s = vr_conn_ring_buf_push b1 x s1"
    using assms by (simp_all add: vr_conn_ring_buf_push_def)
qed

lemma ring_push_total:
  assumes "ring_inv b"
  shows "\<exists>r b' s'. vr_conn_ring_buf_push b x s = Some (r, b', s') \<and> ring_inv b' \<and>
    (r = VR_SUCCESS \<and> ring_contents b' = ring_contents b @ [x] \<or>
     r = VR_ERROR \<and> ring_contents b' = ring_contents b \<and>
       (b' = ring_zero \<or> vr_conn_ring_buf_full b'))"
proof (cases rule: ring_inv_cases [OF assms])
  case 1
  obtain r b1 s1 where i: "vr_conn_ring_buf_init b s = (r, b1, s1)" "ring_inv b1"
      "ring_contents b1 = ring_contents b"
      "r = VR_ERROR \<and> b1 = b \<or> r = VR_SUCCESS \<and> b = ring_zero \<and> unat (rb_capacity b1) = 4096"
    by (rule init_spec [OF assms])
  show ?thesis
  proof (cases "r = VR_ERROR")
    case True
    then have "b1\<lparr>rb_state := VR_CONN_RING_BUF_UNALLOC\<rparr> = ring_zero"
      using i(4) 1 by (auto simp: ring_zero_def)
    then show ?thesis using push_zero(1) [of s r b1 s1 x] i(1) 1 True by simp
  next
    case False
    then have c: "unat (rb_capacity b1) = 4096" using i(4) by simp
    obtain d where "rb_data b1 = Some d"
      using c by (cases rule: ring_inv_cases [OF i(2)]) (auto simp: ring_zero_def)
    note live = push_live_cases [OF i(2) this, of x s1]
    have "rb_capacity b1 \<noteq> 0" using c by auto
    then have "vr_conn_ring_buf_push b x s = vr_conn_ring_buf_push b1 x s1"
      using push_zero(2) [of s r b1 s1 x] i(1) 1 False by simp
    then show ?thesis using live i(3) by (simp only:) blast
  qed
next
  case (2 d)
  show ?thesis using push_live_cases [OF assms 2(1), of x s] by blast
qed

lemma pop_Cons:
  assumes "ring_inv b" "ring_contents b = x # xs"
  obtains b' where "vr_conn_ring_buf_pop b = Some (VR_SUCCESS, Some x, b')" "ring_inv b'"
    "ring_contents b' = xs" "rb_capacity b' = rb_capacity b"
proof (cases rule: ring_inv_cases [OF assms(1)])
  case 1 then show ?thesis using assms(2) by simp
next
  case (2 d)
  obtain r where r: "advance (rb_read_pos b) 1 (rb_capacity b) = Some r"
      "unat r = (unat (rb_read_pos b) + 1) mod unat (rb_capacity b)"
    using advance_Some [OF 2(3,4), of 1 "rb_read_pos b"] by auto
  obtain n where n: "unat (rb_count b) = Suc n"
    using assms(2) 2(9) by (cases "unat (rb_count b)") auto
  have nz: "rb_count b \<noteq> 0" using n by auto
  then have cnt: "unat (rb_count b - 1) = n" using n by (simp add: unat_minus_one)
  have x: "x = d ! unat (rb_read_pos b)" "xs = cyc d (unat (rb_read_pos b) + 1) n"
    using assms(2) 2 n by (auto simp: cyc_Suc)
  have p: "vr_conn_ring_buf_pop b = Some (VR_SUCCESS, Some x,
      b\<lparr>rb_count := rb_count b - 1, rb_read_pos := r\<rparr>)" (is "_ = Some (_, _, ?b')")
    using r(1) 2 nz x(1) by (simp add: vr_conn_ring_buf_pop_def block_simps)
  have "ring_inv ?b'"
    using 2 cnt r(2) n by (simp add: ring_inv_def mod_simps)
  moreover have "ring_contents ?b' = xs"
    using x(2) 2 cnt r(2) cyc_mod [of d "unat (rb_read_pos b) + 1" n] by (simp add: ring_contents_def)
  ultimately show ?thesis using that p by simp
qed

lemma consume_ok:
  assumes "ring_inv b" "b \<noteq> ring_zero" "unat n \<le> length (ring_contents b)"
  obtains b' where "vr_conn_ring_buf_consume b n = Some (VR_SUCCESS, b')" "ring_inv b'"
    "ring_contents b' = drop (unat n) (ring_contents b)" "rb_capacity b' = rb_capacity b"
proof (cases rule: ring_inv_cases [OF assms(1)])
  case 1 then show ?thesis using assms(2) by simp
next
  case (2 d)
  let ?k = "unat n" and ?c = "unat (rb_capacity b)" and ?rp = "unat (rb_read_pos b)"
  have k: "?k \<le> unat (rb_count b)" using assms 2(9) by simp
  obtain r where r: "advance (rb_read_pos b) n (rb_capacity b) = Some r" "unat r = (?rp + ?k) mod ?c"
    using advance_Some [OF 2(3,4), of n "rb_read_pos b"] k 2 by auto
  have cnt: "unat (rb_count b - n) = unat (rb_count b) - ?k"
    using k by (simp add: unat_sub unat_order)
  define b1 where "b1 = b\<lparr>rb_read_pos := r, rb_count := rb_count b - n\<rparr>"
  define b2 where "b2 = (if rb_count b1 = 0 then b1\<lparr>rb_read_pos := 0, rb_write_pos := 0\<rparr> else b1)"
  define b3 where "b3 = (if rb_state b2 = VR_CONN_RING_BUF_FULL
                   then b2\<lparr>rb_state := VR_CONN_RING_BUF_ACTIVE\<rparr> else b2)"
  have p: "vr_conn_ring_buf_consume b n = Some (VR_SUCCESS, b3)"
    using k r(1) by (simp add: vr_conn_ring_buf_consume_def unat_order b1_def b2_def b3_def)
  have "((?rp + ?k) mod ?c + (unat (rb_count b) - ?k)) mod ?c = (?rp + unat (rb_count b)) mod ?c"
    by (rule mod_advance [OF k])
  then have i1: "ring_inv b1"
    using 2 cnt r(2) by (simp add: ring_inv_def b1_def le_diff_conv)
  have c1: "ring_contents b1 = drop ?k (ring_contents b)"
    using 2 cnt r(2) by (simp add: ring_contents_def b1_def drop_cyc)
  have "ring_inv b3" using i1 2 by (auto simp: ring_inv_def b1_def b2_def b3_def)
  moreover have "ring_contents b3 = ring_contents b1"
    using 2 by (auto simp: ring_contents_def b1_def b2_def b3_def)
  moreover have "rb_capacity b3 = rb_capacity b" by (simp add: b1_def b2_def b3_def)
  ultimately show ?thesis using that p c1 by simp
qed

lemma consume_too_many:
  "length (ring_contents b) < unat n \<Longrightarrow> ring_inv b \<Longrightarrow> vr_conn_ring_buf_consume b n = Some (VR_ERROR, b)"
  by (simp add: vr_conn_ring_buf_consume_def unat_order length_ring_contents)

section \<open>Spans\<close>

lemma contiguous_read_empty:
  "ring_inv b \<Longrightarrow> ring_contents b = [] \<Longrightarrow> vr_conn_ring_buf_contiguous_read b p = (0, p)"
  using length_ring_contents [of b] by (auto simp: vr_conn_ring_buf_contiguous_read_def unat_eq_zero)

lemma contiguous_read_span:
  assumes "ring_inv b" "ring_contents b \<noteq> []"
  obtains n off where "vr_conn_ring_buf_contiguous_read b p = (n, Some off)"
    "0 < unat n" "unat n \<le> length (ring_contents b)"
    "\<And>k. k \<le> unat n \<Longrightarrow> mem_read (rb_data b) off k = Some (take k (ring_contents b))"
proof (cases rule: ring_inv_cases [OF assms(1)])
  case 1 then show ?thesis using assms(2) by simp
next
  case (2 d)
  let ?c = "unat (rb_capacity b)" and ?r = "unat (rb_read_pos b)" and ?n = "unat (rb_count b)"
  have n0: "0 < ?n" using assms(2) 2(9) by (metis cyc_0 gr0I)
  then have nz: "rb_count b \<noteq> 0" by auto
  define m where "m = (if rb_read_pos b < rb_write_pos b then rb_count b
                       else rb_capacity b - ucast (rb_read_pos b))"
  have sub: "unat (rb_capacity b - ucast (rb_read_pos b)) = ?c - ?r"
    using 2(6) by (simp add: unat_sub unat_order)
  have m: "0 < unat m \<and> unat m \<le> ?n \<and> ?r + unat m \<le> ?c"
  proof (cases "?r + ?n < ?c")
    case True
    then show ?thesis using 2 n0 by (simp add: m_def unat_order)
  next
    case False
    then have "unat (rb_write_pos b) = ?r + ?n - ?c" using 2 by (simp add: mod_if)
    then have "\<not> rb_read_pos b < rb_write_pos b" using 2(5) by (simp add: unat_order)
    then show ?thesis using False sub 2(6) by (simp add: m_def)
  qed
  have "vr_conn_ring_buf_contiguous_read b p = (m, Some ?r)"
    using nz by (simp add: vr_conn_ring_buf_contiguous_read_def m_def)
  moreover have "mem_read (rb_data b) ?r k = Some (take k (ring_contents b))" if "k \<le> unat m" for k
    using that m 2 by (simp add: block_simps cyc_contiguous min_def)
  ultimately show ?thesis using that m 2(9) by simp
qed

lemma peek_n_ok:
  assumes "ring_inv b" "unat len \<le> length (ring_contents b)"
  shows "vr_conn_ring_buf_peek_n b len = Some (VR_SUCCESS, take (unat len) (ring_contents b))"
proof (cases "len = 0")
  case True then show ?thesis by (simp add: vr_conn_ring_buf_peek_n_def)
next
  case nz: False
  then have l0: "0 < unat len" by (simp add: unat_gt_0)
  show ?thesis
  proof (cases rule: ring_inv_cases [OF assms(1)])
    case 1 then show ?thesis using assms(2) l0 by simp
  next
    case (2 d)
    let ?c = "unat (rb_capacity b)" and ?r = "unat (rb_read_pos b)"
    let ?fc = "rb_capacity b - ucast (rb_read_pos b)"
    have fc: "unat ?fc = ?c - ?r" using 2(6) by (simp add: unat_sub unat_order)
    have len: "unat len \<le> unat (rb_count b)" using assms(2) 2(9) by simp
    show ?thesis
    proof (cases "len \<le> ?fc")
      case True
      then have "?r + unat len \<le> ?c" using fc 2(6) by (simp add: unat_order)
      then show ?thesis using True nz len 2
        by (simp add: vr_conn_ring_buf_peek_n_def unat_order block_simps cyc_contiguous)
    next
      case False
      then have w: "?c - ?r < unat len" using fc by (simp add: unat_order)
      have "unat (len - ?fc) = unat len - (?c - ?r)"
        using w fc by (simp add: unat_sub unat_order)
      moreover have "cyc d ?r (unat len) = drop ?r d @ take (unat len - (?c - ?r)) d"
        using w len 2 by (subst cyc_wrapped) auto
      ultimately show ?thesis using False nz len 2 fc w
        by (simp add: vr_conn_ring_buf_peek_n_def unat_order block_simps)
    qed
  qed
qed

lemma peek_n_too_many:
  "ring_inv b \<Longrightarrow> length (ring_contents b) < unat len \<Longrightarrow> vr_conn_ring_buf_peek_n b len = Some (VR_ERROR, [])"
  by (simp add: vr_conn_ring_buf_peek_n_def unat_order length_ring_contents)

lemma contiguous_write_span:
  assumes "ring_inv b" "length (ring_contents b) < unat (rb_capacity b)"
  obtains n where "vr_conn_ring_buf_contiguous_write b p = (n, Some (unat (rb_write_pos b)))"
    "0 < unat n" "unat (rb_write_pos b) + unat n \<le> unat (rb_capacity b)"
    "length (ring_contents b) + unat n \<le> unat (rb_capacity b)"
    "unat n = unat (rb_capacity b) - length (ring_contents b) \<or>
     unat (rb_write_pos b) + unat n = unat (rb_capacity b)"
proof (cases rule: ring_inv_cases [OF assms(1)])
  case 1 then show ?thesis using assms(2) by (simp add: ring_zero_def)
next
  case (2 d)
  let ?c = "unat (rb_capacity b)" and ?r = "unat (rb_read_pos b)" and ?n = "unat (rb_count b)"
    and ?w = "unat (rb_write_pos b)"
  have nc: "?n < ?c" using assms(2) 2(9) by simp
  have free: "unat (rb_capacity b - rb_count b) = ?c - ?n" using 2(5) by (simp add: unat_sub unat_order)
  have wc: "?w < ?c" using 2(3,7) by simp
  have r1: "unat (rb_capacity b - ucast (rb_write_pos b)) = ?c - ?w"
    using wc by (simp add: unat_sub unat_order)
  have nz: "rb_capacity b \<noteq> 0" "rb_capacity b - rb_count b \<noteq> 0" using 2(3) free nc by auto
  show ?thesis
  proof (cases "?r \<le> ?w")
    case True
    define m where "m = (if rb_capacity b - ucast (rb_write_pos b) > rb_capacity b - rb_count b
      then rb_capacity b - rb_count b else rb_capacity b - ucast (rb_write_pos b))"
    have "vr_conn_ring_buf_contiguous_write b p = (m, Some ?w)"
      using True nz by (simp add: vr_conn_ring_buf_contiguous_write_def m_def unat_order)
    moreover have "unat m = min (?c - ?w) (?c - ?n)"
      by (simp add: m_def unat_order free r1)
    ultimately show ?thesis using that nc wc 2(9) by (auto simp: min_def split: if_splits)
  next
    case False
    have ge: "?c \<le> ?r + ?n" using False 2(7) by (cases "?r + ?n < ?c") auto
    then have "?w = ?r + ?n - ?c" using 2(7) 2(6) nc by (simp add: mod_if)
    then have g: "?r - ?w = ?c - ?n" using ge nc 2(6) by linarith
    define m where "m = (ucast (rb_read_pos b - rb_write_pos b) :: uint32)"
    have m: "unat m = ?c - ?n"
      using False g by (simp add: m_def unat_sub unat_order)
    have "vr_conn_ring_buf_contiguous_write b p = (m, Some ?w)"
      using False nz m free
      by (simp add: vr_conn_ring_buf_contiguous_write_def unat_order flip: m_def)
    then show ?thesis using that m nc g False 2(6,9) by simp
  qed
qed

lemma commit_span:
  assumes "ring_inv b" "rb_data b = Some d" "unat (rb_count b) + unat k \<le> unat (rb_capacity b)"
  obtains b' where "vr_conn_ring_buf_commit b k = Some (VR_SUCCESS, b')" "ring_inv b'"
    "ring_contents b' = ring_contents b @ cyc d (unat (rb_write_pos b)) (unat k)"
    "rb_data b' = Some d" "rb_capacity b' = rb_capacity b"
    "unat (rb_write_pos b') = (unat (rb_write_pos b) + unat k) mod unat (rb_capacity b)"
proof (cases "k = 0")
  case True
  then show ?thesis
    using that [of b] assms by (simp add: vr_conn_ring_buf_commit_def ring_inv_live)
next
  case False
  note inv = assms(1)[unfolded ring_inv_live [OF assms(2)]]
  then have c: "0 < unat (rb_capacity b)" "unat (rb_capacity b) \<le> 65536" by auto
  obtain w where w: "advance (rb_write_pos b) k (rb_capacity b) = Some w"
      "unat w = (unat (rb_write_pos b) + unat k) mod unat (rb_capacity b)"
    using advance_Some [OF c, of k "rb_write_pos b"] assms(3) inv by auto
  have cnt: "unat (rb_count b + k) = unat (rb_count b) + unat k"
    using assms(3) c by (simp add: unat_word_ariths)
  have "\<not> rb_capacity b - rb_count b < k"
    using assms(3) inv by (simp add: unat_order unat_sub)
  moreover have "rb_capacity b \<noteq> 0" using c by auto
  moreover define b1 where "b1 = b\<lparr>rb_write_pos := w, rb_count := rb_count b + k\<rparr>"
  moreover define b' where "b' = (if rb_count b1 = rb_capacity b1
                          then b1\<lparr>rb_state := VR_CONN_RING_BUF_FULL\<rparr> else b1)"
  ultimately have p: "vr_conn_ring_buf_commit b k = Some (VR_SUCCESS, b')"
    using False w(1) by (simp add: vr_conn_ring_buf_commit_def)
  have "ring_inv b'"
    using inv assms(2,3) cnt w(2) by (auto simp: ring_inv_def b'_def b1_def mod_simps add.assoc)
  moreover have "ring_contents b1 = ring_contents b @ cyc d (unat (rb_write_pos b)) (unat k)"
    using inv assms(2) cnt cyc_mod [of d "unat (rb_read_pos b) + unat (rb_count b)" "unat k"]
    by (simp add: ring_contents_def b1_def cyc_append)
  moreover have "ring_contents b' = ring_contents b1"
    by (simp add: ring_contents_def b'_def split: option.split)
  ultimately show ?thesis using that p w(2) assms(2) by (simp add: b'_def b1_def)
qed

text \<open>Writing into the free span leaves the queue as it was.\<close>

lemma write_span:
  assumes "ring_inv b" "rb_data b = Some d"
    and "unat (rb_count b) + length ys \<le> unat (rb_capacity b)"
    and "unat (rb_write_pos b) + length ys \<le> unat (rb_capacity b)"
  shows "mem_write (rb_data b) (unat (rb_write_pos b)) ys = Some (overwrite d (unat (rb_write_pos b)) ys)"
    and "ring_inv (b\<lparr>rb_data := Some (overwrite d (unat (rb_write_pos b)) ys)\<rparr>)"
    and "ring_contents (b\<lparr>rb_data := Some (overwrite d (unat (rb_write_pos b)) ys)\<rparr>) = ring_contents b"
proof -
  note inv = assms(1)[unfolded ring_inv_live [OF assms(2)]]
  show "mem_write (rb_data b) (unat (rb_write_pos b)) ys = Some (overwrite d (unat (rb_write_pos b)) ys)"
    using inv assms(2,4) by (simp add: block_simps)
  show "ring_inv (b\<lparr>rb_data := Some (overwrite d (unat (rb_write_pos b)) ys)\<rparr>)"
    using inv assms(4) by (simp add: ring_inv_def)
  show "ring_contents (b\<lparr>rb_data := Some (overwrite d (unat (rb_write_pos b)) ys)\<rparr>) = ring_contents b"
    using inv assms cyc_overwrite_other [of "unat (rb_read_pos b)" d "unat (rb_count b)" ys]
    by (simp add: ring_contents_def)
qed

section \<open>Growing\<close>

lemma grow_copy_front:
  assumes "ring_inv b" "rb_data b = Some d" "unat (rb_capacity b) \<le> length new"
  obtains e where "grow_copy b new = Some e" "length e = length new"
    "take (unat (rb_count b)) e = ring_contents b"
proof -
  note inv = assms(1)[unfolded ring_inv_live [OF assms(2)]]
  let ?c = "unat (rb_capacity b)" and ?r = "unat (rb_read_pos b)" and ?n = "unat (rb_count b)"
  let ?fc = "rb_capacity b - ucast (rb_read_pos b)"
  have fc: "unat ?fc = ?c - ?r" using inv by (simp add: unat_sub unat_order)
  have con: "ring_contents b = cyc d ?r ?n" using assms(2) by (rule ring_contents_live)
  consider (empty) "?n = 0" | (one) "0 < ?n" "?r + ?n < ?c" | (two) "0 < ?n" "?c \<le> ?r + ?n"
    by linarith
  then show ?thesis
  proof cases
    case empty
    then show ?thesis using that [of new] con by (simp add: grow_copy_def unat_order)
  next
    case one
    then have "grow_copy b new = Some (overwrite new 0 (take ?n (drop ?r d)))"
      using inv assms by (simp add: grow_copy_def unat_order block_simps)
    moreover have "take ?n (drop ?r d) = ring_contents b"
      using one inv con by (simp add: cyc_contiguous)
    ultimately show ?thesis
      using that [of "overwrite new 0 (ring_contents b)"] inv assms con by (simp add: overwrite_def)
  next
    case two
    have "?r + ?n - ?c < ?c" using inv by linarith
    then have w: "unat (rb_write_pos b) = ?r + ?n - ?c" using two inv by (simp add: le_mod_geq)
    then have nlt: "\<not> rb_read_pos b < rb_write_pos b" using inv by (simp only: unat_order) linarith
    define k where "k = ?c - ?r"
    define m where "m = ?n - k"
    have k: "k \<le> ?n" "k + m = ?n" "m \<le> length d" "?r + k = length d" "?n \<le> length new"
      using two inv assms(3) by (auto simp: k_def m_def)
    have fck: "unat ?fc = k" using fc by (simp add: k_def)
    then have rest: "unat (rb_count b - ?fc) = m"
      using k(1) by (simp add: unat_sub unat_order m_def)
    have con': "ring_contents b = drop ?r d @ take m d"
      using con cyc_wrapped [of ?r d ?n] two inv by (simp add: k_def m_def)
    have xs: "take k (drop ?r d) = drop ?r d" "length (drop ?r d) = k" using k(4) by auto
    let ?e = "overwrite (overwrite new 0 (drop ?r d)) k (take m d)"
    have "grow_copy b new = Some ?e"
      using nlt two(1) fck rest assms(2) k xs
      by (simp add: grow_copy_def unat_order block_simps)
    moreover have "length ?e = length new" using k xs(2) by simp
    moreover have "take ?n ?e = ring_contents b"
    proof -
      have "length (take m d) = m" using k(3) by simp
      then show ?thesis
        using take_overwrite_twice [of "drop ?r d" "take m d" new] k(2,5) con' by (simp only: xs(2))
    qed
    ultimately show ?thesis by (rule that)
  qed
qed

lemma grow_spec:
  assumes "ring_inv b"
  obtains r b' s' where "vr_conn_ring_buf_grow b s = Some (r, b', s')" "ring_inv b'"
    "ring_contents b' = ring_contents b"
    "r = VR_ERROR \<and> b' = b \<or> r = VR_SUCCESS \<and> unat (rb_capacity b) < unat (rb_capacity b')"
    "blocks s' = blocks s + of_bool (b = ring_zero \<and> b' \<noteq> ring_zero)" "heap_frame s s'"
    "\<forall>n. plenty (Suc n) s \<longrightarrow> plenty n s' \<and> (unat (rb_capacity b) < 65536 \<longrightarrow> r = VR_SUCCESS)"
proof (cases rule: ring_inv_cases [OF assms])
  case 1
  obtain r b' s' where i: "vr_conn_ring_buf_init b s = (r, b', s')" "ring_inv b'"
      "ring_contents b' = ring_contents b"
      "r = VR_ERROR \<and> b' = b \<or> r = VR_SUCCESS \<and> b = ring_zero \<and> unat (rb_capacity b') = 4096"
      "blocks s' = blocks s + of_bool (r = VR_SUCCESS)" "heap_frame s s'"
      "\<forall>n. plenty (Suc n) s \<longrightarrow> plenty n s' \<and> (b = ring_zero \<longrightarrow> r = VR_SUCCESS)"
    by (rule init_spec [OF assms])
  have z: "rb_capacity b = 0" using 1 by (simp add: ring_zero_def)
  then have "vr_conn_ring_buf_grow b s = Some (r, b', s')" using i(1) by (simp add: vr_conn_ring_buf_grow_def)
  moreover have "r = VR_SUCCESS \<longleftrightarrow> b' \<noteq> ring_zero" using i(4) 1 by (auto simp: ring_zero_def)
  ultimately show ?thesis using that [of r b' s'] i(2-7) z 1 by (simp only:) auto
next
  case (2 d)
  have nz: "rb_capacity b \<noteq> 0" "b \<noteq> ring_zero" using 2(1,3) live_not_zero by auto
  show ?thesis
  proof (cases "unat (rb_capacity b) = 65536")
    case True
    then have "vr_conn_ring_buf_grow b s = Some (VR_ERROR, b, s\<lparr>errno := ENOMEM\<rparr>)"
      using nz by (simp add: vr_conn_ring_buf_grow_def c_defs unat_order)
    then show ?thesis using that [of VR_ERROR b "s\<lparr>errno := ENOMEM\<rparr>"] assms True nz plenty_Suc
      by simp
  next
    case False
    then have c: "unat (rb_capacity b) < 65536" using 2 by simp
    let ?g = "grown_capacity (rb_capacity b)"
    have g: "unat ?g = min (2 * unat (rb_capacity b)) 65536" using c by (rule unat_grown_capacity)
    have nmax: "\<not> VR_CONNECTION_BUFFER_MAX_SIZE \<le> rb_capacity b"
      using c by (simp add: c_defs unat_order)
    show ?thesis
    proof (cases rule: malloc_bytes_cases [of "unat ?g" s])
      case (null s')
      then show ?thesis using that [of VR_ERROR b s'] assms nz nmax
        by (simp add: vr_conn_ring_buf_grow_def)
    next
      case (block new s')
      obtain e where e: "grow_copy b new = Some e" "length e = length new"
          "take (unat (rb_count b)) e = ring_contents b"
        using grow_copy_front [OF assms 2(1), of new] block(2) g 2(4) by auto
      let ?b' = "b\<lparr>rb_data := Some e, rb_capacity := ?g, rb_read_pos := 0,
                   rb_write_pos := ucast (rb_count b), rb_state := VR_CONN_RING_BUF_ACTIVE\<rparr>"
      have p: "vr_conn_ring_buf_grow b s = Some (VR_SUCCESS, ?b', c_free (rb_data b) s')"
        using block(1) e(1) nz nmax by (simp add: vr_conn_ring_buf_grow_def)
      have "unat (rb_count b) < unat ?g" using g c 2(3,5) by simp
      then have "ring_inv ?b'" "ring_contents ?b' = ring_contents b"
        using e(2,3) block(2) g c 2(3,5)
        by (simp_all add: ring_inv_def ring_contents_def unat_ucast_32_16 cyc_contiguous)
      moreover have "?b' \<noteq> ring_zero" by (rule live_not_zero) simp
      ultimately show ?thesis
        using that [OF p] block(3-5) g c nz(2) 2(1,3) heap_frame_trans [of s s' "c_free (rb_data b) s'"]
        by (simp add: blocks_free)
    qed
  qed
qed

lemma reserve_loop_spec:
  assumes "ring_inv b" "b \<noteq> ring_zero"
  shows "\<exists>r b' s'. reserve_loop b needed s = Some (r, b', s') \<and> ring_inv b' \<and> b' \<noteq> ring_zero
    \<and> ring_contents b' = ring_contents b
    \<and> unat (rb_capacity b) \<le> unat (rb_capacity b')
    \<and> (r = VR_SUCCESS \<and> length (ring_contents b) + unat needed \<le> unat (rb_capacity b') \<or> r = VR_ERROR)
    \<and> blocks s' = blocks s \<and> heap_frame s s'"
  using assms
proof (induction b needed s rule: reserve_loop.induct)
  case (1 b needed s)
  have fr: "unat (vr_conn_ring_buf_free b) = unat (rb_capacity b) - length (ring_contents b)"
    using "1.prems"(1) by (rule unat_ring_free)
  have le: "length (ring_contents b) \<le> unat (rb_capacity b)"
    using "1.prems"(1) by (simp add: length_ring_contents ring_count_le)
  show ?case
  proof (cases "vr_conn_ring_buf_free b < needed")
    case False
    then show ?thesis using "1.prems" fr le
      by (subst reserve_loop.simps) (simp add: unat_order)
  next
    case True
    obtain r b' s' where g: "vr_conn_ring_buf_grow b s = Some (r, b', s')" "ring_inv b'"
        "ring_contents b' = ring_contents b"
        "r = VR_ERROR \<and> b' = b \<or> r = VR_SUCCESS \<and> unat (rb_capacity b) < unat (rb_capacity b')"
        "blocks s' = blocks s" "heap_frame s s'"
      using "1.prems"(2) by (rule_tac grow_spec [OF "1.prems"(1), of s]) simp
    show ?thesis
    proof (cases "r = VR_ERROR")
      case err: True
      then show ?thesis using True g "1.prems" by (subst reserve_loop.simps) auto
    next
      case ok: False
      then have cap: "unat (rb_capacity b) < unat (rb_capacity b')" using g(4) by simp
      then have nz: "b' \<noteq> ring_zero" by (auto simp: ring_zero_def)
      from "1.IH" [OF True g(1) refl refl ok g(2) nz]
      obtain r2 b2 s2 where h: "reserve_loop b' needed s' = Some (r2, b2, s2)" "ring_inv b2" "b2 \<noteq> ring_zero"
          "ring_contents b2 = ring_contents b'" "unat (rb_capacity b') \<le> unat (rb_capacity b2)"
          "r2 = VR_SUCCESS \<and> length (ring_contents b') + unat needed \<le> unat (rb_capacity b2) \<or> r2 = VR_ERROR"
          "blocks s2 = blocks s'" "heap_frame s' s2"
        by blast
      have "reserve_loop b needed s = Some (r2, b2, s2)"
        using True g(1) ok h(1) by (subst reserve_loop.simps) simp
      then show ?thesis using h g(3,5) cap heap_frame_trans [OF g(6) h(8)] by simp
    qed
  qed
qed

lemma reserve_spec:
  assumes "ring_inv b"
  obtains r b' s' where "vr_conn_ring_buf_reserve b needed s = Some (r, b', s')" "ring_inv b'"
    "ring_contents b' = ring_contents b" "heap_frame s s'"
    "unat (rb_capacity b) \<le> unat (rb_capacity b')"
    "r = VR_SUCCESS \<and> b' \<noteq> ring_zero \<and>
       length (ring_contents b) + unat needed \<le> unat (rb_capacity b') \<or> r = VR_ERROR"
    "blocks s' = blocks s + of_bool (b = ring_zero \<and> b' \<noteq> ring_zero)"
proof (cases "b = ring_zero")
  case False
  then have nz: "rb_capacity b \<noteq> 0" using ring_capacity_zero_iff [OF assms] by simp
  from reserve_loop_spec [OF assms False, of needed s] obtain r b' s' where
    h: "reserve_loop b needed s = Some (r, b', s')" "ring_inv b'" "b' \<noteq> ring_zero"
      "ring_contents b' = ring_contents b" "unat (rb_capacity b) \<le> unat (rb_capacity b')"
      "r = VR_SUCCESS \<and> length (ring_contents b) + unat needed \<le> unat (rb_capacity b') \<or> r = VR_ERROR"
      "blocks s' = blocks s" "heap_frame s s'" by blast
  have "vr_conn_ring_buf_reserve b needed s = Some (r, b', s')"
    using nz h(1) by (simp add: vr_conn_ring_buf_reserve_def)
  then show ?thesis by (rule that) (use h False in simp_all)
next
  case True
  obtain r1 b1 s1 where i: "vr_conn_ring_buf_init b s = (r1, b1, s1)" "ring_inv b1"
      "ring_contents b1 = ring_contents b"
      "r1 = VR_ERROR \<and> b1 = b \<or> r1 = VR_SUCCESS \<and> b = ring_zero \<and> unat (rb_capacity b1) = 4096"
      "blocks s1 = blocks s + of_bool (r1 = VR_SUCCESS)" "heap_frame s s1"
    by (rule init_spec [OF assms])
  have z: "rb_capacity b = 0" using True by (simp add: ring_zero_def)
  show ?thesis
  proof (cases "r1 = VR_ERROR")
    case err: True
    then have "vr_conn_ring_buf_reserve b needed s = Some (VR_ERROR, b, s1)"
      using i(1,4) z by (auto simp: vr_conn_ring_buf_reserve_def)
    then show ?thesis by (rule that) (use i err True in simp_all)
  next
    case ok: False
    then have ok': "r1 = VR_SUCCESS" "unat (rb_capacity b1) = 4096" using i(4) by auto
    then have b1: "b1 \<noteq> ring_zero" by (auto simp: ring_zero_def)
    from reserve_loop_spec [OF i(2) b1, of needed s1] obtain r b' s' where
      h: "reserve_loop b1 needed s1 = Some (r, b', s')" "ring_inv b'" "b' \<noteq> ring_zero"
        "ring_contents b' = ring_contents b1"
        "r = VR_SUCCESS \<and> length (ring_contents b1) + unat needed \<le> unat (rb_capacity b') \<or> r = VR_ERROR"
        "blocks s' = blocks s1" "heap_frame s1 s'" by blast
    have "vr_conn_ring_buf_reserve b needed s = Some (r, b', s')"
      using z i(1) ok'(1) h(1) by (simp add: vr_conn_ring_buf_reserve_def)
    then show ?thesis
      by (rule that) (use h i(3,5) ok' True z heap_frame_trans [OF i(6) h(7)] in simp_all)
  qed
qed

text \<open>With enough memory the growth loop stops only when the bytes fit.\<close>

lemma reserve_loop_succeeds:
  assumes "ring_inv b" "b \<noteq> ring_zero" "plenty n s" "65536 \<le> unat (rb_capacity b) * 2 ^ n"
    and "length (ring_contents b) + unat needed \<le> 65536"
  shows "\<exists>b' s'. reserve_loop b needed s = Some (VR_SUCCESS, b', s')"
  using assms
proof (induction n arbitrary: b s)
  case 0
  then have "unat (rb_capacity b) = 65536" using ring_capacity_le [OF "0"(1)] by simp
  then have "\<not> vr_conn_ring_buf_free b < needed"
    using unat_ring_free [OF "0"(1)] "0"(5) by (simp add: unat_order)
  then show ?case by (subst reserve_loop.simps) simp
next
  case (Suc n)
  show ?case
  proof (cases "vr_conn_ring_buf_free b < needed")
    case False
    then show ?thesis by (subst reserve_loop.simps) simp
  next
    case True
    then have lt: "unat (rb_capacity b) < 65536"
      using unat_ring_free [OF Suc.prems(1)] Suc.prems(5) ring_capacity_le [OF Suc.prems(1)]
      by (simp add: unat_order)
    obtain r b' s' where g: "vr_conn_ring_buf_grow b s = Some (r, b', s')" "ring_inv b'"
        "ring_contents b' = ring_contents b"
        "r = VR_ERROR \<and> b' = b \<or> r = VR_SUCCESS \<and> unat (rb_capacity b) < unat (rb_capacity b')"
        "\<forall>n. plenty (Suc n) s \<longrightarrow> plenty n s' \<and> (unat (rb_capacity b) < 65536 \<longrightarrow> r = VR_SUCCESS)"
      by (rule grow_spec [OF Suc.prems(1)])
    have ok: "r = VR_SUCCESS" "plenty n s'" using g(5) Suc.prems(3) lt by auto
    have nz: "rb_capacity b \<noteq> 0" using ring_capacity_zero_iff Suc.prems(1,2) by blast
    have "rb_capacity b' = grown_capacity (rb_capacity b)"
      using g(1) ok(1) nz
      by (auto simp: vr_conn_ring_buf_grow_def split: if_splits prod.splits option.splits bind_splits)
    then have "unat (rb_capacity b') = min (2 * unat (rb_capacity b)) 65536"
      using unat_grown_capacity [OF lt] by simp
    then have "65536 \<le> unat (rb_capacity b') * 2 ^ n" using Suc.prems(4) by (auto simp: min_def)
    moreover have "b' \<noteq> ring_zero" using g(4) ok(1) by (auto simp: ring_zero_def)
    ultimately have "\<exists>b2 s2. reserve_loop b' needed s' = Some (VR_SUCCESS, b2, s2)"
      using Suc.IH [OF g(2) _ ok(2)] g(3) Suc.prems(5) by simp
    then show ?thesis using True g(1) ok(1) by (subst reserve_loop.simps) auto
  qed
qed

lemma reserve_fits:
  assumes "ring_inv b" "plenty 17 s"
  shows "(\<exists>b' s'. vr_conn_ring_buf_reserve b needed s = Some (VR_SUCCESS, b', s')) \<longleftrightarrow>
    length (ring_contents b) + unat needed \<le> 65536"
proof
  assume "\<exists>b' s'. vr_conn_ring_buf_reserve b needed s = Some (VR_SUCCESS, b', s')"
  then show "length (ring_contents b) + unat needed \<le> 65536"
    using ring_capacity_le by (rule_tac reserve_spec [OF assms(1), of needed s]) fastforce
next
  assume fits: "length (ring_contents b) + unat needed \<le> 65536"
  show "\<exists>b' s'. vr_conn_ring_buf_reserve b needed s = Some (VR_SUCCESS, b', s')"
  proof (cases "b = ring_zero")
    case True
    obtain r b1 s1 where i: "vr_conn_ring_buf_init b s = (r, b1, s1)" "ring_inv b1"
        "ring_contents b1 = ring_contents b"
        "r = VR_ERROR \<and> b1 = b \<or> r = VR_SUCCESS \<and> b = ring_zero \<and> unat (rb_capacity b1) = 4096"
        "\<forall>n. plenty (Suc n) s \<longrightarrow> plenty n s1 \<and> (b = ring_zero \<longrightarrow> r = VR_SUCCESS)"
      by (rule init_spec [OF assms(1)])
    have p: "plenty 16 s1" "r = VR_SUCCESS" using i(5) assms(2) True by (auto simp: eval_nat_numeral)
    then have "unat (rb_capacity b1) = 4096" using i(4) by simp
    then have "b1 \<noteq> ring_zero" "65536 \<le> unat (rb_capacity b1) * 2 ^ 16" by auto
    from reserve_loop_succeeds [OF i(2) this(1) p(1) this(2)] fits i(3)
    show ?thesis using i(1) p(2) True by (simp add: vr_conn_ring_buf_reserve_def)
  next
    case False
    then have nz: "rb_capacity b \<noteq> 0" using ring_capacity_zero_iff [OF assms(1)] by simp
    then have "1 \<le> unat (rb_capacity b)" by (simp add: unat_gt_0 Suc_le_eq)
    then have "65536 \<le> unat (rb_capacity b) * 2 ^ 16" by simp
    moreover have "plenty 16 s" using assms(2) by (rule plenty_mono) simp
    ultimately show ?thesis
      using reserve_loop_succeeds [OF assms(1) False _ _ fits] nz
      by (simp add: vr_conn_ring_buf_reserve_def)
  qed
qed

section \<open>The reader's interface\<close>

text \<open>
  What a consumer of a byte buffer relies on: the size, the span that can be read in place, the
  copy across the wrap, and the advance. \<open>fetch\<close> is the use every consumer makes of it: take
  \<open>n\<close> bytes in place when the span holds them, by \<open>peek\<close> otherwise, then skip them.
\<close>

locale byte_reader =
  fixes inv :: "'r \<Rightarrow> bool"
    and contents :: "'r \<Rightarrow> bytes"
    and block :: "'r \<Rightarrow> bytes option"
    and size_of :: "'r \<Rightarrow> uint32"
    and span :: "'r \<Rightarrow> nat option \<Rightarrow> uint32 \<times> nat option"
    and peek :: "'r \<Rightarrow> uint32 \<Rightarrow> (vr_result_t \<times> bytes) option"
    and skip :: "'r \<Rightarrow> uint32 \<Rightarrow> (vr_result_t \<times> 'r) option"
  assumes size_law: "inv b \<Longrightarrow> unat (size_of b) = length (contents b)"
    and span_law: "inv b \<Longrightarrow> contents b \<noteq> [] \<Longrightarrow> span b p = (m, q) \<Longrightarrow>
      0 < unat m \<and> unat m \<le> length (contents b) \<and>
      (\<exists>off. q = Some off \<and>
        (\<forall>k\<le>unat m. mem_read (block b) off k = Some (take k (contents b))))"
    and peek_law: "inv b \<Longrightarrow> unat n \<le> length (contents b) \<Longrightarrow>
      peek b n = Some (VR_SUCCESS, take (unat n) (contents b))"
    and skip_law: "inv b \<Longrightarrow> contents b \<noteq> [] \<Longrightarrow> unat n \<le> length (contents b) \<Longrightarrow>
      \<exists>b'. skip b n = Some (VR_SUCCESS, b') \<and> inv b' \<and> contents b' = drop (unat n) (contents b)"
begin

lemma fetch_span:
  assumes "inv b" "0 < unat n" "unat n \<le> length (contents b)" "span b p = (m, q)" "n \<le> m"
  obtains off where "q = Some off" "mem_read (block b) off (unat n) = Some (take (unat n) (contents b))"
proof -
  have "contents b \<noteq> []" using assms(2,3) by auto
  then show ?thesis using span_law [OF assms(1) _ assms(4)] assms(5) that by (auto simp: unat_order)
qed

lemma fetch_skip:
  assumes "inv b" "0 < unat n" "unat n \<le> length (contents b)"
  obtains b' where "skip b n = Some (VR_SUCCESS, b')" "inv b'"
    "contents b' = drop (unat n) (contents b)"
  using skip_law [OF assms(1) _ assms(3)] assms(2,3) that by force

end

interpretation ring_reader: byte_reader ring_inv ring_contents rb_data vr_conn_ring_buf_size
  vr_conn_ring_buf_contiguous_read vr_conn_ring_buf_peek_n vr_conn_ring_buf_consume
proof
  fix b :: vr_connection_ring_buf_t and p :: "nat option" and m q and n :: uint32
  assume inv: "ring_inv b"
  show "unat (vr_conn_ring_buf_size b) = length (ring_contents b)"
    using inv by (simp add: vr_conn_ring_buf_size_def length_ring_contents)
  show "vr_conn_ring_buf_peek_n b n = Some (VR_SUCCESS, take (unat n) (ring_contents b))"
    if "unat n \<le> length (ring_contents b)"
    using inv that by (rule peek_n_ok)
  show "\<exists>b'. vr_conn_ring_buf_consume b n = Some (VR_SUCCESS, b') \<and> ring_inv b' \<and>
      ring_contents b' = drop (unat n) (ring_contents b)"
    if "ring_contents b \<noteq> []" "unat n \<le> length (ring_contents b)"
    using that inv by (auto intro: consume_ok [OF inv])
  show "0 < unat m \<and> unat m \<le> length (ring_contents b) \<and>
      (\<exists>off. q = Some off \<and> (\<forall>k\<le>unat m. mem_read (rb_data b) off k = Some (take k (ring_contents b))))"
    if "ring_contents b \<noteq> []" "vr_conn_ring_buf_contiguous_read b p = (m, q)"
    using that(2) by (rule_tac contiguous_read_span [OF inv that(1), of p]) auto
qed

section \<open>The writer's interface\<close>

text \<open>
  What a producer relies on: room is reserved first, the free span at the write position is
  filled in place, and a commit makes the filled bytes part of the queue. \<open>with_block\<close> is the
  buffer after the caller has written through the span's pointer.
\<close>

locale byte_writer =
  fixes inv :: "'r \<Rightarrow> bool"
    and contents :: "'r \<Rightarrow> bytes"
    and block :: "'r \<Rightarrow> bytes option"
    and with_block :: "'r \<Rightarrow> bytes \<Rightarrow> 'r"
    and capacity :: "'r \<Rightarrow> nat"
    and room :: "'r \<Rightarrow> nat option \<Rightarrow> uint32 \<times> nat option"
    and commit :: "'r \<Rightarrow> uint32 \<Rightarrow> (vr_result_t \<times> 'r) option"
  assumes room_law: "inv b \<Longrightarrow> length (contents b) < capacity b \<Longrightarrow> room b p = (m, q) \<Longrightarrow>
      0 < unat m \<and> length (contents b) + unat m \<le> capacity b \<and>
      (\<exists>off d. q = Some off \<and> block b = Some d \<and> off + unat m \<le> length d)"
    and write_law: "inv b \<Longrightarrow> length (contents b) < capacity b \<Longrightarrow> room b p = (m, Some off) \<Longrightarrow>
      block b = Some d \<Longrightarrow> length ys \<le> unat m \<Longrightarrow>
      inv (with_block b (overwrite d off ys)) \<and>
      contents (with_block b (overwrite d off ys)) = contents b \<and>
      capacity (with_block b (overwrite d off ys)) = capacity b \<and>
      block (with_block b (overwrite d off ys)) = Some (overwrite d off ys) \<and>
      room (with_block b (overwrite d off ys)) p = (m, Some off)"
    and commit_law: "inv b \<Longrightarrow> length (contents b) < capacity b \<Longrightarrow> room b p = (m, Some off) \<Longrightarrow>
      block b = Some d \<Longrightarrow> unat k \<le> unat m \<Longrightarrow>
      \<exists>b'. commit b k = Some (VR_SUCCESS, b') \<and> inv b' \<and> capacity b' = capacity b \<and>
        contents b' = contents b @ take (unat k) (drop off d)"
    and wrap_law: "inv b \<Longrightarrow> length (contents b) < capacity b \<Longrightarrow> room b p = (m, Some off) \<Longrightarrow>
      commit b m = Some (VR_SUCCESS, b') \<Longrightarrow> length (contents b') < capacity b' \<Longrightarrow>
      unat (fst (room b' p')) = capacity b' - length (contents b')"
begin

text \<open>Bytes \<open>ys\<close> written at the span and \<open>k\<close> bytes committed: the written bytes, followed by what
  the block held behind them when \<open>k\<close> is more than was written.\<close>

lemma fill_commit:
  assumes "inv b" "length (contents b) < capacity b" "room b p = (m, q)"
    and "length ys \<le> unat k" "k \<le> m"
  obtains off d b' where "q = Some off" "block b = Some d"
    "mem_write (block b) off ys = Some (overwrite d off ys)"
    "commit (with_block b (overwrite d off ys)) k = Some (VR_SUCCESS, b')" "inv b'"
    "capacity b' = capacity b"
    "contents b' = contents b @ ys @ take (unat k - length ys) (drop (off + length ys) d)"
    "k = m \<Longrightarrow> length (contents b') < capacity b' \<Longrightarrow>
       unat (fst (room b' p)) = capacity b' - length (contents b')"
proof -
  from room_law [OF assms(1-3)] obtain off d where
    h: "q = Some off" "block b = Some d" "off + unat m \<le> length d" by blast
  have le: "unat k \<le> unat m" "off + length ys \<le> length d" "length ys \<le> unat m"
    using h(3) assms(4,5) by (auto simp: unat_order)
  let ?w = "with_block b (overwrite d off ys)"
  have r: "room b p = (m, Some off)" using assms(3) h(1) by simp
  have w: "inv ?w" "contents ?w = contents b" "capacity ?w = capacity b"
      "block ?w = Some (overwrite d off ys)" "room ?w p = (m, Some off)"
    using write_law [OF assms(1,2) r h(2) le(3)] by auto
  have wl: "length (contents ?w) < capacity ?w" using w assms(2) by simp
  obtain b' where c: "commit ?w k = Some (VR_SUCCESS, b')" "inv b'" "capacity b' = capacity ?w"
      "contents b' = contents ?w @ take (unat k) (drop off (overwrite d off ys))"
    using commit_law [OF w(1) wl w(5,4) le(1)] by blast
  have "take (unat k) (drop off (overwrite d off ys)) =
      ys @ take (unat k - length ys) (drop (off + length ys) d)"
    using le(2) assms(4) by (simp add: overwrite_def)
  then have con: "contents b' = contents b @ ys @ take (unat k - length ys) (drop (off + length ys) d)"
    using c(4) w(2) by simp
  have wr: "unat (fst (room b' p)) = capacity b' - length (contents b')"
    if "k = m" "length (contents b') < capacity b'"
    using wrap_law [OF w(1) wl w(5) _ that(2)] c(1) that(1) by simp
  have mw: "mem_write (block b) off ys = Some (overwrite d off ys)"
    using h(2) le(2) by (simp add: block_simps)
  have cap: "capacity b' = capacity b" using c(3) w(3) by simp
  show ?thesis by (rule that [OF h(1,2) mw c(1,2) cap con wr])
qed

end

lemma contiguous_write_data [simp]:
  "vr_conn_ring_buf_contiguous_write (b\<lparr>rb_data := x\<rparr>) p = vr_conn_ring_buf_contiguous_write b p"
  by (simp add: vr_conn_ring_buf_contiguous_write_def Let_def)

interpretation ring_writer: byte_writer ring_inv ring_contents rb_data
  "\<lambda>b d. b\<lparr>rb_data := Some d\<rparr>" "\<lambda>b. unat (rb_capacity b)"
  vr_conn_ring_buf_contiguous_write vr_conn_ring_buf_commit
proof
  fix b b' :: vr_connection_ring_buf_t and p p' q :: "nat option" and m k :: uint32 and off d ys
  assume inv: "ring_inv b" and room: "length (ring_contents b) < unat (rb_capacity b)"
  have cw: "\<exists>n. vr_conn_ring_buf_contiguous_write b p = (n, Some (unat (rb_write_pos b)))
    \<and> 0 < unat n \<and> unat (rb_write_pos b) + unat n \<le> unat (rb_capacity b)
    \<and> length (ring_contents b) + unat n \<le> unat (rb_capacity b)
    \<and> (unat n = unat (rb_capacity b) - length (ring_contents b) \<or>
     unat (rb_write_pos b) + unat n = unat (rb_capacity b))"
    by (rule contiguous_write_span [OF inv room, of p]) blast
  obtain d0 where d0: "rb_data b = Some d0" "length d0 = unat (rb_capacity b)"
    using inv room by (cases rule: ring_inv_cases [OF inv]) (auto simp: ring_zero_def)
  have cnt: "unat (rb_count b) = length (ring_contents b)" using inv by (simp add: length_ring_contents)
  show "0 < unat m \<and> length (ring_contents b) + unat m \<le> unat (rb_capacity b) \<and>
      (\<exists>off d. q = Some off \<and> rb_data b = Some d \<and> off + unat m \<le> length d)"
    if "vr_conn_ring_buf_contiguous_write b p = (m, q)"
    using cw d0 that by auto
  assume r: "vr_conn_ring_buf_contiguous_write b p = (m, Some off)"
  then have off: "off = unat (rb_write_pos b)" "off + unat m \<le> unat (rb_capacity b)"
      "length (ring_contents b) + unat m \<le> unat (rb_capacity b)" using cw by auto
  show "ring_inv (b\<lparr>rb_data := Some (overwrite d off ys)\<rparr>) \<and>
      ring_contents (b\<lparr>rb_data := Some (overwrite d off ys)\<rparr>) = ring_contents b \<and>
      unat (rb_capacity (b\<lparr>rb_data := Some (overwrite d off ys)\<rparr>)) = unat (rb_capacity b) \<and>
      rb_data (b\<lparr>rb_data := Some (overwrite d off ys)\<rparr>) = Some (overwrite d off ys) \<and>
      vr_conn_ring_buf_contiguous_write (b\<lparr>rb_data := Some (overwrite d off ys)\<rparr>) p = (m, Some off)"
    if "rb_data b = Some d" "length ys \<le> unat m"
    using write_span [OF inv that(1), of ys] that off cnt r by simp
  show "\<exists>b'. vr_conn_ring_buf_commit b k = Some (VR_SUCCESS, b') \<and> ring_inv b' \<and>
        unat (rb_capacity b') = unat (rb_capacity b) \<and>
        ring_contents b' = ring_contents b @ take (unat k) (drop off d)"
    if "rb_data b = Some d" "unat k \<le> unat m"
    using that off cnt d0
    by (rule_tac commit_span [OF inv that(1), of k]) (auto simp: cyc_contiguous)
  show "unat (fst (vr_conn_ring_buf_contiguous_write b' p')) =
      unat (rb_capacity b') - length (ring_contents b')"
    if cm: "vr_conn_ring_buf_commit b m = Some (VR_SUCCESS, b')"
      and lt: "length (ring_contents b') < unat (rb_capacity b')"
  proof -
    obtain b2 where b2: "vr_conn_ring_buf_commit b m = Some (VR_SUCCESS, b2)" "ring_inv b2"
      "ring_contents b2 = ring_contents b @ cyc d0 (unat (rb_write_pos b)) (unat m)"
      "rb_capacity b2 = rb_capacity b"
      "unat (rb_write_pos b2) = (unat (rb_write_pos b) + unat m) mod unat (rb_capacity b)"
      using cnt off by (rule_tac commit_span [OF inv d0(1), of m]) auto
    then have eq: "b2 = b'" using cm by simp
    have "unat m \<noteq> unat (rb_capacity b) - length (ring_contents b)"
      using b2(3,4) lt eq by auto
    then have "unat (rb_write_pos b) + unat m = unat (rb_capacity b)" using cw r by auto
    then have w0: "unat (rb_write_pos b') = 0" using b2(5) eq by simp
    show ?thesis
      by (rule contiguous_write_span [OF b2(2)[unfolded eq] lt, of p']) (use w0 lt in auto)
  qed
qed

end
