(* ===== verification/Velora_Ring_Theorems.thy ===== *)
theory Velora_Ring_Theorems
  imports Velora_Ring_Spec
begin

text \<open>
  The properties of the ring buffer, each operation against the byte queue it implements, and the
  invariant over every sequence of calls that starts from a zeroed ring.
\<close>

section \<open>Sample rings\<close>

text \<open>An eight-byte ring whose five live bytes wrap around the end of the block.\<close>

definition sample_ring :: vr_connection_ring_buf_t where
  "sample_ring = \<lparr>rb_data = Some [1, 2, 3, 4, 5, 6, 7, 8], rb_capacity = 8, rb_count = 5,
     rb_read_pos = 6, rb_write_pos = 3, rb_state = VR_CONN_RING_BUF_ACTIVE\<rparr>"

lemma sample_ring_inv: "ring_inv sample_ring"
  by (simp add: ring_inv_def sample_ring_def)

lemma sample_ring_contents: "ring_contents sample_ring = [7, 8, 1, 2, 3]"
  by (simp add: ring_contents_def sample_ring_def cyc_def upt_rec)

section \<open>Properties\<close>

text \<open>C19. \<open>vr_conn_ring_buf_push\<close> is a total enqueue: on every ring that satisfies the invariant it
  returns without undefined behaviour and keeps the invariant; on success the byte is appended, on
  error the queue is unchanged and the ring either has no block (allocation failed) or is full.\<close>

theorem ring_push_enqueues:
  assumes "ring_inv b"
  shows "\<exists>r b' s'. vr_conn_ring_buf_push b x s = Some (r, b', s') \<and> ring_inv b' \<and>
    (r = VR_SUCCESS \<and> ring_contents b' = ring_contents b @ [x] \<or>
     r = VR_ERROR \<and> ring_contents b' = ring_contents b \<and>
       (b' = ring_zero \<or> vr_conn_ring_buf_full b'))"
  by (rule ring_push_total [OF assms])

theorem ring_push_enqueues_witness:
  "ring_inv sample_ring \<and> (\<exists>r b' s'. vr_conn_ring_buf_push sample_ring 9 (sys_with 0) = Some (r, b', s') \<and>
     ring_inv b' \<and> (r = VR_SUCCESS \<and> ring_contents b' = [7, 8, 1, 2, 3, 9] \<or>
       r = VR_ERROR \<and> ring_contents b' = [7, 8, 1, 2, 3] \<and>
         (b' = ring_zero \<or> vr_conn_ring_buf_full b')))"
  using ring_push_enqueues [OF sample_ring_inv, of 9 "sys_with 0"] sample_ring_inv
  by (simp add: sample_ring_contents)

text \<open>\<open>vr_conn_ring_buf_pop\<close> is a total dequeue: it fails on an empty queue and leaves the ring
  alone; otherwise it returns the oldest byte, and the rest of the queue stays in order.\<close>

theorem ring_pop_dequeues:
  assumes "ring_inv b"
  shows "case ring_contents b of
      [] \<Rightarrow> vr_conn_ring_buf_pop b = Some (VR_ERROR, None, b)
    | x # xs \<Rightarrow> (\<exists>b'. vr_conn_ring_buf_pop b = Some (VR_SUCCESS, Some x, b') \<and> ring_inv b' \<and>
        ring_contents b' = xs \<and> vr_conn_ring_buf_peek b = Some (VR_SUCCESS, Some x))"
proof (cases "ring_contents b")
  case Nil
  then have "rb_count b = 0" using length_ring_contents [OF assms] by (simp add: unat_eq_zero)
  then show ?thesis using Nil by (simp add: vr_conn_ring_buf_pop_def)
next
  case (Cons x xs)
  obtain b' where b': "vr_conn_ring_buf_pop b = Some (VR_SUCCESS, Some x, b')" "ring_inv b'"
      "ring_contents b' = xs" by (rule pop_Cons [OF assms Cons])
  then have "vr_conn_ring_buf_peek b = Some (VR_SUCCESS, Some x)"
    by (auto simp: vr_conn_ring_buf_pop_def vr_conn_ring_buf_peek_def split: if_splits bind_splits)
  then show ?thesis using b' Cons by simp
qed

theorem ring_pop_dequeues_witness:
  "\<exists>b'. vr_conn_ring_buf_pop sample_ring = Some (VR_SUCCESS, Some 7, b') \<and> ring_inv b' \<and>
     ring_contents b' = [8, 1, 2, 3] \<and> vr_conn_ring_buf_peek sample_ring = Some (VR_SUCCESS, Some 7)"
  using ring_pop_dequeues [OF sample_ring_inv] by (simp add: sample_ring_contents)

text \<open>C20. Bulk reading: \<open>vr_conn_ring_buf_peek_n\<close> copies the oldest \<open>n\<close> bytes across the wrap and
  \<open>vr_conn_ring_buf_consume\<close> removes exactly them; both refuse more than the queue holds and leave
  the ring as it was.\<close>

theorem ring_peek_consume:
  assumes "ring_inv b" "b \<noteq> ring_zero"
  shows "if unat n \<le> length (ring_contents b)
    then vr_conn_ring_buf_peek_n b n = Some (VR_SUCCESS, take (unat n) (ring_contents b)) \<and>
      (\<exists>b'. vr_conn_ring_buf_consume b n = Some (VR_SUCCESS, b') \<and> ring_inv b' \<and>
        ring_contents b' = drop (unat n) (ring_contents b))
    else vr_conn_ring_buf_peek_n b n = Some (VR_ERROR, []) \<and>
      vr_conn_ring_buf_consume b n = Some (VR_ERROR, b)"
proof (cases "unat n \<le> length (ring_contents b)")
  case True
  show ?thesis
    using peek_n_ok [OF assms(1) True] True by (auto intro: consume_ok [OF assms True])
next
  case False
  then show ?thesis using assms(1) by (simp add: peek_n_too_many consume_too_many)
qed

theorem ring_peek_consume_witness:
  "vr_conn_ring_buf_peek_n sample_ring 3 = Some (VR_SUCCESS, [7, 8, 1]) \<and>
   (\<exists>b'. vr_conn_ring_buf_consume sample_ring 3 = Some (VR_SUCCESS, b') \<and> ring_inv b' \<and>
      ring_contents b' = [2, 3])"
proof -
  have "sample_ring \<noteq> ring_zero" by (simp add: sample_ring_def ring_zero_def)
  from ring_peek_consume [OF sample_ring_inv this, of 3] show ?thesis
    by (simp add: sample_ring_contents)
qed

text \<open>C21. \<open>vr_conn_ring_buf_grow\<close> never loses a byte: it returns without undefined behaviour, keeps
  the queue and the invariant, and either makes the ring larger or reports an error and leaves the
  ring exactly as it was. The only block it keeps is the ring's own.\<close>

theorem ring_grow_preserves:
  assumes "ring_inv b"
  shows "\<exists>r b' s'. vr_conn_ring_buf_grow b s = Some (r, b', s') \<and> ring_inv b' \<and>
    ring_contents b' = ring_contents b \<and>
    (r = VR_ERROR \<and> b' = b \<or>
     r = VR_SUCCESS \<and> unat (rb_capacity b) < unat (rb_capacity b') \<and> unat (rb_capacity b') \<le> 65536) \<and>
    blocks s' - blocks s = of_bool (rb_data b' \<noteq> None) - of_bool (rb_data b \<noteq> None)"
proof -
  obtain r b' s' where g: "vr_conn_ring_buf_grow b s = Some (r, b', s')" "ring_inv b'"
    "ring_contents b' = ring_contents b"
    "r = VR_ERROR \<and> b' = b \<or> r = VR_SUCCESS \<and> unat (rb_capacity b) < unat (rb_capacity b')"
    "blocks s' = blocks s + of_bool (b = ring_zero \<and> b' \<noteq> ring_zero)"
    by (rule grow_spec [OF assms])
  have "unat (rb_capacity ring_zero) = 0" by simp
  then have mono: "b' = ring_zero \<Longrightarrow> b = ring_zero" using g(4) by (metis not_less_zero)
  have "blocks s' - blocks s = of_bool (rb_data b' \<noteq> None) - of_bool (rb_data b \<noteq> None)"
    using g(5) mono
    by (cases "b = ring_zero"; cases "b' = ring_zero")
      (simp_all add: ring_data_None_iff [OF g(2)] ring_data_None_iff [OF assms])
  then show ?thesis using g(1-4) ring_capacity_le [OF g(2)] by blast
qed

theorem ring_grow_preserves_witness:
  "\<exists>r b' s'. vr_conn_ring_buf_grow sample_ring (sys_with 1) = Some (r, b', s') \<and> ring_inv b' \<and>
    ring_contents b' = [7, 8, 1, 2, 3] \<and>
    (r = VR_ERROR \<and> b' = sample_ring \<or>
     r = VR_SUCCESS \<and> 8 < unat (rb_capacity b') \<and> unat (rb_capacity b') \<le> 65536)"
  using ring_grow_preserves [OF sample_ring_inv, of "sys_with 1"]
  by (auto simp: sample_ring_contents) (simp_all add: sample_ring_def)

text \<open>\<open>vr_conn_ring_buf_reserve\<close> terminates without undefined behaviour and never changes the
  queue. On success at least \<open>needed\<close> bytes are free; on error the bytes already queued are all
  still there, although the block may have grown on the way.\<close>

theorem ring_reserve_total:
  assumes "ring_inv b"
  shows "\<exists>r b' s'. vr_conn_ring_buf_reserve b needed s = Some (r, b', s') \<and> ring_inv b' \<and>
    ring_contents b' = ring_contents b \<and>
    (r = VR_SUCCESS \<and> unat needed \<le> unat (vr_conn_ring_buf_free b') \<or> r = VR_ERROR)"
proof -
  obtain r b' s' where h: "vr_conn_ring_buf_reserve b needed s = Some (r, b', s')" "ring_inv b'"
      "ring_contents b' = ring_contents b"
      "r = VR_SUCCESS \<and> b' \<noteq> ring_zero \<and>
       length (ring_contents b) + unat needed \<le> unat (rb_capacity b') \<or> r = VR_ERROR"
    by (rule reserve_spec [OF assms])
  then show ?thesis using unat_ring_free [OF h(2)] by auto
qed

theorem ring_reserve_total_witness:
  "\<exists>r b' s'. vr_conn_ring_buf_reserve sample_ring 20 (sys_with 2) = Some (r, b', s') \<and> ring_inv b' \<and>
    ring_contents b' = [7, 8, 1, 2, 3] \<and>
    (r = VR_SUCCESS \<and> 20 \<le> unat (vr_conn_ring_buf_free b') \<or> r = VR_ERROR)"
  using ring_reserve_total [OF sample_ring_inv, of 20 "sys_with 2"]
  by (simp add: sample_ring_contents)

text \<open>C22. When memory is available (seventeen allocations: one block and at most sixteen doublings of
  it), \<open>vr_conn_ring_buf_reserve\<close> succeeds exactly when the queued bytes and the needed ones fit the
  maximum of 65536 bytes.\<close>

theorem ring_reserve_succeeds_iff:
  assumes "ring_inv b" "plenty 17 s"
  shows "(\<exists>b' s'. vr_conn_ring_buf_reserve b needed s = Some (VR_SUCCESS, b', s')) \<longleftrightarrow>
    length (ring_contents b) + unat needed \<le> 65536"
  by (rule reserve_fits [OF assms])

theorem ring_reserve_succeeds_iff_witness:
  "(\<exists>b' s'. vr_conn_ring_buf_reserve sample_ring 20 (sys_with 17) = Some (VR_SUCCESS, b', s')) \<and>
   \<not> (\<exists>b' s'. vr_conn_ring_buf_reserve sample_ring 65532 (sys_with 17) = Some (VR_SUCCESS, b', s'))"
  using ring_reserve_succeeds_iff [OF sample_ring_inv plenty_sys_with, of 20]
    ring_reserve_succeeds_iff [OF sample_ring_inv plenty_sys_with, of 65532]
  by (simp add: sample_ring_contents)

text \<open>Zero-copy writing: the region that \<open>vr_conn_ring_buf_contiguous_write\<close> hands out is inside
  the block and outside the queued bytes, and committing bytes written there appends exactly them.\<close>

theorem ring_span_write_appends:
  assumes "ring_inv b" "length (ring_contents b) < unat (rb_capacity b)"
    and "vr_conn_ring_buf_contiguous_write b p = (n, q)"
    and "length ys = unat k" "k \<le> n"
  shows "\<exists>off d b'. q = Some off \<and> mem_write (rb_data b) off ys = Some d \<and>
    vr_conn_ring_buf_commit (b\<lparr>rb_data := Some d\<rparr>) k = Some (VR_SUCCESS, b') \<and> ring_inv b' \<and>
    ring_contents b' = ring_contents b @ ys"
  by (rule ring_writer.fill_commit [OF assms(1-3) _ assms(5), of ys]) (use assms(4) in auto)

theorem ring_span_write_appends_witness:
  "\<exists>off d b'. Some (3 :: nat) = Some off \<and> mem_write (rb_data sample_ring) off [10, 11] = Some d \<and>
    vr_conn_ring_buf_commit (sample_ring\<lparr>rb_data := Some d\<rparr>) 2 = Some (VR_SUCCESS, b') \<and> ring_inv b' \<and>
    ring_contents b' = [7, 8, 1, 2, 3, 10, 11]"
proof -
  have "length (ring_contents sample_ring) < unat (rb_capacity sample_ring)"
    by (simp add: sample_ring_contents) (simp add: sample_ring_def)
  moreover have "vr_conn_ring_buf_contiguous_write sample_ring None = (3, Some 3)"
    by (simp add: vr_conn_ring_buf_contiguous_write_def sample_ring_def)
  ultimately show ?thesis
    using ring_span_write_appends [OF sample_ring_inv, of None 3 "Some 3" "[10, 11]" 2]
    by (simp add: sample_ring_contents)
qed

section \<open>Every sequence of calls\<close>

text \<open>One call of the ring's interface, with any arguments and any answers of the allocator. A
  \<open>write\<close> is a caller that fills the span it was handed and commits what it filled.\<close>

inductive ring_step :: "vr_connection_ring_buf_t \<Rightarrow> vr_connection_ring_buf_t \<Rightarrow> bool" where
  step_init: "vr_conn_ring_buf_init b s = (r, b', s') \<Longrightarrow> ring_step b b'"
| step_push: "vr_conn_ring_buf_push b x s = Some (r, b', s') \<Longrightarrow> ring_step b b'"
| step_pop: "vr_conn_ring_buf_pop b = Some (r, x, b') \<Longrightarrow> ring_step b b'"
| step_grow: "vr_conn_ring_buf_grow b s = Some (r, b', s') \<Longrightarrow> ring_step b b'"
| step_consume: "vr_conn_ring_buf_consume b n = Some (r, b') \<Longrightarrow> ring_step b b'"
| step_reserve: "vr_conn_ring_buf_reserve b n s = Some (r, b', s') \<Longrightarrow> ring_step b b'"
| step_write: "vr_conn_ring_buf_contiguous_write b None = (n, Some off) \<Longrightarrow>
    length ys \<le> unat k \<Longrightarrow> k \<le> n \<Longrightarrow> mem_write (rb_data b) off ys = Some d \<Longrightarrow>
    vr_conn_ring_buf_commit (b\<lparr>rb_data := Some d\<rparr>) k = Some (r, b') \<Longrightarrow> ring_step b b'"

inductive ring_reachable :: "vr_connection_ring_buf_t \<Rightarrow> bool" where
  reach_zero: "ring_reachable ring_zero"
| reach_step: "ring_reachable b \<Longrightarrow> ring_step b b' \<Longrightarrow> ring_reachable b'"

definition ring_sizes :: "nat set" where
  "ring_sizes = {0, 4096, 8192, 16384, 32768, 65536}"

lemma init_sizes:
  "vr_conn_ring_buf_init b s = (r, b', s') \<Longrightarrow> unat (rb_capacity b) \<in> ring_sizes \<Longrightarrow>
   unat (rb_capacity b') \<in> ring_sizes"
  by (auto simp: vr_conn_ring_buf_init_def c_defs Let_def ring_sizes_def
      split: prod.splits option.splits if_splits)

lemma push_sizes:
  "vr_conn_ring_buf_push b x s = Some (r, b', s') \<Longrightarrow> unat (rb_capacity b) \<in> ring_sizes \<Longrightarrow>
   unat (rb_capacity b') \<in> ring_sizes"
  by (cases "vr_conn_ring_buf_init b s")
    (auto simp: vr_conn_ring_buf_push_def split: if_splits bind_splits dest: init_sizes)

lemma grow_sizes:
  assumes "vr_conn_ring_buf_grow b s = Some (r, b', s')" "unat (rb_capacity b) \<in> ring_sizes"
  shows "unat (rb_capacity b') \<in> ring_sizes"
proof (cases "rb_capacity b = 0")
  case True
  then show ?thesis using assms init_sizes [of b s r b' s'] by (simp add: vr_conn_ring_buf_grow_def)
next
  case False
  then consider "b' = b" | "unat (rb_capacity b) < 65536" "rb_capacity b' = grown_capacity (rb_capacity b)"
    using assms(1)
    by (auto simp: vr_conn_ring_buf_grow_def c_defs unat_order split: if_splits prod.splits option.splits bind_splits)
  then show ?thesis
  proof cases
    case 2
    then show ?thesis using unat_grown_capacity [OF 2(1)] assms(2) False
      by (auto simp: ring_sizes_def unat_eq_zero)
  qed (use assms(2) in simp)
qed

lemma reserve_loop_sizes:
  "reserve_loop b n s = Some (r, b', s') \<Longrightarrow> unat (rb_capacity b) \<in> ring_sizes \<Longrightarrow>
   unat (rb_capacity b') \<in> ring_sizes"
proof (induction b n s rule: reserve_loop.induct)
  case (1 b n s)
  show ?case
  proof (cases "vr_conn_ring_buf_free b < n")
    case False
    then show ?thesis using "1.prems" by (subst (asm) reserve_loop.simps) simp
  next
    case True
    then obtain r1 b1 s1 where g: "vr_conn_ring_buf_grow b s = Some (r1, b1, s1)"
        "(if r1 = VR_ERROR then Some (VR_ERROR, b1, s1) else reserve_loop b1 n s1) = Some (r, b', s')"
      using "1.prems"(1) by (subst (asm) reserve_loop.simps) (auto split: bind_splits)
    show ?thesis
      using "1.IH" [OF True g(1) refl refl] g grow_sizes [OF g(1) "1.prems"(2)] by (auto split: if_splits)
  qed
qed

lemma reserve_sizes:
  "vr_conn_ring_buf_reserve b n s = Some (r, b', s') \<Longrightarrow> unat (rb_capacity b) \<in> ring_sizes \<Longrightarrow>
   unat (rb_capacity b') \<in> ring_sizes"
  by (cases "vr_conn_ring_buf_init b s")
    (auto simp: vr_conn_ring_buf_reserve_def split: if_splits dest: init_sizes reserve_loop_sizes)

lemma consume_inv:
  assumes "ring_inv b" "vr_conn_ring_buf_consume b n = Some (r, b')"
  shows "ring_inv b' \<and> rb_capacity b' = rb_capacity b"
proof (cases "unat n \<le> length (ring_contents b)")
  case False
  then show ?thesis using assms consume_too_many [of b n] by simp
next
  case True
  have "b \<noteq> ring_zero"
    using assms(2) True by (auto simp: vr_conn_ring_buf_consume_def advance_def unat_eq_zero)
  then show ?thesis using assms by (rule_tac consume_ok [OF assms(1) _ True]) auto
qed

lemma pop_inv:
  assumes "ring_inv b" "vr_conn_ring_buf_pop b = Some (r, x, b')"
  shows "ring_inv b' \<and> rb_capacity b' = rb_capacity b"
proof (cases "ring_contents b")
  case Nil
  then have "rb_count b = 0" using length_ring_contents [OF assms(1)] by (simp add: unat_eq_zero)
  then show ?thesis using assms by (simp add: vr_conn_ring_buf_pop_def)
next
  case (Cons y ys)
  then show ?thesis using assms by (rule_tac pop_Cons [OF assms(1) Cons]) auto
qed

lemma write_inv:
  assumes "ring_inv b" "vr_conn_ring_buf_contiguous_write b p = (n, Some off)"
    "length ys \<le> unat k" "k \<le> n" "mem_write (rb_data b) off ys = Some d"
    "vr_conn_ring_buf_commit (b\<lparr>rb_data := Some d\<rparr>) k = Some (r, b')"
  shows "ring_inv b' \<and> rb_capacity b' = rb_capacity b"
proof (cases "length (ring_contents b) < unat (rb_capacity b)")
  case True
  show ?thesis
    by (rule ring_writer.fill_commit [OF assms(1) True assms(2,3,4)])
      (use assms(5,6) in \<open>auto simp: word_unat_eq_iff\<close>)
next
  case False
  then have "unat (rb_capacity b - rb_count b) = 0"
    using length_ring_contents [OF assms(1)] ring_count_le [OF assms(1)]
    by (simp add: unat_sub unat_order)
  then have "n = 0" using assms(2)
    by (auto simp: vr_conn_ring_buf_contiguous_write_def unat_eq_zero split: if_splits)
  then have "k = 0" "ys = []" using assms(3,4) by (auto simp: unat_order unat_eq_zero)
  then have "rb_data b = Some d" "b' = b\<lparr>rb_data := Some d\<rparr>"
    using assms(5,6)
    by (auto simp: vr_conn_ring_buf_commit_def mem_write_def split: option.splits if_splits)
  then have "b' = b" by (cases b) simp
  then show ?thesis using assms(1) by simp
qed

lemma ring_step_inv:
  assumes "ring_step b b'" "ring_inv b" "unat (rb_capacity b) \<in> ring_sizes"
  shows "ring_inv b' \<and> unat (rb_capacity b') \<in> ring_sizes"
  using assms
proof (cases rule: ring_step.cases)
  case (step_init s r s')
  then have "ring_inv b'" by (rule_tac init_spec [OF assms(2), of s]) simp
  then show ?thesis using init_sizes [OF step_init assms(3)] by simp
next
  case (step_push x s r s')
  from ring_push_total [OF assms(2), of x s] step_push have "ring_inv b'" by auto
  then show ?thesis using push_sizes [OF step_push assms(3)] by simp
next
  case (step_pop r x)
  then show ?thesis using pop_inv [OF assms(2) step_pop] assms(3) by simp
next
  case (step_grow s r s')
  then have "ring_inv b'" by (rule_tac grow_spec [OF assms(2), of s]) simp
  then show ?thesis using grow_sizes [OF step_grow assms(3)] by simp
next
  case (step_consume n r)
  then show ?thesis using consume_inv [OF assms(2) step_consume] assms(3) by simp
next
  case (step_reserve n s r s')
  then have "ring_inv b'" by (rule_tac reserve_spec [OF assms(2), of n s]) simp
  then show ?thesis using reserve_sizes [OF step_reserve assms(3)] by simp
next
  case (step_write n off ys k d r)
  then show ?thesis using write_inv [OF assms(2) step_write] assms(3) by simp
qed

text \<open>C23. Whatever the sequence of calls on a zeroed ring, the invariant holds after it, and the
  capacity is zero or one of the five sizes 4096, 8192, ..., 65536.\<close>

theorem ring_reachable_inv:
  assumes "ring_reachable b"
  shows "ring_inv b \<and> unat (rb_capacity b) \<in> {0, 4096, 8192, 16384, 32768, 65536}"
proof -
  from assms have "ring_inv b \<and> unat (rb_capacity b) \<in> ring_sizes"
  proof (induction rule: ring_reachable.induct)
    case reach_zero
    show ?case by (simp add: ring_sizes_def)
  next
    case (reach_step b b')
    then show ?case using ring_step_inv by blast
  qed
  then show ?thesis by (simp add: ring_sizes_def)
qed

theorem ring_reachable_inv_witness:
  "ring_reachable (ring_zero\<lparr>rb_state := VR_CONN_RING_BUF_UNALLOC\<rparr>) \<and>
   unat (rb_capacity (ring_zero\<lparr>rb_state := VR_CONN_RING_BUF_UNALLOC\<rparr>)) \<in> {0, 4096, 8192, 16384, 32768, 65536}"
proof -
  have "ring_step ring_zero (ring_zero\<lparr>rb_state := VR_CONN_RING_BUF_UNALLOC\<rparr>)"
    by (rule step_push [where s = sys_poor and x = 0])
      (simp add: vr_conn_ring_buf_push_def vr_conn_ring_buf_init_def malloc_bytes_def alloc_def
        sys_poor_def sys_with_def ring_zero_def)
  then have "ring_reachable (ring_zero\<lparr>rb_state := VR_CONN_RING_BUF_UNALLOC\<rparr>)"
    by (rule reach_step [OF reach_zero])
  then show ?thesis using ring_reachable_inv by blast
qed

text \<open>\<open>vr_conn_ring_buf_consume\<close> on a ring that has no block yet passes its guard with a count of
  zero and divides by the zero capacity: undefined behaviour.\<close>

theorem ring_consume_unallocated:
  "vr_conn_ring_buf_consume ring_zero n = (if n = 0 then None else Some (VR_ERROR, ring_zero))"
  by (simp add: vr_conn_ring_buf_consume_def advance_def word_gt_0)

end
