(* ===== verification/Velora_Packet.thy ===== *)
theory Velora_Packet
  imports Velora_Common
begin

text \<open>
  \<open>include/velora/packet.h\<close> and \<open>src/protocol/packet.c\<close>: the packet header, its wire format and the
  size its C structure has in memory.

  \<open>vr_packet_type_t\<close> is an enumeration, so the field \<open>type\<close> is an \<open>unsigned int\<close> that can hold any
  byte read from the wire; it is a 32-bit word here and the enumerators are its named values.
\<close>

section \<open>Data\<close>

type_synonym vr_packet_type_t = uint32

definition VR_MAGIC :: uint16 where "VR_MAGIC = 0x5789"
definition VR_PROTOCOL_VERSION :: uint8 where "VR_PROTOCOL_VERSION = 1"

definition VR_PKT_CONNECT :: vr_packet_type_t where "VR_PKT_CONNECT = 1"
definition VR_PKT_CONNECT_ACK :: vr_packet_type_t where "VR_PKT_CONNECT_ACK = 2"
definition VR_PKT_PING :: vr_packet_type_t where "VR_PKT_PING = 3"
definition VR_PKT_PONG :: vr_packet_type_t where "VR_PKT_PONG = 4"
definition VR_PKT_STREAM_OPEN :: vr_packet_type_t where "VR_PKT_STREAM_OPEN = 5"
definition VR_PKT_STREAM_OPEN_ACK :: vr_packet_type_t where "VR_PKT_STREAM_OPEN_ACK = 6"
definition VR_PKT_STREAM_CLOSE :: vr_packet_type_t where "VR_PKT_STREAM_CLOSE = 7"
definition VR_PKT_PUBLISH :: vr_packet_type_t where "VR_PKT_PUBLISH = 8"
definition VR_PKT_ERROR :: vr_packet_type_t where "VR_PKT_ERROR = 9"

definition VR_FLAG_NONE :: uint8 where "VR_FLAG_NONE = 0"
definition VR_FLAG_COMPRESSED :: uint8 where "VR_FLAG_COMPRESSED = 1"
definition VR_FLAG_ACK_REQ :: uint8 where "VR_FLAG_ACK_REQ = 2"

definition VR_PACKET_VALID_FLAGS :: uint8 where
  "VR_PACKET_VALID_FLAGS = VR_FLAG_COMPRESSED OR VR_FLAG_ACK_REQ"

lemmas packet_consts [c_defs] =
  VR_MAGIC_def VR_PROTOCOL_VERSION_def VR_PKT_CONNECT_def VR_PKT_CONNECT_ACK_def VR_PKT_PING_def
  VR_PKT_PONG_def VR_PKT_STREAM_OPEN_def VR_PKT_STREAM_OPEN_ACK_def VR_PKT_STREAM_CLOSE_def
  VR_PKT_PUBLISH_def VR_PKT_ERROR_def VR_FLAG_NONE_def VR_FLAG_COMPRESSED_def VR_FLAG_ACK_REQ_def
  VR_PACKET_VALID_FLAGS_def

record vr_packet_header_t =
  hdr_magic :: uint16
  hdr_version :: uint8
  hdr_type :: vr_packet_type_t
  hdr_stream_id :: uint8
  hdr_flags :: uint8
  hdr_payload_len :: uint16

record vr_packet_t =
  pkt_header :: vr_packet_header_t
  pkt_payload :: "bytes option"

text \<open>Objects zeroed by \<open>memset\<close>, \<open>calloc\<close> or \<open>= {0}\<close>.\<close>

definition header_zero :: vr_packet_header_t where
  "header_zero = \<lparr>hdr_magic = 0, hdr_version = 0, hdr_type = 0, hdr_stream_id = 0, hdr_flags = 0,
     hdr_payload_len = 0\<rparr>"

text \<open>\<open>vr_packet_view_t\<close>, which no function uses yet.\<close>

record vr_packet_view_t =
  view_payload :: "bytes option"
  view_payload_len :: uint16
  view_type :: vr_packet_type_t
  view_stream_id :: uint8
  view_flags :: uint8
  view_conn_id :: uint64
  view_seq :: uint32
  view_ack :: uint32
  view_recv_window :: uint16

definition packet_zero :: vr_packet_t where
  "packet_zero = \<lparr>pkt_header = header_zero, pkt_payload = None\<rparr>"

section \<open>The size of the header structure\<close>

definition vr_packet_header_layout :: ctype where
  "vr_packet_header_layout = C_struct [(''magic'', C_int 2), (''version'', C_int 1), (''type'', C_int 4),
     (''stream_id'', C_int 1), (''flags'', C_int 1), (''payload_len'', C_int 2)]"

definition sizeof_vr_packet_header_t :: uint32 where
  "sizeof_vr_packet_header_t = of_nat (sizeof vr_packet_header_layout)"

lemma sizeof_header_layout: "sizeof vr_packet_header_layout = 12"
  by (simp add: layout_simps vr_packet_header_layout_def)

lemma sizeof_header [c_defs]: "sizeof_vr_packet_header_t = 12"
  by (simp add: sizeof_vr_packet_header_t_def sizeof_header_layout)

text \<open>The number of bytes the serializer writes for a header.\<close>

definition wire_header_size :: nat where
  "wire_header_size = 8"

section \<open>Encoding\<close>

definition vr_encode_u16 :: "uint16 \<Rightarrow> bytes" where
  "vr_encode_u16 value = [ucast (drop_bit 8 value AND 0xFF), ucast (value AND 0xFF)]"

definition vr_decode_u16 :: "uint8 \<Rightarrow> uint8 \<Rightarrow> uint16" where
  "vr_decode_u16 b0 b1 = push_bit 8 (ucast b0) OR ucast b1"

text \<open>The header's bytes in the order \<open>vr_packet_serialize\<close> writes them; the type is cut to a byte.\<close>

definition header_bytes :: "vr_packet_header_t \<Rightarrow> bytes" where
  "header_bytes h = vr_encode_u16 (hdr_magic h) @
     [hdr_version h, ucast (hdr_type h), hdr_stream_id h, hdr_flags h] @
     vr_encode_u16 (hdr_payload_len h)"

text \<open>The header, then \<open>payload_len\<close> bytes from the payload pointer, written at \<open>buff + off\<close>. A null
  packet is logged and nothing is written.\<close>

definition vr_packet_serialize :: "vr_packet_t option \<Rightarrow> bytes option \<Rightarrow> nat \<Rightarrow> bytes option" where
  "vr_packet_serialize packet buff off = (case packet of
       None \<Rightarrow> buff
     | Some p \<Rightarrow> do {
         buff \<leftarrow> mem_write buff off (header_bytes (pkt_header p));
         if hdr_payload_len (pkt_header p) > 0 then do {
           xs \<leftarrow> mem_read (pkt_payload p) 0 (unat (hdr_payload_len (pkt_header p)));
           mem_write (Some buff) (off + 8) xs
         } else Some buff
       })"

definition vr_packet_header_deserialize :: "bytes option \<Rightarrow> nat \<Rightarrow> vr_packet_header_t option" where
  "vr_packet_header_deserialize data off = do {
     p \<leftarrow> mem_read data off 8;
     Some \<lparr>hdr_magic = vr_decode_u16 (p ! 0) (p ! 1), hdr_version = p ! 2, hdr_type = ucast (p ! 3),
       hdr_stream_id = p ! 4, hdr_flags = p ! 5, hdr_payload_len = vr_decode_u16 (p ! 6) (p ! 7)\<rparr>
   }"

section \<open>Round trips\<close>

lemma length_encode_u16 [simp]: "length (vr_encode_u16 v) = 2"
  by (simp add: vr_encode_u16_def)

lemma length_header_bytes [simp]: "length (header_bytes h) = 8"
  by (simp add: header_bytes_def)

lemma byte_mask: "(0xFF :: uint16) = mask 8"
  by (simp add: mask_eq_exp_minus_1)

lemma decode_encode_u16:
  "vr_decode_u16 (vr_encode_u16 v ! 0) (vr_encode_u16 v ! 1) = v"
  by (rule bit_word_eqI)
    (auto simp: vr_decode_u16_def vr_encode_u16_def byte_mask bit_simps)

lemma no_bit_8 [simp]: "\<not> bit (b :: uint8) (8 + n)"
  using bit_imp_le_length [of b "8 + n"] by auto

lemma encode_decode_u16: "vr_encode_u16 (vr_decode_u16 b0 b1) = [b0, b1]"
  by (auto simp: vr_decode_u16_def vr_encode_u16_def byte_mask bit_simps
      intro!: bit_word_eqI)

lemma nth_header_bytes:
  "header_bytes h ! 0 = vr_encode_u16 (hdr_magic h) ! 0"
  "header_bytes h ! 1 = vr_encode_u16 (hdr_magic h) ! 1"
  "header_bytes h ! 2 = hdr_version h" "header_bytes h ! 3 = ucast (hdr_type h)"
  "header_bytes h ! 4 = hdr_stream_id h" "header_bytes h ! 5 = hdr_flags h"
  "header_bytes h ! 6 = vr_encode_u16 (hdr_payload_len h) ! 0"
  "header_bytes h ! 7 = vr_encode_u16 (hdr_payload_len h) ! 1"
  by (simp_all add: header_bytes_def vr_encode_u16_def)

text \<open>The header that eight wire bytes denote.\<close>

definition header_of :: "bytes \<Rightarrow> vr_packet_header_t" where
  "header_of p = \<lparr>hdr_magic = vr_decode_u16 (p ! 0) (p ! 1), hdr_version = p ! 2,
     hdr_type = ucast (p ! 3), hdr_stream_id = p ! 4, hdr_flags = p ! 5,
     hdr_payload_len = vr_decode_u16 (p ! 6) (p ! 7)\<rparr>"

lemma deserialize_header_of:
  "mem_read data off 8 = Some p \<Longrightarrow> vr_packet_header_deserialize data off = Some (header_of p)"
  by (simp add: vr_packet_header_deserialize_def header_of_def)

lemma header_of_bytes:
  "unat (hdr_type h) < 256 \<Longrightarrow> header_of (header_bytes h) = h"
proof -
  assume "unat (hdr_type h) < 256"
  then have "(ucast (ucast (hdr_type h) :: uint8) :: uint32) = hdr_type h"
    by (simp add: word_unat_eq_iff unsigned_ucast_eq take_bit_eq_mod unat_mod_distrib)
  then show ?thesis
    using decode_encode_u16 [of "hdr_magic h"] decode_encode_u16 [of "hdr_payload_len h"]
    by (simp only: header_of_def nth_header_bytes) simp
qed

lemma header_bytes_of:
  assumes "length p = 8"
  shows "header_bytes (header_of p) = p"
proof -
  have "(ucast (ucast (p ! 3) :: uint32) :: uint8) = p ! 3"
    by (rule bit_word_eqI) (auto simp: bit_simps)
  moreover have "p = [p ! 0, p ! 1, p ! 2, p ! 3, p ! 4, p ! 5, p ! 6, p ! 7]"
    using assms by (auto simp: list_eq_iff_nth_eq less_Suc_eq numeral_eq_Suc)
  ultimately show ?thesis
    by (simp add: header_bytes_def header_of_def encode_decode_u16)
qed

end
