(* ===== verification/Velora_Conn_Types.thy ===== *)
theory Velora_Conn_Types
  imports Velora_Ring_Spec Velora_Packet
begin

text \<open>
  The connection object of \<open>include/velora/conn.h\<close> with the parser state of \<open>parser.h\<close>, the protocol
  state of \<open>protocol.h\<close> and the socket of \<open>net.h\<close>, each structure as a record.
\<close>

datatype vr_parser_state_t = VR_PARSER_HEADER_WAIT | VR_PARSER_PAYLOAD_WAIT

record vr_parser_t =
  ps_state :: vr_parser_state_t
  ps_current_header :: vr_packet_header_t

datatype vr_protocol_state_t =
  VR_PROTO_INIT | VR_PROTO_CONNECTING | VR_PROTO_ESTABILISHED | VR_PROTO_CLOSED

datatype vr_connection_status_t = VR_ACTIVE | VR_CLOSING | VR_CLOSED

datatype vr_connection_type_t = VR_CONN_LISTENER | VR_CONN_CLIENT

record vr_net_conn_t =
  nc_fd :: int
  nc_addr :: sockaddr_in

record vr_connection_t =
  cn_net_conn :: vr_net_conn_t
  cn_status :: vr_connection_status_t
  cn_type :: vr_connection_type_t
  cn_slot :: size_t
  cn_read_buf :: vr_connection_ring_buf_t
  cn_write_buf :: vr_connection_ring_buf_t
  cn_parser :: vr_parser_t
  cn_proto_state :: vr_protocol_state_t
  cn_active_streams :: uint8
  cn_streams_bitmap :: "uint64 list"  \<comment> \<open>four words\<close>

definition sockaddr_zero :: sockaddr_in where
  "sockaddr_zero = \<lparr>sin_family = 0, sin_port = 0, sin_addr = 0\<rparr>"

definition parser_zero :: vr_parser_t where
  "parser_zero = \<lparr>ps_state = VR_PARSER_HEADER_WAIT, ps_current_header = header_zero\<rparr>"

text \<open>A connection object after \<open>memset(conn, 0, sizeof *conn)\<close>: every enumeration is at its first
  value.\<close>

definition connection_zero :: vr_connection_t where
  "connection_zero = \<lparr>cn_net_conn = \<lparr>nc_fd = 0, nc_addr = sockaddr_zero\<rparr>, cn_status = VR_ACTIVE,
     cn_type = VR_CONN_LISTENER, cn_slot = 0, cn_read_buf = ring_zero, cn_write_buf = ring_zero,
     cn_parser = parser_zero, cn_proto_state = VR_PROTO_INIT, cn_active_streams = 0,
     cn_streams_bitmap = [0, 0, 0, 0]\<rparr>"

end
