(* ===== verification/Velora_Parser.thy ===== *)
theory Velora_Parser
  imports Velora_Conn_Types
begin

text \<open>
  \<open>src/protocol/parser.c\<close>: the incremental packet parser. \<open>vr_parser_poll\<close> is called with the parser
  embedded in the connection it reads from, so one connection record stands for both arguments;
  \<open>out\<close> is the caller's packet.
\<close>

section \<open>The parser\<close>

definition header_valid :: "vr_packet_header_t \<Rightarrow> bool" where
  "header_valid h =
     (let validated = True;
          validated = (if hdr_magic h \<noteq> VR_MAGIC then False else validated);
          validated = (if hdr_version h \<noteq> VR_PROTOCOL_VERSION then False else validated);
          validated = (if hdr_type h > VR_PKT_ERROR then False else validated);
          validated = (if hdr_flags h AND NOT VR_PACKET_VALID_FLAGS \<noteq> 0 then False else validated)
      in validated)"

text \<open>The header at the front of the ring: straight from the ring when it lies in one span, through
  a small buffer otherwise. \<open>Some None\<close> is a failed \<open>peek_n\<close>.\<close>

definition parser_read_header :: "vr_connection_ring_buf_t \<Rightarrow> vr_packet_header_t option option" where
  "parser_read_header rb =
     (let (contig_len, contig) = vr_conn_ring_buf_contiguous_read rb None
      in if contig_len \<ge> sizeof_vr_packet_header_t then do {
           off \<leftarrow> contig;
           h \<leftarrow> vr_packet_header_deserialize (rb_data rb) off;
           Some (Some h)
         } else do {
           (r, header_bytes) \<leftarrow> vr_conn_ring_buf_peek_n rb sizeof_vr_packet_header_t;
           if r = VR_ERROR then Some None
           else do {
             h \<leftarrow> vr_packet_header_deserialize (Some header_bytes) 0;
             Some (Some h)
           }
         })"

text \<open>The \<open>VR_PARSER_HEADER_WAIT\<close> block. The first component is the value returned, or \<^term>\<open>None\<close>
  when control goes on to the payload block.\<close>

definition parser_header_wait ::
  "vr_connection_t \<Rightarrow> vr_packet_t \<Rightarrow> (vr_result_t option \<times> vr_connection_t \<times> vr_packet_t) option" where
  "parser_header_wait conn out =
     (if vr_conn_ring_buf_size (cn_read_buf conn) < sizeof_vr_packet_header_t
      then Some (Some VR_EMPTY, conn, out)
      else do {
        ho \<leftarrow> parser_read_header (cn_read_buf conn);
        case ho of
          None \<Rightarrow> Some (Some VR_ERROR, conn, out)
        | Some h \<Rightarrow> do {
            let conn = conn\<lparr>cn_parser := (cn_parser conn)\<lparr>ps_current_header := h\<rparr>\<rparr>;
            (r, rb) \<leftarrow> vr_conn_ring_buf_consume (cn_read_buf conn) sizeof_vr_packet_header_t;
            let conn = conn\<lparr>cn_read_buf := rb\<rparr>;
            if r = VR_ERROR then Some (Some VR_ERROR, conn, out)
            else if header_valid h then
              if hdr_payload_len h = 0 then
                Some (Some VR_SUCCESS, conn\<lparr>cn_parser := parser_zero\<rparr>, out\<lparr>pkt_header := h\<rparr>)
              else
                Some (None, conn\<lparr>cn_parser := (cn_parser conn)\<lparr>ps_state := VR_PARSER_PAYLOAD_WAIT\<rparr>\<rparr>, out)
            else Some (Some VR_ERROR, conn\<lparr>cn_parser := parser_zero\<rparr>, out)
          }
      })"

text \<open>The payload at the front of the ring copied to the new block, in one piece or by \<open>peek_n\<close>.\<close>

definition parser_read_payload ::
  "vr_connection_ring_buf_t \<Rightarrow> uint32 \<Rightarrow> bytes \<Rightarrow> bytes option option" where
  "parser_read_payload rb payload_len block =
     (let (contig_len, contig) = vr_conn_ring_buf_contiguous_read rb None
      in if contig_len \<ge> payload_len then do {
           off \<leftarrow> contig;
           xs \<leftarrow> mem_read (rb_data rb) off (unat payload_len);
           block \<leftarrow> mem_write (Some block) 0 xs;
           Some (Some block)
         } else do {
           (r, xs) \<leftarrow> vr_conn_ring_buf_peek_n rb payload_len;
           if r = VR_ERROR then Some None
           else do {
             block \<leftarrow> mem_write (Some block) 0 xs;
             Some (Some block)
           }
         })"

text \<open>The \<open>VR_PARSER_PAYLOAD_WAIT\<close> block.\<close>

definition parser_payload_wait ::
  "vr_connection_t \<Rightarrow> vr_packet_t \<Rightarrow> sys \<Rightarrow>
     (vr_result_t \<times> vr_connection_t \<times> vr_packet_t \<times> sys) option" where
  "parser_payload_wait conn out s =
     (let h = ps_current_header (cn_parser conn);
          payload_len = ucast (hdr_payload_len h) :: uint32
      in if vr_conn_ring_buf_size (cn_read_buf conn) < payload_len
      then Some (VR_EMPTY, conn, out, s)
      else (case malloc_bytes (unat payload_len) s of
          (None, s) \<Rightarrow> Some (VR_ERROR, conn, out\<lparr>pkt_payload := None\<rparr>, s)
        | (Some block, s) \<Rightarrow> do {
            po \<leftarrow> parser_read_payload (cn_read_buf conn) payload_len block;
            case po of
              None \<Rightarrow> Some (VR_ERROR, conn, out\<lparr>pkt_payload := None\<rparr>, c_free (Some block) s)
            | Some block \<Rightarrow> do {
                (r, rb) \<leftarrow> vr_conn_ring_buf_consume (cn_read_buf conn) payload_len;
                let conn = conn\<lparr>cn_read_buf := rb\<rparr>;
                if r = VR_ERROR
                then Some (VR_ERROR, conn, out\<lparr>pkt_payload := None\<rparr>, c_free (Some block) s)
                else Some (VR_SUCCESS, conn\<lparr>cn_parser := parser_zero\<rparr>,
                       out\<lparr>pkt_payload := Some block, pkt_header := h\<rparr>, s)
              }
          }))"

definition vr_parser_poll ::
  "vr_connection_t \<Rightarrow> vr_packet_t \<Rightarrow> sys \<Rightarrow>
     (vr_result_t \<times> vr_connection_t \<times> vr_packet_t \<times> sys) option" where
  "vr_parser_poll conn out s = do {
     (ret, conn, out) \<leftarrow>
       (if ps_state (cn_parser conn) = VR_PARSER_HEADER_WAIT then parser_header_wait conn out
        else Some (None, conn, out));
     case ret of
       Some r \<Rightarrow> Some (r, conn, out, s)
     | None \<Rightarrow>
         if ps_state (cn_parser conn) = VR_PARSER_PAYLOAD_WAIT then parser_payload_wait conn out s
         else Some (VR_SUCCESS, conn, out, s)
   }"

section \<open>The invariant of a connection object\<close>

text \<open>A parser that waits for a payload has accepted a header that announces one.\<close>

definition parser_inv :: "vr_parser_t \<Rightarrow> bool" where
  "parser_inv p \<longleftrightarrow> (ps_state p = VR_PARSER_PAYLOAD_WAIT \<longrightarrow>
     header_valid (ps_current_header p) \<and> 0 < hdr_payload_len (ps_current_header p))"

definition conn_inv :: "vr_connection_t \<Rightarrow> bool" where
  "conn_inv c \<longleftrightarrow> ring_inv (cn_read_buf c) \<and> ring_inv (cn_write_buf c) \<and> parser_inv (cn_parser c) \<and>
     length (cn_streams_bitmap c) = 4"

lemma parser_inv_zero [simp]: "parser_inv parser_zero"
  by (simp add: parser_inv_def parser_zero_def)

lemma conn_inv_zero [simp]: "conn_inv connection_zero"
  by (simp add: conn_inv_def connection_zero_def)

lemma header_valid_iff:
  "header_valid h \<longleftrightarrow> hdr_magic h = VR_MAGIC \<and> hdr_version h = VR_PROTOCOL_VERSION \<and>
     hdr_type h \<le> VR_PKT_ERROR \<and> hdr_flags h AND NOT VR_PACKET_VALID_FLAGS = 0"
  by (auto simp: header_valid_def Let_def)

end
