(* ===== verification/Velora_Parser_Spec.thy ===== *)
theory Velora_Parser_Spec
  imports Velora_Parser
begin

text \<open>
  The parser against a reference that works on the plain sequence of received bytes: no ring, no
  wrap, no spans. \<open>parse_ref\<close> is one poll of the reference, \<open>parse_run\<close> polls until no further
  packet comes out.
\<close>

section \<open>The reference parser\<close>

definition frame_header_size :: nat where
  "frame_header_size = unat sizeof_vr_packet_header_t"

lemma frame_header_size [simp]: "frame_header_size = 12"
  by (simp add: frame_header_size_def sizeof_header)

definition parse_payload_ref ::
  "vr_packet_header_t \<Rightarrow> bytes \<Rightarrow> vr_packet_t \<Rightarrow> sys \<Rightarrow>
     vr_result_t \<times> vr_parser_t \<times> bytes \<times> vr_packet_t \<times> sys" where
  "parse_payload_ref h bs out s =
     (let n = unat (hdr_payload_len h); p = \<lparr>ps_state = VR_PARSER_PAYLOAD_WAIT, ps_current_header = h\<rparr>
      in if length bs < n then (VR_EMPTY, p, bs, out, s)
         else (case malloc_bytes n s of
             (None, s') \<Rightarrow> (VR_ERROR, p, bs, out\<lparr>pkt_payload := None\<rparr>, s')
           | (Some _, s') \<Rightarrow> (VR_SUCCESS, parser_zero, drop n bs,
               out\<lparr>pkt_header := h, pkt_payload := Some (take n bs)\<rparr>, s')))"

definition parse_ref ::
  "vr_parser_t \<Rightarrow> bytes \<Rightarrow> vr_packet_t \<Rightarrow> sys \<Rightarrow>
     vr_result_t \<times> vr_parser_t \<times> bytes \<times> vr_packet_t \<times> sys" where
  "parse_ref p bs out s =
     (case ps_state p of
        VR_PARSER_PAYLOAD_WAIT \<Rightarrow> parse_payload_ref (ps_current_header p) bs out s
      | VR_PARSER_HEADER_WAIT \<Rightarrow>
          if length bs < frame_header_size then (VR_EMPTY, p, bs, out, s)
          else let h = header_of (take 8 bs); rest = drop frame_header_size bs
               in if \<not> header_valid h then (VR_ERROR, parser_zero, rest, out, s)
                  else if hdr_payload_len h = 0
                  then (VR_SUCCESS, parser_zero, rest, out\<lparr>pkt_header := h\<rparr>, s)
                  else parse_payload_ref h rest out s)"

section \<open>The code's reads\<close>

lemma read_header_ok:
  assumes "ring_inv rb" "12 \<le> length (ring_contents rb)"
  shows "parser_read_header rb = Some (Some (header_of (take 8 (ring_contents rb))))"
proof -
  have ne: "ring_contents rb \<noteq> []" using assms(2) by auto
  obtain m off where m: "vr_conn_ring_buf_contiguous_read rb None = (m, Some off)"
      "\<And>k. k \<le> unat m \<Longrightarrow> mem_read (rb_data rb) off k = Some (take k (ring_contents rb))"
    by (rule contiguous_read_span [OF assms(1) ne, of None]) blast
  show ?thesis
  proof (cases "sizeof_vr_packet_header_t \<le> m")
    case True
    then have "8 \<le> unat m" by (simp add: sizeof_header unat_order)
    then show ?thesis
      using m True deserialize_header_of [OF m(2) [of 8]] by (simp add: parser_read_header_def)
  next
    case False
    have "vr_conn_ring_buf_peek_n rb sizeof_vr_packet_header_t = Some (VR_SUCCESS, take 12 (ring_contents rb))"
      using peek_n_ok [OF assms(1), of sizeof_vr_packet_header_t] assms(2) by (simp add: sizeof_header)
    moreover have "mem_read (Some (take 12 (ring_contents rb))) 0 8 = Some (take 8 (ring_contents rb))"
      using assms(2) by (simp add: block_simps)
    ultimately show ?thesis
      using m False deserialize_header_of [of "Some (take 12 (ring_contents rb))" 0]
      by (simp add: parser_read_header_def)
  qed
qed

lemma overwrite_all: "length xs = length d \<Longrightarrow> overwrite d 0 xs = xs"
  by (simp add: overwrite_def)

lemma read_payload_ok:
  assumes "ring_inv rb" "0 < unat n" "unat n \<le> length (ring_contents rb)" "length block = unat n"
  shows "parser_read_payload rb n block = Some (Some (take (unat n) (ring_contents rb)))"
proof -
  have ne: "ring_contents rb \<noteq> []" using assms(2,3) by auto
  obtain m off where m: "vr_conn_ring_buf_contiguous_read rb None = (m, Some off)"
      "\<And>k. k \<le> unat m \<Longrightarrow> mem_read (rb_data rb) off k = Some (take k (ring_contents rb))"
    by (rule contiguous_read_span [OF assms(1) ne, of None]) blast
  have w: "mem_write (Some block) 0 (take (unat n) (ring_contents rb)) = Some (take (unat n) (ring_contents rb))"
    using assms(3,4) by (simp add: block_simps overwrite_all)
  show ?thesis
  proof (cases "n \<le> m")
    case True
    then show ?thesis using m(1) m(2) [of "unat n"] w by (simp add: parser_read_payload_def unat_order)
  next
    case False
    then show ?thesis using m(1) peek_n_ok [OF assms(1,3)] w by (simp add: parser_read_payload_def)
  qed
qed

section \<open>Refinement\<close>

definition poll_refines ::
  "vr_connection_t \<Rightarrow> (vr_result_t \<times> vr_connection_t \<times> vr_packet_t \<times> sys) option \<Rightarrow>
     vr_result_t \<times> vr_parser_t \<times> bytes \<times> vr_packet_t \<times> sys \<Rightarrow> bool" where
  "poll_refines conn res ref = (case ref of (r, p, rest, out, s) \<Rightarrow>
     \<exists>rb. res = Some (r, conn\<lparr>cn_read_buf := rb, cn_parser := p\<rparr>, out, s) \<and> ring_inv rb \<and>
       ring_contents rb = rest \<and> parser_inv p)"

lemma payload_wait_refines:
  assumes "conn_inv conn" "ps_state (cn_parser conn) = VR_PARSER_PAYLOAD_WAIT"
  shows "poll_refines conn (parser_payload_wait conn out s)
    (parse_payload_ref (ps_current_header (cn_parser conn)) (ring_contents (cn_read_buf conn)) out s)"
proof -
  let ?h = "ps_current_header (cn_parser conn)" and ?bs = "ring_contents (cn_read_buf conn)"
  let ?n = "ucast (hdr_payload_len ?h) :: uint32"
  have inv: "ring_inv (cn_read_buf conn)" using assms(1) by (simp add: conn_inv_def)
  have n0: "0 < unat ?n" using assms by (simp add: conn_inv_def parser_inv_def unat_order)
  have sz: "unat (vr_conn_ring_buf_size (cn_read_buf conn)) = length ?bs"
    using inv by (rule ring_reader.size_law)
  have ps: "\<lparr>ps_state = VR_PARSER_PAYLOAD_WAIT, ps_current_header = ?h\<rparr> = cn_parser conn"
    using assms(2) by (cases "cn_parser conn") simp
  have pinv: "parser_inv (cn_parser conn)" using assms(1) by (simp add: conn_inv_def)
  show ?thesis
  proof (cases "length ?bs < unat ?n")
    case True
    then show ?thesis using inv sz ps pinv
      by (auto simp: poll_refines_def parse_payload_ref_def parser_payload_wait_def Let_def unat_order
          intro!: exI [of _ "cn_read_buf conn"])
  next
    case False
    then have le: "unat ?n \<le> length ?bs" by simp
    obtain rb where rb: "vr_conn_ring_buf_consume (cn_read_buf conn) ?n = Some (VR_SUCCESS, rb)"
        "ring_inv rb" "ring_contents rb = drop (unat ?n) ?bs"
      by (rule ring_reader.fetch_skip [OF inv n0 le])
    show ?thesis
    proof (cases rule: malloc_bytes_cases [of "unat ?n" s])
      case (null s')
      then show ?thesis using False inv sz ps pinv
        by (auto simp: poll_refines_def parse_payload_ref_def parser_payload_wait_def Let_def unat_order
            intro!: exI [of _ "cn_read_buf conn"])
    next
      case (block d s')
      note pay = read_payload_ok [OF inv n0 le block(2)]
      show ?thesis using False sz block(1) pay rb
        by (auto simp: poll_refines_def parse_payload_ref_def parser_payload_wait_def Let_def unat_order
            intro!: exI [of _ rb])
    qed
  qed
qed

lemma poll_refines_ref:
  assumes "conn_inv conn"
  shows "poll_refines conn (vr_parser_poll conn out s)
    (parse_ref (cn_parser conn) (ring_contents (cn_read_buf conn)) out s)"
proof (cases "ps_state (cn_parser conn)")
  case VR_PARSER_PAYLOAD_WAIT
  then show ?thesis using payload_wait_refines [OF assms, of out s]
    by (simp add: vr_parser_poll_def parse_ref_def)
next
  case VR_PARSER_HEADER_WAIT
  let ?bs = "ring_contents (cn_read_buf conn)"
  have inv: "ring_inv (cn_read_buf conn)" "parser_inv (cn_parser conn)"
    using assms by (auto simp: conn_inv_def)
  have sz: "unat (vr_conn_ring_buf_size (cn_read_buf conn)) = length ?bs"
    using inv(1) by (rule ring_reader.size_law)
  show ?thesis
  proof (cases "length ?bs < 12")
    case True
    then show ?thesis using VR_PARSER_HEADER_WAIT sz inv
      by (auto simp: poll_refines_def vr_parser_poll_def parse_ref_def parser_header_wait_def
          sizeof_header unat_order intro!: exI [of _ "cn_read_buf conn"])
  next
    case False
    then have le: "12 \<le> length ?bs" by simp
    let ?h = "header_of (take 8 ?bs)"
    note rd = read_header_ok [OF inv(1) le]
    obtain rb where rb: "vr_conn_ring_buf_consume (cn_read_buf conn) sizeof_vr_packet_header_t = Some (VR_SUCCESS, rb)"
        "ring_inv rb" "ring_contents rb = drop 12 ?bs"
      using ring_reader.fetch_skip [OF inv(1), of sizeof_vr_packet_header_t] le
      by (auto simp: sizeof_header)
    have nsz: "\<not> vr_conn_ring_buf_size (cn_read_buf conn) < sizeof_vr_packet_header_t"
      using sz le by (simp add: sizeof_header unat_order)
    show ?thesis
    proof (cases "header_valid ?h \<and> hdr_payload_len ?h \<noteq> 0")
      case False
      then show ?thesis using VR_PARSER_HEADER_WAIT nsz rd rb le
        by (auto simp: poll_refines_def vr_parser_poll_def parse_ref_def parser_header_wait_def Let_def
            intro!: exI [of _ rb])
    next
      case True
      let ?c = "conn\<lparr>cn_read_buf := rb,
        cn_parser := \<lparr>ps_state = VR_PARSER_PAYLOAD_WAIT, ps_current_header = ?h\<rparr>\<rparr>"
      have poll: "vr_parser_poll conn out s = parser_payload_wait ?c out s"
        using VR_PARSER_HEADER_WAIT nsz rd rb True
        by (cases "cn_parser conn") (simp add: vr_parser_poll_def parser_header_wait_def Let_def)
      have "conn_inv ?c"
        using assms rb(2) True by (simp add: conn_inv_def parser_inv_def word_gt_0)
      then have "poll_refines ?c (parser_payload_wait ?c out s) (parse_payload_ref ?h (drop 12 ?bs) out s)"
        using payload_wait_refines [of ?c out s] rb(3) by simp
      then show ?thesis
        using VR_PARSER_HEADER_WAIT le True poll
        by (simp add: poll_refines_def parse_ref_def Let_def split: prod.splits)
    qed
  qed
qed

section \<open>Independence of fragmentation\<close>

lemma parse_payload_ref_append:
  assumes "parse_payload_ref h bs out s = (r, p, rest, out', s')" "r \<noteq> VR_EMPTY"
  shows "parse_payload_ref h (bs @ ys) out s = (r, p, rest @ ys, out', s')"
  using assms
  by (auto simp: parse_payload_ref_def Let_def split: if_splits prod.splits option.splits)

lemma parse_ref_append:
  assumes "parse_ref p bs out s = (r, p', rest, out', s')" "r \<noteq> VR_EMPTY"
  shows "parse_ref p (bs @ ys) out s = (r, p', rest @ ys, out', s')"
proof (cases "ps_state p")
  case VR_PARSER_PAYLOAD_WAIT
  then show ?thesis
    using assms parse_payload_ref_append [of "ps_current_header p" bs out s r p' rest out' s' ys]
    by (simp add: parse_ref_def)
next
  case VR_PARSER_HEADER_WAIT
  then have le: "12 \<le> length bs" using assms by (auto simp: parse_ref_def split: if_splits)
  then show ?thesis
    using assms VR_PARSER_HEADER_WAIT
      parse_payload_ref_append [of "header_of (take 8 bs)" "drop 12 bs" out s r p' rest out' s' ys]
    by (auto simp: parse_ref_def Let_def split: if_splits)
qed

lemma parse_payload_ref_empty:
  "parse_payload_ref h bs out s = (VR_EMPTY, p', rest, out', s') \<Longrightarrow>
   p' = \<lparr>ps_state = VR_PARSER_PAYLOAD_WAIT, ps_current_header = h\<rparr> \<and> rest = bs \<and> out' = out \<and> s' = s"
  by (auto simp: parse_payload_ref_def Let_def split: if_splits prod.splits option.splits)

lemma parse_ref_empty:
  assumes "parse_ref p bs out s = (VR_EMPTY, p', rest, out', s')"
  shows "s' = s \<and> out' = out \<and> parse_ref p (bs @ ys) out s = parse_ref p' (rest @ ys) out s"
proof (cases "ps_state p")
  case VR_PARSER_PAYLOAD_WAIT
  then have "parse_payload_ref (ps_current_header p) bs out s = (VR_EMPTY, p', rest, out', s')"
    using assms by (simp add: parse_ref_def)
  from parse_payload_ref_empty [OF this] VR_PARSER_PAYLOAD_WAIT show ?thesis
    by (simp add: parse_ref_def)
next
  case VR_PARSER_HEADER_WAIT
  show ?thesis
  proof (cases "length bs < 12")
    case True
    then show ?thesis using assms VR_PARSER_HEADER_WAIT by (simp add: parse_ref_def)
  next
    case False
    let ?h = "header_of (take 8 bs)"
    have v: "header_valid ?h" "hdr_payload_len ?h \<noteq> 0"
        "parse_payload_ref ?h (drop 12 bs) out s = (VR_EMPTY, p', rest, out', s')"
      using assms False VR_PARSER_HEADER_WAIT by (auto simp: parse_ref_def Let_def split: if_splits)
    from parse_payload_ref_empty [OF v(3)] v(1,2) False VR_PARSER_HEADER_WAIT show ?thesis
      by (simp add: parse_ref_def Let_def)
  qed
qed

lemma parse_payload_ref_success:
  "parse_payload_ref h bs out s = (VR_SUCCESS, p', rest, out', s') \<Longrightarrow>
   p' = parser_zero \<and> rest = drop (unat (hdr_payload_len h)) bs \<and> unat (hdr_payload_len h) \<le> length bs \<and>
   out' = out\<lparr>pkt_header := h, pkt_payload := Some (take (unat (hdr_payload_len h)) bs)\<rparr>"
  by (auto simp: parse_payload_ref_def Let_def split: if_splits prod.splits option.splits)

lemma parse_ref_progress:
  assumes "parse_ref p bs out s = (VR_SUCCESS, p', rest, out', s')"
  shows "2 * length rest + of_bool (ps_state p' = VR_PARSER_PAYLOAD_WAIT)
       < 2 * length bs + (of_bool (ps_state p = VR_PARSER_PAYLOAD_WAIT) :: nat)"
  using assms
  by (auto simp: parse_ref_def parser_zero_def Let_def dest!: parse_payload_ref_success
      split: if_splits vr_parser_state_t.splits)

function parse_run ::
  "vr_parser_t \<Rightarrow> bytes \<Rightarrow> sys \<Rightarrow> vr_packet_t list \<times> vr_result_t \<times> vr_parser_t \<times> bytes \<times> sys" where
  "parse_run p bs s =
     (case parse_ref p bs packet_zero s of (r, p', rest, out, s') \<Rightarrow>
        if r = VR_SUCCESS then
          (case parse_run p' rest s' of (ps, res) \<Rightarrow> (out # ps, res))
        else ([], r, p', rest, s'))"
  by pat_completeness auto
termination
  by (relation "measure (\<lambda>(p, bs, s). 2 * length bs + of_bool (ps_state p = VR_PARSER_PAYLOAD_WAIT))")
    (auto dest!: parse_ref_progress [OF sym])

declare parse_run.simps [simp del]

lemma parse_run_append:
  assumes "parse_run p xs s = (ps, VR_EMPTY, p', rest, s')"
  shows "parse_run p (xs @ ys) s =
    (case parse_run p' (rest @ ys) s' of (qs, res) \<Rightarrow> (ps @ qs, res))"
  using assms
proof (induction p xs s arbitrary: ps rule: parse_run.induct)
  case (1 p xs s)
  obtain r p1 rest1 out s1 where e: "parse_ref p xs packet_zero s = (r, p1, rest1, out, s1)"
    by (metis prod_cases5)
  show ?case
  proof (cases "r = VR_SUCCESS")
    case True
    obtain ps1 where ps: "ps = out # ps1" "parse_run p1 rest1 s1 = (ps1, VR_EMPTY, p', rest, s')"
      using "1.prems" e True by (subst (asm) parse_run.simps) (auto split: prod.splits)
    have "parse_ref p (xs @ ys) packet_zero s = (VR_SUCCESS, p1, rest1 @ ys, out, s1)"
      using parse_ref_append [OF e] True by simp
    moreover have "parse_run p1 (rest1 @ ys) s1 =
        (case parse_run p' (rest @ ys) s' of (qs, res) \<Rightarrow> (ps1 @ qs, res))"
      using "1.IH" [OF e [symmetric] refl refl refl True ps(2)] .
    ultimately show ?thesis using ps(1)
      by (subst parse_run.simps) (simp split: prod.splits)
  next
    case False
    have "parse_run p xs s = ([], r, p1, rest1, s1)"
      using e False by (subst parse_run.simps) simp
    then have h: "r = VR_EMPTY" "ps = []" "p1 = p'" "rest1 = rest" "s1 = s'"
      using "1.prems" by auto
    then have "parse_ref p xs packet_zero s = (VR_EMPTY, p', rest, out, s')" using e by simp
    from parse_ref_empty [OF this, of ys] have
      "parse_ref p (xs @ ys) packet_zero s = parse_ref p' (rest @ ys) packet_zero s" "s' = s" by auto
    then have "parse_run p (xs @ ys) s = parse_run p' (rest @ ys) s'"
      by (simp only: parse_run.simps [of p "xs @ ys"] parse_run.simps [of p' "rest @ ys"])
    then show ?thesis using h(2) by (simp split: prod.splits)
  qed
qed


section \<open>Polling until no packet comes out\<close>

text \<open>The polls of the code, collected: \<open>fuel\<close> bounds their number, the last result is the one that
  is not \<^const>\<open>VR_SUCCESS\<close>.\<close>

fun poll_all :: "nat \<Rightarrow> vr_connection_t \<Rightarrow> sys \<Rightarrow> (vr_packet_t list \<times> vr_result_t \<times> vr_connection_t \<times> sys) option"
where
  "poll_all 0 conn s = None"
| "poll_all (Suc fuel) conn s = do {
     (r, conn, out, s) \<leftarrow> vr_parser_poll conn packet_zero s;
     if r = VR_SUCCESS then do {
       (ps, res) \<leftarrow> poll_all fuel conn s;
       Some (out # ps, res)
     } else Some ([], r, conn, s)
   }"

definition poll_fuel :: "vr_connection_t \<Rightarrow> nat" where
  "poll_fuel conn = 2 * length (ring_contents (cn_read_buf conn)) + 2"

lemma poll_all_run:
  assumes "conn_inv conn"
    and "2 * length (ring_contents (cn_read_buf conn))
       + of_bool (ps_state (cn_parser conn) = VR_PARSER_PAYLOAD_WAIT) < fuel"
    and "parse_run (cn_parser conn) (ring_contents (cn_read_buf conn)) s = (ps, r, p', rest, s')"
  shows "\<exists>rb. poll_all fuel conn s = Some (ps, r, conn\<lparr>cn_read_buf := rb, cn_parser := p'\<rparr>, s') \<and>
    ring_contents rb = rest \<and> conn_inv (conn\<lparr>cn_read_buf := rb, cn_parser := p'\<rparr>)"
  using assms
proof (induction fuel arbitrary: conn s ps)
  case 0
  then show ?case by simp
next
  case (Suc fuel)
  let ?bs = "ring_contents (cn_read_buf conn)"
  obtain r1 p1 rest1 out s1 where e: "parse_ref (cn_parser conn) ?bs packet_zero s = (r1, p1, rest1, out, s1)"
    by (metis prod_cases5)
  then obtain rb where rb: "vr_parser_poll conn packet_zero s =
        Some (r1, conn\<lparr>cn_read_buf := rb, cn_parser := p1\<rparr>, out, s1)"
      "ring_inv rb" "ring_contents rb = rest1" "parser_inv p1"
    using poll_refines_ref [OF Suc.prems(1), of packet_zero s] by (auto simp: poll_refines_def)
  let ?c = "conn\<lparr>cn_read_buf := rb, cn_parser := p1\<rparr>"
  have inv: "conn_inv ?c" using Suc.prems(1) rb by (simp add: conn_inv_def)
  show ?case
  proof (cases "r1 = VR_SUCCESS")
    case True
    obtain qs where qs: "ps = out # qs" "parse_run p1 rest1 s1 = (qs, r, p', rest, s')"
      using Suc.prems(3) e True by (subst (asm) parse_run.simps) (auto split: prod.splits)
    have "parse_ref (cn_parser conn) ?bs packet_zero s = (VR_SUCCESS, p1, rest1, out, s1)"
      using e True by simp
    from parse_ref_progress [OF this]
    have "2 * length (ring_contents (cn_read_buf ?c)) +
        of_bool (ps_state (cn_parser ?c) = VR_PARSER_PAYLOAD_WAIT) < fuel"
      using Suc.prems(2) rb(3) by simp
    from Suc.IH [OF inv this, of s1 qs] qs rb True show ?thesis by auto
  next
    case False
    then have "parse_run (cn_parser conn) ?bs s = ([], r1, p1, rest1, s1)"
      using e by (subst parse_run.simps) simp
    then show ?thesis using Suc.prems(3) False rb inv by (auto intro!: exI [of _ rb])
  qed
qed

lemma poll_all_enough:
  assumes "conn_inv conn"
    and "parse_run (cn_parser conn) (ring_contents (cn_read_buf conn)) s = (ps, r, p', rest, s')"
  obtains rb where "poll_all (poll_fuel conn) conn s = Some (ps, r, conn\<lparr>cn_read_buf := rb, cn_parser := p'\<rparr>, s')"
    "ring_contents rb = rest" "conn_inv (conn\<lparr>cn_read_buf := rb, cn_parser := p'\<rparr>)"
proof -
  have "2 * length (ring_contents (cn_read_buf conn))
       + of_bool (ps_state (cn_parser conn) = VR_PARSER_PAYLOAD_WAIT) < poll_fuel conn"
    by (simp add: poll_fuel_def)
  from poll_all_run [OF assms(1) this assms(2)] show ?thesis using that by blast
qed

end
