(* ===== verification/Velora_Parser_Theorems.thy ===== *)
theory Velora_Parser_Theorems
  imports Velora_Parser_Spec
begin

text \<open>
  The properties of the packet codec and of the parser: the codec's round trips, the parser against
  the reference on plain byte sequences, its independence of how the stream is cut into reads, what
  it delivers, and what the size it reads for a header does to packets in the wire format.
\<close>

section \<open>Sample connections\<close>

text \<open>A connection whose read ring holds \<open>bs\<close> at the front of a 64-byte block.\<close>

definition ring_holding :: "bytes \<Rightarrow> vr_connection_ring_buf_t" where
  "ring_holding bs = \<lparr>rb_data = Some (take 64 (bs @ replicate 64 0)), rb_capacity = 64,
     rb_count = of_nat (length bs), rb_read_pos = 0, rb_write_pos = of_nat (length bs),
     rb_state = VR_CONN_RING_BUF_ACTIVE\<rparr>"

definition conn_reading :: "bytes \<Rightarrow> vr_connection_t" where
  "conn_reading bs = connection_zero\<lparr>cn_read_buf := ring_holding bs\<rparr>"

lemma ring_holding:
  assumes "length bs < 64"
  shows "ring_inv (ring_holding bs)" "ring_contents (ring_holding bs) = bs"
  using assms
  by (simp_all add: ring_inv_def ring_contents_def ring_holding_def cyc_contiguous
      unat_of_nat)

lemma conn_reading:
  assumes "length bs < 64"
  shows "conn_inv (conn_reading bs)" "ring_contents (cn_read_buf (conn_reading bs)) = bs"
    "cn_parser (conn_reading bs) = parser_zero"
  using assms ring_holding [OF assms]
  by (simp_all add: conn_inv_def conn_reading_def connection_zero_def)

definition sample_header :: "vr_packet_type_t \<Rightarrow> uint8 \<Rightarrow> uint16 \<Rightarrow> vr_packet_header_t" where
  "sample_header t sid n = \<lparr>hdr_magic = VR_MAGIC, hdr_version = VR_PROTOCOL_VERSION, hdr_type = t,
     hdr_stream_id = sid, hdr_flags = 0, hdr_payload_len = n\<rparr>"

lemma sample_header_valid [simp]:
  "header_valid (sample_header t sid n) \<longleftrightarrow> t \<le> VR_PKT_ERROR"
  by (auto simp: header_valid_iff sample_header_def)

lemma sample_header_len [simp]: "hdr_payload_len (sample_header t sid n) = n"
  by (simp add: sample_header_def)

section \<open>Frames\<close>

text \<open>What the parser takes for one packet: the eight header bytes, four bytes it skips, the payload.\<close>

definition frame :: "vr_packet_t \<times> bytes \<Rightarrow> bytes" where
  "frame = (\<lambda>(p, pad). header_bytes (pkt_header p) @ pad @
     (case pkt_payload p of None \<Rightarrow> [] | Some xs \<Rightarrow> xs))"

definition frame_ok :: "vr_packet_t \<times> bytes \<Rightarrow> bool" where
  "frame_ok = (\<lambda>(p, pad). length pad = 4 \<and> header_valid (pkt_header p) \<and>
     (case pkt_payload p of None \<Rightarrow> hdr_payload_len (pkt_header p) = 0
      | Some xs \<Rightarrow> 0 < length xs \<and> length xs = unat (hdr_payload_len (pkt_header p))))"

lemma header_valid_type: "header_valid h \<Longrightarrow> unat (hdr_type h) < 256"
  by (simp add: header_valid_iff packet_consts unat_order)

lemma parse_ref_frame:
  assumes "frame_ok (p, pad)" "plenty (Suc n) s"
  shows "\<exists>s'. parse_ref parser_zero (frame (p, pad) @ rest) packet_zero s
      = (VR_SUCCESS, parser_zero, rest, p, s') \<and> plenty n s'"
proof -
  let ?h = "pkt_header p"
  have h: "length pad = 4" "header_valid ?h" "header_of (header_bytes ?h) = ?h"
    using assms(1) header_of_bytes header_valid_type by (auto simp: frame_ok_def)
  show ?thesis
  proof (cases "pkt_payload p")
    case None
    then show ?thesis using assms h plenty_Suc [OF assms(2)]
      by (cases p) (auto simp: parse_ref_def frame_def frame_ok_def packet_zero_def parser_zero_def)
  next
    case (Some xs)
    then have xs: "xs \<noteq> []" "length xs = unat (hdr_payload_len ?h)"
      using assms(1) by (auto simp: frame_ok_def)
    then have ne: "hdr_payload_len ?h \<noteq> 0" by auto
    obtain d s' where m: "malloc_bytes (length xs) s = (Some d, s')" "plenty n s'"
      by (cases rule: malloc_bytes_cases [of "length xs" s]) (use assms(2) in auto)
    have "parse_payload_ref ?h (xs @ rest) packet_zero s = (VR_SUCCESS, parser_zero, rest, p, s')"
      using xs m Some by (cases p) (simp add: parse_payload_ref_def packet_zero_def)
    then show ?thesis using h ne Some m(2)
      by (auto simp: parse_ref_def frame_def parser_zero_def)
  qed
qed

lemma parse_run_frames:
  assumes "list_all frame_ok fs" "plenty (length fs) s"
  shows "\<exists>s'. parse_run parser_zero (concat (map frame fs)) s
      = (map fst fs, VR_EMPTY, parser_zero, [], s')"
  using assms
proof (induction fs arbitrary: s)
  case Nil
  have "parse_ref parser_zero [] packet_zero s = (VR_EMPTY, parser_zero, [], packet_zero, s)"
    by (simp add: parse_ref_def parser_zero_def)
  then show ?case by (simp add: parse_run.simps)
next
  case (Cons f fs)
  obtain s1 where s1: "parse_ref parser_zero (frame f @ concat (map frame fs)) packet_zero s
      = (VR_SUCCESS, parser_zero, concat (map frame fs), fst f, s1)" "plenty (length fs) s1"
    using parse_ref_frame [of "fst f" "snd f" "length fs" s "concat (map frame fs)"] Cons.prems by auto
  then show ?case
    using Cons.IH [OF _ s1(2)] Cons.prems by (auto simp: parse_run.simps [of _ "_ @ _"])
qed

section \<open>Properties of the codec\<close>

text \<open>C24. A header survives the wire: what \<open>vr_packet_serialize\<close> writes for a packet is the eight
  header bytes followed by the payload, it touches no other byte of the buffer, and
  \<open>vr_packet_header_deserialize\<close> reads the same header back whenever the type fits in its byte.\<close>

theorem packet_serialize_roundtrip:
  assumes "unat (hdr_type (pkt_header p)) < 256"
    and "length xs = unat (hdr_payload_len (pkt_header p))" "pkt_payload p = Some xs"
    and "off + 8 + length xs \<le> length buff"
  shows "\<exists>buff'. vr_packet_serialize (Some p) (Some buff) off = Some buff' \<and>
    length buff' = length buff \<and> take off buff' = take off buff \<and>
    drop (off + 8 + length xs) buff' = drop (off + 8 + length xs) buff \<and>
    take (8 + length xs) (drop off buff') = header_bytes (pkt_header p) @ xs \<and>
    vr_packet_header_deserialize (Some buff') off = Some (pkt_header p)"
proof -
  let ?b = "take off buff @ (header_bytes (pkt_header p) @ xs) @ drop (off + 8 + length xs) buff"
  have "mem_read (Some ?b) off 8 = Some (header_bytes (pkt_header p))"
    using assms(4) by (simp add: block_simps)
  note rd = deserialize_header_of [OF this, unfolded header_of_bytes [OF assms(1)]]
  have "vr_packet_serialize (Some p) (Some buff) off = Some ?b"
    using assms(2-4)
    by (auto simp: vr_packet_serialize_def block_simps overwrite_def word_gt_0 min_def ac_simps)
  then show ?thesis using assms(4) rd by (auto simp: min_def)
qed

theorem packet_serialize_roundtrip_witness:
  "\<exists>buff'. vr_packet_serialize (Some \<lparr>pkt_header = sample_header VR_PKT_PUBLISH 3 2, pkt_payload = Some [7, 9]\<rparr>)
      (Some (replicate 12 0)) 1 = Some buff' \<and>
    take 10 (drop 1 buff') = header_bytes (sample_header VR_PKT_PUBLISH 3 2) @ [7, 9] \<and>
    vr_packet_header_deserialize (Some buff') 1 = Some (sample_header VR_PKT_PUBLISH 3 2)"
  using packet_serialize_roundtrip
    [of "\<lparr>pkt_header = sample_header VR_PKT_PUBLISH 3 2, pkt_payload = Some [7, 9]\<rparr>" "[7, 9]" 1 "replicate 12 0"]
  by (auto simp: sample_header_def packet_consts)

text \<open>Any eight bytes are the serialization of exactly the header they are read as: reading a
  header and writing it again gives the same bytes, so no two different wire headers are read as the
  same header.\<close>

theorem header_deserialize_serialize:
  assumes "off + 8 \<le> length data"
  shows "\<exists>h. vr_packet_header_deserialize (Some data) off = Some h \<and>
    vr_packet_serialize (Some \<lparr>pkt_header = h\<lparr>hdr_payload_len := 0\<rparr>, pkt_payload = None\<rparr>) (Some data) off
      = Some (overwrite data (off + 6) [0, 0]) \<and>
    header_bytes h = take 8 (drop off data)"
proof -
  let ?p = "take 8 (drop off data)"
  have len: "length ?p = 8" using assms by simp
  have rd: "vr_packet_header_deserialize (Some data) off = Some (header_of ?p)"
    using assms by (intro deserialize_header_of) (simp add: block_simps)
  note hb = header_bytes_of [OF len]
  have "header_bytes ((header_of ?p)\<lparr>hdr_payload_len := 0\<rparr>) = take 6 (header_bytes (header_of ?p)) @ [0, 0]"
    by (simp add: header_bytes_def vr_encode_u16_def)
  also have "\<dots> = take 6 (drop off data) @ [0, 0]" using hb by (simp add: min_def)
  finally have "vr_packet_serialize (Some \<lparr>pkt_header = (header_of ?p)\<lparr>hdr_payload_len := 0\<rparr>, pkt_payload = None\<rparr>)
      (Some data) off = Some (overwrite data off (take 6 (drop off data) @ [0, 0]))"
    using assms by (simp add: vr_packet_serialize_def block_simps)
  also have "overwrite data off (take 6 (drop off data) @ [0, 0]) = overwrite data (off + 6) [0, 0]"
    using assms by (simp add: overwrite_def take_add ac_simps)
  finally show ?thesis using rd hb by blast
qed

theorem header_deserialize_serialize_witness:
  "\<exists>h. vr_packet_header_deserialize (Some [0x57, 0x89, 1, 3, 0, 0, 0, 5, 42]) 0 = Some h \<and>
    header_bytes h = [0x57, 0x89, 1, 3, 0, 0, 0, 5]"
  using header_deserialize_serialize [of 0 "[0x57, 0x89, 1, 3, 0, 0, 0, 5, 42]"] by auto

section \<open>Properties of the parser\<close>

text \<open>C10. One call of \<open>vr_parser_poll\<close> is total and does what the reference parser does on the plain
  bytes of the read ring, whatever the ring's wrap: same result, same packet, same parser state, the
  same bytes left, and nothing else of the connection changes. The connection's invariant holds
  again after the call.\<close>

theorem parser_poll_refines:
  assumes "conn_inv conn"
  shows "case parse_ref (cn_parser conn) (ring_contents (cn_read_buf conn)) out s of
      (r, p, rest, out', s') \<Rightarrow>
        \<exists>rb. vr_parser_poll conn out s = Some (r, conn\<lparr>cn_read_buf := rb, cn_parser := p\<rparr>, out', s') \<and>
          ring_contents rb = rest \<and> conn_inv (conn\<lparr>cn_read_buf := rb, cn_parser := p\<rparr>)"
  using poll_refines_ref [OF assms, of out s] assms
  by (auto simp: poll_refines_def conn_inv_def split: prod.splits)

theorem parser_poll_refines_witness:
  "conn_inv (conn_reading [1, 2, 3]) \<and>
   (\<exists>rb. vr_parser_poll (conn_reading [1, 2, 3]) packet_zero (sys_with 0) =
      Some (VR_EMPTY, (conn_reading [1, 2, 3])\<lparr>cn_read_buf := rb, cn_parser := parser_zero\<rparr>, packet_zero, sys_with 0) \<and>
      ring_contents rb = [1, 2, 3])"
  using parser_poll_refines [of "conn_reading [1, 2, 3]" packet_zero "sys_with 0"] conn_reading [of "[1, 2, 3]"]
  by (auto simp: parse_ref_def parser_zero_def)

text \<open>C11. The packets do not depend on how the stream is cut into reads. If polling a connection that
  has received \<open>xs\<close> delivers \<open>ps\<close> and then runs out of bytes, and polling again after \<open>ys\<close> has
  arrived delivers \<open>qs\<close>, then polling a connection that has received \<open>xs @ ys\<close> at once delivers
  \<open>ps @ qs\<close> and ends with the same result, the same parser state and the same bytes left.\<close>

theorem parser_fragmentation:
  assumes "conn_inv c" "conn_inv c1" "conn_inv c2"
    and "cn_parser c = cn_parser c1" "ring_contents (cn_read_buf c) = ring_contents (cn_read_buf c1) @ ys"
    and "poll_all (poll_fuel c1) c1 s = Some (ps, VR_EMPTY, c1', s1)"
    and "cn_parser c2 = cn_parser c1'" "ring_contents (cn_read_buf c2) = ring_contents (cn_read_buf c1') @ ys"
    and "poll_all (poll_fuel c2) c2 s1 = Some (qs, r, c2', s2)"
  shows "\<exists>c'. poll_all (poll_fuel c) c s = Some (ps @ qs, r, c', s2) \<and> cn_parser c' = cn_parser c2' \<and>
    ring_contents (cn_read_buf c') = ring_contents (cn_read_buf c2')"
proof -
  have run: "parse_run (cn_parser d) (ring_contents (cn_read_buf d)) t
      = (xs, r', cn_parser d', ring_contents (cn_read_buf d'), t')"
    if "conn_inv d" "poll_all (poll_fuel d) d t = Some (xs, r', d', t')" for d t xs r' d' t'
  proof -
    obtain xs1 r1 p1 rest1 t1 where e: "parse_run (cn_parser d) (ring_contents (cn_read_buf d)) t
        = (xs1, r1, p1, rest1, t1)" by (metis prod_cases5)
    show ?thesis by (rule poll_all_enough [OF that(1) e]) (use that(2) e in auto)
  qed
  have "parse_run (cn_parser c) (ring_contents (cn_read_buf c)) s
      = (ps @ qs, r, cn_parser c2', ring_contents (cn_read_buf c2'), s2)"
    using parse_run_append [OF run [OF assms(2,6)], of ys] run [OF assms(3,9)] assms(4,5,7,8) by simp
  from assms(1) this show ?thesis by (rule poll_all_enough) auto
qed

lemma poll_all_ring:
  assumes "length bs < 64" "parse_run parser_zero bs s = (ps, r, p', rest, s')"
  shows "\<exists>c'. poll_all (poll_fuel (conn_reading bs)) (conn_reading bs) s = Some (ps, r, c', s') \<and>
    cn_parser c' = p' \<and> ring_contents (cn_read_buf c') = rest"
  by (rule poll_all_enough [OF conn_reading(1) [OF assms(1)], of s ps r p' rest s'])
    (use assms conn_reading [OF assms(1)] in auto)

theorem parser_fragmentation_witness:
  "\<exists>c'. poll_all (poll_fuel (conn_reading [1, 2])) (conn_reading [1, 2]) (sys_with 0)
      = Some ([] @ [], VR_EMPTY, c', sys_with 0) \<and> cn_parser c' = parser_zero \<and>
    ring_contents (cn_read_buf c') = [1, 2]"
proof -
  have e: "parse_run parser_zero bs (sys_with 0) = ([], VR_EMPTY, parser_zero, bs, sys_with 0)"
    if "length bs < 12" for bs
    using that by (simp add: parse_run.simps parse_ref_def parser_zero_def)
  obtain c1' where c1: "poll_all (poll_fuel (conn_reading [1])) (conn_reading [1]) (sys_with 0)
      = Some ([], VR_EMPTY, c1', sys_with 0)" "cn_parser c1' = parser_zero" "ring_contents (cn_read_buf c1') = [1]"
    using poll_all_ring [OF _ e, of "[1]"] by auto
  obtain c2' where c2: "poll_all (poll_fuel (conn_reading [1, 2])) (conn_reading [1, 2]) (sys_with 0)
      = Some ([], VR_EMPTY, c2', sys_with 0)" "cn_parser c2' = parser_zero"
      "ring_contents (cn_read_buf c2') = [1, 2]"
    using poll_all_ring [OF _ e, of "[1, 2]"] by auto
  show ?thesis
    using parser_fragmentation [OF conn_reading(1) conn_reading(1) conn_reading(1) _ _ c1(1) _ _ c2(1), of "[1, 2]" "[2]"]
    by (auto simp: conn_reading c1 c2)
qed

text \<open>C25. Polling a connection until no packet comes out returns, with the fuel \<open>2 n + 2\<close> for \<open>n\<close>
  received bytes. A stream made of frames, each a valid header, four skipped bytes and as much payload
  as the header announces, is delivered packet by packet, in order, headers and payloads intact, and
  the ring is left empty.\<close>

theorem parser_delivers_frames:
  assumes "conn_inv conn" "cn_parser conn = parser_zero"
    and "ring_contents (cn_read_buf conn) = concat (map frame fs)"
    and "list_all frame_ok fs" "plenty (length fs) s"
  shows "\<exists>conn' s'. poll_all (poll_fuel conn) conn s = Some (map fst fs, VR_EMPTY, conn', s') \<and>
    cn_parser conn' = parser_zero \<and> ring_contents (cn_read_buf conn') = [] \<and> conn_inv conn'"
proof -
  obtain s' where "parse_run (cn_parser conn) (ring_contents (cn_read_buf conn)) s
      = (map fst fs, VR_EMPTY, parser_zero, [], s')"
    using parse_run_frames [OF assms(4,5)] assms(2,3) by auto
  from assms(1) this show ?thesis by (rule poll_all_enough) auto
qed

definition sample_frames :: "(vr_packet_t \<times> bytes) list" where
  "sample_frames =
     [(\<lparr>pkt_header = sample_header VR_PKT_CONNECT 0 0, pkt_payload = None\<rparr>, [0, 0, 0, 0]),
      (\<lparr>pkt_header = sample_header VR_PKT_PUBLISH 7 2, pkt_payload = Some [65, 66]\<rparr>, [1, 2, 3, 4])]"

theorem parser_delivers_frames_witness:
  "\<exists>conn' s'. poll_all (poll_fuel (conn_reading (concat (map frame sample_frames))))
      (conn_reading (concat (map frame sample_frames))) (sys_with 2)
    = Some (map fst sample_frames, VR_EMPTY, conn', s')"
proof -
  let ?bs = "concat (map frame sample_frames)"
  have "length ?bs < 64" by (simp add: sample_frames_def frame_def)
  moreover have "list_all frame_ok sample_frames"
    by (simp add: sample_frames_def frame_ok_def sample_header_def header_valid_iff packet_consts unat_order)
  moreover have "plenty (length sample_frames) (sys_with 2)" by (simp add: sample_frames_def)
  ultimately show ?thesis
    using parser_delivers_frames [of "conn_reading ?bs" sample_frames "sys_with 2"] conn_reading [of ?bs]
    by auto
qed

text \<open>What a delivered packet owes to the bytes taken from the ring for it.\<close>

definition delivered :: "vr_packet_t \<Rightarrow> bytes \<Rightarrow> bool" where
  "delivered out taken \<longleftrightarrow> header_valid (pkt_header out) \<and>
     (case pkt_payload out of
        None \<Rightarrow> hdr_payload_len (pkt_header out) = 0
      | Some xs \<Rightarrow> length xs = unat (hdr_payload_len (pkt_header out)) \<and> 0 < length xs \<and>
          (\<exists>pre. taken = pre @ xs))"

lemma delivered_append: "delivered out taken \<Longrightarrow> delivered out (pre @ taken)"
  by (auto simp: delivered_def split: option.splits)

lemma parse_payload_delivers:
  assumes "parse_payload_ref h bs packet_zero s = (VR_SUCCESS, p, rest, out, s')"
    and "header_valid h" "0 < hdr_payload_len h"
  shows "p = parser_zero \<and> (\<exists>taken. bs = taken @ rest \<and> delivered out taken)"
proof -
  note o = parse_payload_ref_success [OF assms(1)]
  then have "delivered out (take (unat (hdr_payload_len h)) bs)"
    using assms(2,3) by (simp add: delivered_def word_less_nat_alt)
  moreover have "bs = take (unat (hdr_payload_len h)) bs @ rest" using o by simp
  ultimately show ?thesis using o by blast
qed

lemma parse_ref_delivers:
  assumes "parse_ref p bs packet_zero s = (VR_SUCCESS, p', rest, out, s')" "parser_inv p"
  shows "p' = parser_zero \<and> (\<exists>taken. bs = taken @ rest \<and> delivered out taken)"
proof (cases "ps_state p")
  case VR_PARSER_PAYLOAD_WAIT
  then show ?thesis using assms parse_payload_delivers [of "ps_current_header p" bs s p' rest out s']
    by (simp add: parse_ref_def parser_inv_def)
next
  case VR_PARSER_HEADER_WAIT
  let ?h = "header_of (take 8 bs)"
  have v: "12 \<le> length bs" "header_valid ?h"
    using assms VR_PARSER_HEADER_WAIT by (auto simp: parse_ref_def Let_def split: if_splits)
  show ?thesis
  proof (cases "hdr_payload_len ?h = 0")
    case True
    then have "p' = parser_zero" "bs = take 12 bs @ rest" "out = packet_zero\<lparr>pkt_header := ?h\<rparr>"
      using assms v VR_PARSER_HEADER_WAIT by (auto simp: parse_ref_def)
    moreover have "delivered (packet_zero\<lparr>pkt_header := ?h\<rparr>) (take 12 bs)"
      using v True by (simp add: delivered_def packet_zero_def)
    ultimately show ?thesis by blast
  next
    case False
    then have "parse_payload_ref ?h (drop 12 bs) packet_zero s = (VR_SUCCESS, p', rest, out, s')"
      using assms v VR_PARSER_HEADER_WAIT by (simp add: parse_ref_def)
    from parse_payload_delivers [OF this v(2)] False
    obtain taken where "p' = parser_zero" "drop 12 bs = taken @ rest" "delivered out taken"
      by (auto simp: word_gt_0)
    moreover from this have "bs = (take 12 bs @ taken) @ rest" by (metis append.assoc append_take_drop_id)
    ultimately show ?thesis using delivered_append by blast
  qed
qed

text \<open>The parser delivers only what it has checked: on success the header passed every check of
  the code, the payload is present exactly when the header announces one and has the announced
  length, it is the end of the bytes taken from the front of the ring, and the parser is ready for
  the next header.\<close>

theorem parser_delivers_valid:
  assumes "conn_inv conn" "vr_parser_poll conn packet_zero s = Some (VR_SUCCESS, conn', out, s')"
  shows "header_valid (pkt_header out) \<and> cn_parser conn' = parser_zero \<and>
    (\<exists>taken. ring_contents (cn_read_buf conn) = taken @ ring_contents (cn_read_buf conn') \<and>
      (case pkt_payload out of
         None \<Rightarrow> hdr_payload_len (pkt_header out) = 0
       | Some xs \<Rightarrow> length xs = unat (hdr_payload_len (pkt_header out)) \<and> 0 < length xs \<and>
           (\<exists>pre. taken = pre @ xs)))"
proof -
  let ?bs = "ring_contents (cn_read_buf conn)"
  obtain r p rest o1 s1 where e: "parse_ref (cn_parser conn) ?bs packet_zero s = (r, p, rest, o1, s1)"
    by (metis prod_cases5)
  then have h: "r = VR_SUCCESS" "o1 = out" "p = cn_parser conn'" "rest = ring_contents (cn_read_buf conn')"
    using poll_refines_ref [OF assms(1), of packet_zero s] assms(2) by (auto simp: poll_refines_def)
  have "parser_inv (cn_parser conn)" using assms(1) by (simp add: conn_inv_def)
  from parse_ref_delivers [OF e [unfolded h] this] show ?thesis
    by (auto simp only: delivered_def)
qed

theorem parser_delivers_valid_witness:
  "\<exists>conn' out s'. vr_parser_poll (conn_reading (header_bytes (sample_header VR_PKT_PING 1 0) @ [0, 0, 0, 0]))
      packet_zero (sys_with 0) = Some (VR_SUCCESS, conn', out, s') \<and>
    header_valid (pkt_header out) \<and> cn_parser conn' = parser_zero"
proof -
  let ?h = "sample_header VR_PKT_PING 1 0"
  let ?bs = "header_bytes ?h @ [0, 0, 0, 0]"
  have l: "length ?bs < 64" by simp
  have h: "header_of (header_bytes ?h) = ?h"
    by (rule header_of_bytes) (simp add: sample_header_def packet_consts)
  have "header_valid ?h" by (simp add: packet_consts)
  then have "parse_ref parser_zero ?bs packet_zero (sys_with 0)
      = (VR_SUCCESS, parser_zero, [], packet_zero\<lparr>pkt_header := ?h\<rparr>, sys_with 0)"
    using h by (simp add: parse_ref_def parser_zero_def)
  then obtain conn' out s' where poll:
      "vr_parser_poll (conn_reading ?bs) packet_zero (sys_with 0) = Some (VR_SUCCESS, conn', out, s')"
    using poll_refines_ref [OF conn_reading(1) [OF l], of packet_zero "sys_with 0"] conn_reading [OF l]
    by (auto simp: poll_refines_def)
  with parser_delivers_valid [OF conn_reading(1) [OF l] poll] show ?thesis by blast
qed

lemma foreign_magic:
  assumes "hdr_flags h AND NOT VR_PACKET_VALID_FLAGS = 0"
  shows "vr_decode_u16 (hdr_stream_id h) (hdr_flags h) \<noteq> VR_MAGIC"
proof
  assume "vr_decode_u16 (hdr_stream_id h) (hdr_flags h) = VR_MAGIC"
  then have "vr_encode_u16 VR_MAGIC = [hdr_stream_id h, hdr_flags h]" by (metis encode_decode_u16)
  then have "hdr_flags h = 0x89" by (simp add: vr_encode_u16_def packet_consts)
  then show False using assms by (simp add: packet_consts)
qed

text \<open>C26. The parser does not read the format the serializer and the tests write. A complete packet
  of eight bytes, no payload, is not delivered: the parser waits for \<open>sizeof(vr_packet_header_t)\<close>
  bytes, which is twelve. Of three or more such packets sent back to back only the first is delivered,
  because the next header is read four bytes too late; its magic number is then the stream id and the
  flags of the second packet, which no valid flags can make right, and the result is an error.\<close>

theorem parser_wire_format_mismatch:
  assumes "conn_inv conn" "cn_parser conn = parser_zero"
    and "ring_contents (cn_read_buf conn) = concat (map header_bytes (h # hs))"
    and "list_all (\<lambda>h. header_valid h \<and> hdr_payload_len h = 0) (h # hs)"
  shows "(hs = [] \<longrightarrow> (\<exists>conn'. poll_all (poll_fuel conn) conn s = Some ([], VR_EMPTY, conn', s))) \<and>
    (2 \<le> length hs \<longrightarrow> (\<exists>conn'. poll_all (poll_fuel conn) conn s
       = Some ([\<lparr>pkt_header = h, pkt_payload = None\<rparr>], VR_ERROR, conn', s)))"
proof -
  let ?bs = "concat (map header_bytes (h # hs))"
  have hd: "header_of (header_bytes h) = h"
    using assms(4) header_of_bytes [of h] header_valid_type [of h] by simp
  have one: "parse_run parser_zero ?bs s = ([], VR_EMPTY, parser_zero, ?bs, s)" if "hs = []"
    using that by (simp add: parse_run.simps parse_ref_def parser_zero_def)
  have three: "\<exists>rest. parse_run parser_zero ?bs s
      = ([\<lparr>pkt_header = h, pkt_payload = None\<rparr>], VR_ERROR, parser_zero, rest, s)" if "2 \<le> length hs"
  proof -
    from that obtain h2 h3 hs' where hs: "hs = h2 # h3 # hs'"
      by (metis One_nat_def Suc_1 Suc_le_length_iff)
    let ?rest = "drop 4 (header_bytes h2) @ header_bytes h3 @ concat (map header_bytes hs')"
    have "hdr_magic (header_of (take 8 ?rest)) = vr_decode_u16 (hdr_stream_id h2) (hdr_flags h2)"
      by (simp add: header_of_def header_bytes_def vr_encode_u16_def)
    then have bad: "\<not> header_valid (header_of (take 8 ?rest))"
      using assms(4) hs foreign_magic [of h2] by (simp add: header_valid_iff)
    have "parse_ref parser_zero ?bs packet_zero s = (VR_SUCCESS, parser_zero, ?rest, \<lparr>pkt_header = h, pkt_payload = None\<rparr>, s)"
      using assms(4) hd hs by (simp add: parse_ref_def parser_zero_def packet_zero_def)
    moreover have "parse_ref parser_zero ?rest packet_zero s = (VR_ERROR, parser_zero, drop 12 ?rest, packet_zero, s)"
      using bad by (simp add: parse_ref_def parser_zero_def)
    ultimately show ?thesis by (simp add: parse_run.simps [of parser_zero])
  qed
  have result: "\<exists>conn'. poll_all (poll_fuel conn) conn s = Some (ps, r, conn', s)"
    if "parse_run parser_zero ?bs s = (ps, r, p', rest, s)" for ps r p' rest
    by (rule poll_all_enough [OF assms(1), of s ps r p' rest s]) (use that assms(2,3) in auto)
  show ?thesis using result one three by blast
qed

theorem parser_wire_format_mismatch_witness:
  "\<exists>conn'. poll_all (poll_fuel (conn_reading (concat (map header_bytes
        [sample_header VR_PKT_CONNECT 0 0, sample_header VR_PKT_PING 0 0, sample_header VR_PKT_PING 0 0]))))
      (conn_reading (concat (map header_bytes
        [sample_header VR_PKT_CONNECT 0 0, sample_header VR_PKT_PING 0 0, sample_header VR_PKT_PING 0 0]))) (sys_with 0)
    = Some ([\<lparr>pkt_header = sample_header VR_PKT_CONNECT 0 0, pkt_payload = None\<rparr>], VR_ERROR, conn', sys_with 0)"
proof -
  let ?hs = "[sample_header VR_PKT_CONNECT 0 0, sample_header VR_PKT_PING 0 0, sample_header VR_PKT_PING 0 0]"
  let ?bs = "concat (map header_bytes ?hs)"
  have "length ?bs < 64" by simp
  from conn_reading [OF this]
    parser_wire_format_mismatch [of "conn_reading ?bs" "hd ?hs" "tl ?hs" "sys_with 0"]
  show ?thesis by (simp add: header_valid_iff) (simp add: sample_header_def packet_consts)
qed

end
