(* ===== verification/Velora_Protocol.thy ===== *)
theory Velora_Protocol
  imports Velora_Parser
begin

text \<open>
  \<open>src/protocol/protocol.c\<close>: the server's protocol state machine and the stream bitmap. The bitmap is
  four 64-bit words; stream \<open>i\<close> is bit \<open>i mod 64\<close> of word \<open>i div 64\<close>.
\<close>

section \<open>Data\<close>

text \<open>\<open>vr_protocol_action_t\<close> of \<open>protocol.h\<close>, which no function uses yet.\<close>

record vr_protocol_action_t =
  act_send :: bool
  act_type :: vr_packet_type_t
  act_stream_id :: uint8
  act_flags :: uint32  \<comment> \<open>the enumeration \<open>vr_packet_flag_t\<close>\<close>
  act_payload :: "bytes option"
  act_payload_len :: uint16

section \<open>The stream bitmap\<close>

text \<open>\<open>__builtin_ctzll\<close>: the number of trailing zero bits, undefined at 0.\<close>

definition builtin_ctzll :: "uint64 \<Rightarrow> uint64 option" where
  "builtin_ctzll w = (if w = 0 then None else Some (of_nat (length (takeWhile (\<lambda>i. \<not> bit w i) [0..<64]))))"

text \<open>The search loop of \<open>STREAM_OPEN\<close>: the values of \<open>idx\<close> and \<open>offset\<close> after it, \<open>idx\<close> still \<open>-1\<close>
  when every word is full.\<close>

function stream_scan :: "uint64 list \<Rightarrow> nat \<Rightarrow> (uint64 \<times> nat) option" where
  "stream_scan bitmap offset =
     (if offset < 4 then do {
        w \<leftarrow> mem_get (Some bitmap) offset;
        if w = -1 then stream_scan bitmap (offset + 1)
        else do {
          idx \<leftarrow> builtin_ctzll (NOT w);
          Some (idx, offset)
        }
      } else Some (-1, offset))"
  by pat_completeness auto
termination by (relation "measure (\<lambda>(_, offset). 4 - offset)") auto

declare stream_scan.simps [simp del]

definition stream_open :: "vr_connection_t \<Rightarrow> vr_packet_t \<Rightarrow> (vr_packet_t \<times> vr_connection_t) option" where
  "stream_open conn response = do {
     (idx, offset) \<leftarrow> stream_scan (cn_streams_bitmap conn) 0;
     if idx = -1 then
       Some (response\<lparr>pkt_header := (pkt_header response)\<lparr>hdr_type := VR_PKT_ERROR\<rparr>, pkt_payload := None\<rparr>, conn)
     else do {
       w \<leftarrow> mem_get (Some (cn_streams_bitmap conn)) offset;
       let conn = conn\<lparr>cn_streams_bitmap := (cn_streams_bitmap conn)[offset := w OR push_bit (unat idx) 1],
             cn_active_streams := cn_active_streams conn + 1\<rparr>;
       Some (response\<lparr>pkt_header := (pkt_header response)\<lparr>hdr_type := VR_PKT_STREAM_OPEN_ACK,
             hdr_stream_id := ucast (64 * of_nat offset + idx), hdr_payload_len := 0\<rparr>\<rparr>, conn)
     }
   }"

text \<open>\<open>STREAM_CLOSE\<close>: the response is dropped when no stream is counted as open any more.\<close>

definition stream_close ::
  "vr_connection_t \<Rightarrow> vr_packet_t \<Rightarrow> vr_packet_t \<Rightarrow> sys \<Rightarrow>
     (vr_packet_t option \<times> vr_connection_t \<times> sys) option" where
  "stream_close conn pkt response s = do {
     let bitmap_idx = hdr_stream_id (pkt_header pkt) div 64;
     let bitmap_offset = hdr_stream_id (pkt_header pkt) mod 64;
     let bit_neg = push_bit (unat bitmap_offset) (1 :: uint64);
     w \<leftarrow> mem_get (Some (cn_streams_bitmap conn)) (unat bitmap_idx);
     let conn = conn\<lparr>cn_streams_bitmap := (cn_streams_bitmap conn)[unat bitmap_idx := w AND NOT bit_neg],
           cn_active_streams := cn_active_streams conn - 1\<rparr>;
     if cn_active_streams conn = 0
     then Some (None, conn\<lparr>cn_proto_state := VR_PROTO_CLOSED\<rparr>, c_free (Some response) s)
     else Some (Some response, conn, s)
   }"

section \<open>The state machine\<close>

definition calloc_packet :: "sys \<Rightarrow> vr_packet_t option \<times> sys" where
  "calloc_packet s = (case callocs s of
       [] \<Rightarrow> (Some packet_zero, s\<lparr>blocks := blocks s + 1\<rparr>)
     | ok # cs \<Rightarrow>
         if ok then (Some packet_zero, s\<lparr>callocs := cs, blocks := blocks s + 1\<rparr>)
         else (None, s\<lparr>errno := ENOMEM, callocs := cs\<rparr>))"

text \<open>The \<open>VR_PROTO_INIT\<close> case. The code writes through the result of \<open>calloc\<close> without a test: a
  failed allocation is undefined behaviour.\<close>

definition proto_init ::
  "vr_connection_t \<Rightarrow> vr_packet_t \<Rightarrow> sys \<Rightarrow> (vr_packet_t option \<times> vr_connection_t \<times> sys) option" where
  "proto_init conn pkt s =
     (if hdr_type (pkt_header pkt) = VR_PKT_CONNECT then
        (case calloc_packet s of
           (None, s) \<Rightarrow> None
         | (Some response, s) \<Rightarrow> do {
             let response = response\<lparr>pkt_header := (pkt_header response)\<lparr>hdr_flags := VR_FLAG_NONE,
                   hdr_magic := VR_MAGIC, hdr_payload_len := 0, hdr_stream_id := 0,
                   hdr_type := VR_PKT_CONNECT_ACK, hdr_version := VR_PROTOCOL_VERSION\<rparr>\<rparr>;
             w \<leftarrow> mem_get (Some (cn_streams_bitmap conn)) 0;
             Some (Some response, conn\<lparr>cn_streams_bitmap := (cn_streams_bitmap conn)[0 := w OR 1],
               cn_active_streams := 1, cn_proto_state := VR_PROTO_ESTABILISHED\<rparr>, s)
           })
      else Some (None, conn, s))"

definition proto_connecting :: "vr_connection_t \<Rightarrow> vr_packet_t \<Rightarrow> vr_connection_t" where
  "proto_connecting conn pkt =
     (if hdr_type (pkt_header pkt) = VR_PKT_CONNECT_ACK
      then conn\<lparr>cn_proto_state := VR_PROTO_ESTABILISHED\<rparr> else conn)"

definition proto_estabilished ::
  "vr_connection_t \<Rightarrow> vr_packet_t \<Rightarrow> sys \<Rightarrow> (vr_packet_t option \<times> vr_connection_t \<times> sys) option" where
  "proto_estabilished conn pkt s =
     (case calloc_packet s of
        (None, s) \<Rightarrow> None
      | (Some response, s) \<Rightarrow>
          (let response = response\<lparr>pkt_header := (pkt_header response)\<lparr>hdr_flags := VR_FLAG_NONE,
                 hdr_magic := VR_MAGIC, hdr_stream_id := hdr_stream_id (pkt_header pkt),
                 hdr_version := VR_PROTOCOL_VERSION\<rparr>\<rparr>;
               t = hdr_type (pkt_header pkt)
           in if t = VR_PKT_PING then
                Some (Some (response\<lparr>pkt_header := (pkt_header response)\<lparr>hdr_type := VR_PKT_PONG,
                  hdr_payload_len := 0\<rparr>\<rparr>), conn, s)
              else if t = VR_PKT_STREAM_OPEN then do {
                (response, conn) \<leftarrow> stream_open conn response;
                Some (Some response, conn, s)
              }
              else if t = VR_PKT_STREAM_CLOSE then stream_close conn pkt response s
              else if t = VR_PKT_PUBLISH then Some (None, conn, c_free (Some response) s)
              else if t = VR_PKT_ERROR then Some (None, conn, c_free (Some response) s)
              else Some (Some (response\<lparr>pkt_header := (pkt_header response)\<lparr>hdr_type := VR_PKT_ERROR,
                  hdr_payload_len := 0\<rparr>\<rparr>), conn, s)))"

text \<open>The handler. Null arguments are answered with a null response; the arguments are optional for
  that test alone.\<close>

definition vr_protocol_handle_packet ::
  "vr_connection_t option \<Rightarrow> vr_packet_t option \<Rightarrow> sys \<Rightarrow>
     (vr_packet_t option \<times> vr_connection_t option \<times> sys) option" where
  "vr_protocol_handle_packet conn pkt s =
     (case (conn, pkt) of
        (Some conn, Some pkt) \<Rightarrow>
          (case cn_proto_state conn of
             VR_PROTO_INIT \<Rightarrow> do {
               (response, conn, s) \<leftarrow> proto_init conn pkt s;
               Some (response, Some conn, s)
             }
           | VR_PROTO_CONNECTING \<Rightarrow> Some (None, Some (proto_connecting conn pkt), s)
           | VR_PROTO_ESTABILISHED \<Rightarrow> do {
               (response, conn, s) \<leftarrow> proto_estabilished conn pkt s;
               Some (response, Some conn, s)
             }
           | _ \<Rightarrow> Some (None, Some (conn\<lparr>cn_proto_state := VR_PROTO_INIT\<rparr>), s))
      | _ \<Rightarrow> Some (None, conn, s))"

end
