(* ===== verification/Velora_Protocol_Spec.thy ===== *)
theory Velora_Protocol_Spec
  imports Velora_Protocol
begin

text \<open>
  The protocol against its abstract specification: the stream bitmap as a set of stream ids, and the
  handler as a refinement of \<open>proto_spec\<close>, a state machine over that set.
\<close>

section \<open>The bitmap as a set of stream ids\<close>

definition stream_bits :: "uint64 list \<Rightarrow> nat set" where
  "stream_bits bm = {i. i < 256 \<and> bit (bm ! (i div 64)) (i mod 64)}"

lemma stream_bits_less: "i \<in> stream_bits bm \<Longrightarrow> i < 256"
  by (simp add: stream_bits_def)

lemma finite_stream_bits [simp]: "finite (stream_bits bm)"
  by (rule finite_subset [of _ "{..<256}"]) (auto simp: stream_bits_def)

lemma card_stream_bits: "card (stream_bits bm) \<le> 256"
  using card_mono [of "{..<256}" "stream_bits bm"] by (auto simp: stream_bits_def)

lemma stream_bits_zero [simp]: "stream_bits [0, 0, 0, 0] = {}"
proof -
  have "i div 64 \<in> {0, 1, 2, 3}" if "i < 256" for i :: nat using that by auto
  then show ?thesis by (fastforce simp: stream_bits_def)
qed

lemma div_mod_64: "i = 64 * off + k \<longleftrightarrow> i div 64 = off \<and> i mod 64 = k" if "k < 64" for i off k :: nat
  using that by auto

lemma stream_bits_update:
  assumes "length bm = 4" "off < 4" "k < 64"
  shows "stream_bits (bm[off := bm ! off OR push_bit k 1]) = insert (64 * off + k) (stream_bits bm)"
    and "stream_bits (bm[off := bm ! off AND NOT (push_bit k 1)]) = stream_bits bm - {64 * off + k}"
proof -
  have lt: "64 * off + k < 256" using assms by simp
  have "bit (bm[off := bm ! off OR push_bit k 1] ! (i div 64)) (i mod 64) \<longleftrightarrow>
      i = 64 * off + k \<or> bit (bm ! (i div 64)) (i mod 64)" if "i < 256" for i
    using assms that by (cases "i div 64 = off") (auto simp: div_mod_64 bit_simps nth_list_update)
  then show "stream_bits (bm[off := bm ! off OR push_bit k 1]) = insert (64 * off + k) (stream_bits bm)"
    using lt unfolding stream_bits_def by blast
  have "bit (bm[off := bm ! off AND NOT (push_bit k 1)] ! (i div 64)) (i mod 64) \<longleftrightarrow>
      i \<noteq> 64 * off + k \<and> bit (bm ! (i div 64)) (i mod 64)" if "i < 256" for i
    using assms that by (cases "i div 64 = off") (auto simp: div_mod_64 bit_simps nth_list_update)
  then show "stream_bits (bm[off := bm ! off AND NOT (push_bit k 1)]) = stream_bits bm - {64 * off + k}"
    unfolding stream_bits_def by blast
qed

lemma builtin_ctzll_not:
  assumes "w \<noteq> -1"
  obtains k where "builtin_ctzll (NOT w) = Some (of_nat k)" "k < 64" "\<not> bit w k" "\<forall>j < k. bit w j"
proof -
  let ?P = "\<lambda>i. \<not> bit (NOT w) i" and ?xs = "[0..<64] :: nat list"
  define k where "k = length (takeWhile ?P ?xs)"
  have "\<exists>i < 64. \<not> bit w i"
  proof (rule ccontr)
    assume "\<not> ?thesis"
    then have "w = -1" by (intro bit_word_eqI) (auto simp: bit_simps)
    then show False using assms by simp
  qed
  then have ex: "\<exists>i \<in> set ?xs. \<not> ?P i" by (auto simp: bit_simps)
  have le: "k < 64"
  proof -
    have "takeWhile ?P ?xs \<noteq> ?xs" using ex by (metis set_takeWhileD)
    then show ?thesis using length_takeWhile_le [of ?P ?xs] k_def
      by (metis length_upt minus_nat.diff_0 nat_less_le takeWhile_eq_take take_all order_refl)
  qed
  have at: "bit (NOT w) k" using le nth_length_takeWhile [of ?P ?xs] by (simp add: k_def)
  have before: "\<not> bit (NOT w) j" if "j < k" for j
  proof -
    have "?P (takeWhile ?P ?xs ! j)" using that nth_mem set_takeWhileD k_def by metis
    then show ?thesis using that le by (simp add: takeWhile_nth k_def)
  qed
  have "NOT w \<noteq> 0" using at by auto
  show ?thesis
  proof (rule that [of k])
    show "builtin_ctzll (NOT w) = Some (of_nat k)" using \<open>NOT w \<noteq> 0\<close> by (simp add: builtin_ctzll_def k_def)
    show "k < 64" by (rule le)
    show "\<not> bit w k" using at by (simp add: bit_simps)
    show "\<forall>j < k. bit w j" using before le by (auto simp: bit_simps)
  qed
qed

lemma stream_scan_spec:
  assumes "length bm = 4" "off \<le> 4" "\<forall>j < 64 * off. j \<in> stream_bits bm"
  shows "if stream_bits bm = {..<256} then stream_scan bm off = Some (-1, 4)
    else \<exists>k o'. stream_scan bm off = Some (of_nat k, o') \<and> o' < 4 \<and> k < 64 \<and>
      64 * o' + k \<notin> stream_bits bm \<and> (\<forall>j < 64 * o' + k. j \<in> stream_bits bm)"
  using assms
proof (induction bm off rule: stream_scan.induct)
  case (1 bm off)
  show ?case
  proof (cases "off < 4")
    case False
    then have "stream_bits bm = {..<256}" using "1.prems" by (auto simp: stream_bits_less)
    then show ?thesis using False "1.prems" by (simp add: stream_scan.simps)
  next
    case True
    have bit: "64 * off + k \<in> stream_bits bm \<longleftrightarrow> bit (bm ! off) k" if "k < 64" for k
      using True that by (simp add: stream_bits_def)
    show ?thesis
    proof (cases "bm ! off = -1")
      case full: True
      have "j \<in> stream_bits bm" if "j < 64 * (off + 1)" for j
        using "1.prems"(3) bit [of "j - 64 * off"] full that
        by (cases "j < 64 * off") (auto simp: bit_simps)
      moreover have "stream_scan bm off = stream_scan bm (off + 1)"
        using True full "1.prems"(1) by (subst stream_scan.simps) (simp add: block_simps)
      ultimately show ?thesis
        using "1.IH" [of "bm ! off"] True full "1.prems"(1)
        by (simp add: block_simps split: if_splits)
    next
      case False
      obtain k where k: "builtin_ctzll (NOT (bm ! off)) = Some (of_nat k)" "k < 64"
          "\<not> bit (bm ! off) k" "\<forall>j < k. bit (bm ! off) j"
        by (rule builtin_ctzll_not [OF False])
      have nin: "64 * off + k \<notin> stream_bits bm" using bit k(2,3) by simp
      have below: "j \<in> stream_bits bm" if "j < 64 * off + k" for j
      proof (cases "j < 64 * off")
        case True
        then show ?thesis using "1.prems"(3) by blast
      next
        case ge: False
        have "j - 64 * off < k" using ge that by arith
        then show ?thesis using bit [of "j - 64 * off"] k(2,4) ge by simp
      qed
      have "64 * off + k \<in> {..<256}" using True k(2) by simp
      then have "stream_bits bm \<noteq> {..<256}" using nin by metis
      moreover have "stream_scan bm off = Some (of_nat k, off)"
        using True False k(1) "1.prems"(1) by (subst stream_scan.simps) (simp add: block_simps)
      ultimately show ?thesis using below nin True k(2) by (simp only: if_False) blast
    qed
  qed
qed

lemma of_nat_neq_minus_1: "k < 64 \<Longrightarrow> (of_nat k :: uint64) \<noteq> -1"
  by (simp add: word_unat_eq_iff unat_of_nat unsigned_minus_1_eq_mask mask_eq_exp_minus_1)

lemma stream_id_cast:
  assumes "o' < 4" "k < 64"
  shows "unat (ucast (64 * of_nat o' + of_nat k :: uint64) :: uint8) = 64 * o' + k"
proof -
  have "64 * of_nat o' + of_nat k = (of_nat (64 * o' + k) :: uint64)" by simp
  moreover have "unat (of_nat (64 * o' + k) :: uint64) = 64 * o' + k"
    using assms by (simp only: unat_of_nat) simp
  ultimately show ?thesis
    using assms by (simp only: unsigned_ucast_eq) (simp add: take_bit_eq_mod)
qed

section \<open>Opening and closing streams\<close>

definition open_streams :: "vr_connection_t \<Rightarrow> nat set" where
  "open_streams c = stream_bits (cn_streams_bitmap c)"

definition bitmap_ok :: "vr_connection_t \<Rightarrow> bool" where
  "bitmap_ok c \<longleftrightarrow> length (cn_streams_bitmap c) = 4"

lemma stream_open_full:
  assumes "bitmap_ok c" "open_streams c = {..<256}"
  shows "stream_open c r = Some (r\<lparr>pkt_header := (pkt_header r)\<lparr>hdr_type := VR_PKT_ERROR\<rparr>, pkt_payload := None\<rparr>, c)"
  using stream_scan_spec [of "cn_streams_bitmap c" 0] assms
  by (simp add: stream_open_def bitmap_ok_def open_streams_def)

lemma stream_open_free:
  assumes "bitmap_ok c" "open_streams c \<noteq> {..<256}"
  obtains bm sid where "\<forall>r. stream_open c r = Some (r\<lparr>pkt_header := (pkt_header r)\<lparr>hdr_type := VR_PKT_STREAM_OPEN_ACK,
        hdr_stream_id := sid, hdr_payload_len := 0\<rparr>\<rparr>,
      c\<lparr>cn_streams_bitmap := bm, cn_active_streams := cn_active_streams c + 1\<rparr>)"
    "length bm = 4" "unat sid = (LEAST i. i \<notin> open_streams c)" "unat sid \<notin> open_streams c"
    "stream_bits bm = insert (unat sid) (open_streams c)"
proof -
  let ?bm = "cn_streams_bitmap c"
  obtain k o' where k: "stream_scan ?bm 0 = Some (of_nat k, o')" "o' < 4" "k < 64"
      "64 * o' + k \<notin> stream_bits ?bm" "\<forall>j < 64 * o' + k. j \<in> stream_bits ?bm"
    using stream_scan_spec [of ?bm 0] assms by (auto simp: bitmap_ok_def open_streams_def)
  let ?sid = "ucast (64 * of_nat o' + of_nat k :: uint64) :: uint8"
  have sid: "unat ?sid = 64 * o' + k" by (rule stream_id_cast [OF k(2,3)])
  have least: "(LEAST i. i \<notin> open_streams c) = 64 * o' + k"
    using k(4,5) by (intro Least_equality) (auto simp: open_streams_def not_less [symmetric])
  have len: "length ?bm = 4" using assms(1) by (simp add: bitmap_ok_def)
  show ?thesis
  proof (rule that [of ?sid "?bm[o' := ?bm ! o' OR push_bit k 1]"])
    show "\<forall>r. stream_open c r = Some (r\<lparr>pkt_header := (pkt_header r)\<lparr>hdr_type := VR_PKT_STREAM_OPEN_ACK,
        hdr_stream_id := ?sid, hdr_payload_len := 0\<rparr>\<rparr>,
      c\<lparr>cn_streams_bitmap := ?bm[o' := ?bm ! o' OR push_bit k 1], cn_active_streams := cn_active_streams c + 1\<rparr>)"
      using k(1-3) len of_nat_neq_minus_1 [OF k(3)]
      by (simp add: stream_open_def block_simps unat_of_nat)
  qed (use len sid least k stream_bits_update(1) [OF len k(2,3)] in \<open>simp_all add: open_streams_def\<close>)
qed

lemma stream_close_spec:
  assumes "bitmap_ok c"
  obtains bm where "length bm = 4" "stream_bits bm = open_streams c - {unat (hdr_stream_id (pkt_header pkt))}"
    "stream_close c pkt r s =
       (let c' = c\<lparr>cn_streams_bitmap := bm, cn_active_streams := cn_active_streams c - 1\<rparr>
        in if cn_active_streams c' = 0 then Some (None, c'\<lparr>cn_proto_state := VR_PROTO_CLOSED\<rparr>, c_free (Some r) s)
           else Some (Some r, c', s))"
proof -
  let ?bm = "cn_streams_bitmap c" and ?sid = "hdr_stream_id (pkt_header pkt)"
  have len: "length ?bm = 4" using assms(1) by (simp add: bitmap_ok_def)
  have d: "unat (?sid div 64) = unat ?sid div 64" "unat (?sid mod 64) = unat ?sid mod 64"
    by (simp_all add: unat_div unat_mod)
  have lt: "unat ?sid div 64 < 4" "unat ?sid mod 64 < 64"
    using unat8_less [of ?sid] by (simp_all del: unat8_less)
  show ?thesis
  proof (rule that)
    show "length (?bm[unat ?sid div 64 := ?bm ! (unat ?sid div 64) AND NOT (push_bit (unat ?sid mod 64) 1)]) = 4"
      using len by simp
    show "stream_bits (?bm[unat ?sid div 64 := ?bm ! (unat ?sid div 64) AND NOT (push_bit (unat ?sid mod 64) 1)])
        = open_streams c - {unat ?sid}"
      using stream_bits_update(2) [OF len lt] by (simp add: open_streams_def)
  qed (use len lt in \<open>simp add: stream_close_def Let_def block_simps d\<close>)
qed


section \<open>The abstract protocol\<close>

text \<open>
  What the server promises a peer, over the set of open stream ids: \<open>proto_spec\<close> maps the protocol
  state, the open streams, the count the code keeps, and a packet's type and stream id to the next
  state and the type and stream id of the reply.
\<close>

type_synonym proto_abs = "vr_protocol_state_t \<times> nat set \<times> uint8"

definition proto_spec ::
  "proto_abs \<Rightarrow> vr_packet_type_t \<Rightarrow> uint8 \<Rightarrow> proto_abs \<times> (vr_packet_type_t \<times> uint8) option" where
  "proto_spec a t sid = (case a of (st, S, n) \<Rightarrow>
     (case st of
        VR_PROTO_INIT \<Rightarrow>
          if t = VR_PKT_CONNECT then ((VR_PROTO_ESTABILISHED, insert 0 S, 1), Some (VR_PKT_CONNECT_ACK, 0))
          else (a, None)
      | VR_PROTO_CONNECTING \<Rightarrow>
          (if t = VR_PKT_CONNECT_ACK then (VR_PROTO_ESTABILISHED, S, n) else a, None)
      | VR_PROTO_CLOSED \<Rightarrow> ((VR_PROTO_INIT, S, n), None)
      | VR_PROTO_ESTABILISHED \<Rightarrow>
          if t = VR_PKT_PING then (a, Some (VR_PKT_PONG, sid))
          else if t = VR_PKT_STREAM_OPEN then
            if S = {..<256} then (a, Some (VR_PKT_ERROR, sid))
            else (let i = LEAST i. i \<notin> S
                  in ((st, insert i S, n + 1), Some (VR_PKT_STREAM_OPEN_ACK, of_nat i)))
          else if t = VR_PKT_STREAM_CLOSE then
            if n = 1 then ((VR_PROTO_CLOSED, S - {unat sid}, 0), None)
            else ((st, S - {unat sid}, n - 1), Some (0, sid))
          else if t = VR_PKT_PUBLISH \<or> t = VR_PKT_ERROR then (a, None)
          else (a, Some (VR_PKT_ERROR, sid))))"

definition proto_abs :: "vr_connection_t \<Rightarrow> proto_abs" where
  "proto_abs c = (cn_proto_state c, open_streams c, cn_active_streams c)"

definition reply_packet :: "vr_packet_type_t \<times> uint8 \<Rightarrow> vr_packet_t" where
  "reply_packet = (\<lambda>(t, sid). \<lparr>pkt_header = \<lparr>hdr_magic = VR_MAGIC, hdr_version = VR_PROTOCOL_VERSION,
     hdr_type = t, hdr_stream_id = sid, hdr_flags = VR_FLAG_NONE, hdr_payload_len = 0\<rparr>, pkt_payload = None\<rparr>)"

text \<open>Only the protocol's own fields of the connection change.\<close>

definition proto_frame :: "vr_connection_t \<Rightarrow> vr_connection_t \<Rightarrow> bool" where
  "proto_frame c c' \<longleftrightarrow> c' = c\<lparr>cn_proto_state := cn_proto_state c',
     cn_active_streams := cn_active_streams c', cn_streams_bitmap := cn_streams_bitmap c'\<rparr>"

definition handle_refines ::
  "vr_connection_t \<Rightarrow> sys \<Rightarrow> (vr_packet_t option \<times> vr_connection_t \<times> sys) option \<Rightarrow>
     proto_abs \<times> (vr_packet_type_t \<times> uint8) option \<Rightarrow> bool" where
  "handle_refines c s res spec \<longleftrightarrow> (\<exists>c' s'. res = Some (map_option reply_packet (snd spec), c', s') \<and>
     proto_abs c' = fst spec \<and> bitmap_ok c' \<and> proto_frame c c' \<and> heap_frame s s' \<and>
     blocks s' = blocks s + of_bool (snd spec \<noteq> None))"

lemma calloc_packet_ok:
  assumes "replies_ok s"
  obtains s' where "calloc_packet s = (Some packet_zero, s')" "heap_frame s s'" "blocks s' = blocks s + 1"
  using assms by (cases s; cases "callocs s") (auto simp: calloc_packet_def heap_frame_def replies_ok_def)

lemma proto_init_refines:
  assumes "bitmap_ok c" "replies_ok s" "cn_proto_state c = VR_PROTO_INIT"
  shows "handle_refines c s (proto_init c pkt s)
    (proto_spec (proto_abs c) (hdr_type (pkt_header pkt)) (hdr_stream_id (pkt_header pkt)))"
proof -
  obtain s' where s': "calloc_packet s = (Some packet_zero, s')" "heap_frame s s'" "blocks s' = blocks s + 1"
    by (rule calloc_packet_ok [OF assms(2)])
  have len: "length (cn_streams_bitmap c) = 4" using assms(1) by (simp add: bitmap_ok_def)
  have "stream_bits ((cn_streams_bitmap c)[0 := cn_streams_bitmap c ! 0 OR 1]) = insert 0 (open_streams c)"
    using stream_bits_update(1) [OF len, of 0 0] by (simp add: open_streams_def)
  then show ?thesis using assms s' len
    by (cases c) (auto simp: handle_refines_def proto_init_def proto_spec_def proto_abs_def block_simps
        bitmap_ok_def proto_frame_def open_streams_def reply_packet_def packet_zero_def header_zero_def)
qed

lemma proto_estabilished_refines:
  assumes "bitmap_ok c" "replies_ok s" "cn_proto_state c = VR_PROTO_ESTABILISHED"
  shows "handle_refines c s (proto_estabilished c pkt s)
    (proto_spec (proto_abs c) (hdr_type (pkt_header pkt)) (hdr_stream_id (pkt_header pkt)))"
proof -
  let ?t = "hdr_type (pkt_header pkt)" and ?sid = "hdr_stream_id (pkt_header pkt)"
  obtain s' where s': "calloc_packet s = (Some packet_zero, s')" "heap_frame s s'" "blocks s' = blocks s + 1"
    by (rule calloc_packet_ok [OF assms(2)])
  note [simp] = handle_refines_def proto_estabilished_def proto_spec_def proto_abs_def block_simps
    bitmap_ok_def proto_frame_def open_streams_def reply_packet_def packet_zero_def header_zero_def
  have freed: "heap_frame s (c_free (Some r) s') \<and> blocks (c_free (Some r) s') = blocks s" for r :: vr_packet_t
    using heap_frame_trans [OF s'(2) heap_frame_free] s'(3) by (simp add: blocks_free)
  consider (opn) "?t = VR_PKT_STREAM_OPEN" | (cls) "?t = VR_PKT_STREAM_CLOSE"
    | (other) "?t \<noteq> VR_PKT_STREAM_OPEN" "?t \<noteq> VR_PKT_STREAM_CLOSE" by blast
  then show ?thesis
  proof cases
    case opn
    then have t: "?t \<noteq> VR_PKT_PING" by (simp add: packet_consts)
    show ?thesis
    proof (cases "open_streams c = {..<256}")
      case True
      then show ?thesis using stream_open_full [OF assms(1) True] s' opn t assms(1,3)
        by (cases c) simp
    next
      case False
      obtain bm sid where o: "\<forall>r. stream_open c r = Some (r\<lparr>pkt_header := (pkt_header r)\<lparr>hdr_type := VR_PKT_STREAM_OPEN_ACK,
            hdr_stream_id := sid, hdr_payload_len := 0\<rparr>\<rparr>,
          c\<lparr>cn_streams_bitmap := bm, cn_active_streams := cn_active_streams c + 1\<rparr>)"
        "length bm = 4" "unat sid = (LEAST i. i \<notin> open_streams c)" "stream_bits bm = insert (unat sid) (open_streams c)"
        by (rule stream_open_free [OF assms(1) False]) blast
      have "of_nat (LEAST i. i \<notin> open_streams c) = sid" using o(3) by (metis of_nat_unat ucast_id)
      then show ?thesis using o False s' opn t assms(1,3)
        by (cases c) (simp add: Let_def)
    qed
  next
    case cls
    then have t: "?t \<noteq> VR_PKT_PING" "?t \<noteq> VR_PKT_STREAM_OPEN" by (simp_all add: packet_consts)
    let ?r = "packet_zero\<lparr>pkt_header := header_zero\<lparr>hdr_flags := VR_FLAG_NONE, hdr_magic := VR_MAGIC,
      hdr_stream_id := ?sid, hdr_version := VR_PROTOCOL_VERSION\<rparr>\<rparr>"
    obtain bm where bm: "length bm = 4" "stream_bits bm = open_streams c - {unat ?sid}"
        "stream_close c pkt ?r s' =
           (let c' = c\<lparr>cn_streams_bitmap := bm, cn_active_streams := cn_active_streams c - 1\<rparr>
            in if cn_active_streams c' = 0 then Some (None, c'\<lparr>cn_proto_state := VR_PROTO_CLOSED\<rparr>, c_free (Some ?r) s')
               else Some (Some ?r, c', s'))"
      by (rule stream_close_spec [OF assms(1)])
    then show ?thesis using s' freed cls t assms(1,3)
      by (cases c) (auto simp: Let_def)
  next
    case other
    then show ?thesis using assms s' freed
      by (cases c) (auto simp: packet_consts)
  qed
qed

lemma handle_refines:
  assumes "bitmap_ok c" "replies_ok s"
  obtains c' s' where
    "vr_protocol_handle_packet (Some c) (Some pkt) s = Some (map_option reply_packet (snd
       (proto_spec (proto_abs c) (hdr_type (pkt_header pkt)) (hdr_stream_id (pkt_header pkt)))), Some c', s')"
    "proto_abs c' = fst (proto_spec (proto_abs c) (hdr_type (pkt_header pkt)) (hdr_stream_id (pkt_header pkt)))"
    "bitmap_ok c'" "proto_frame c c'" "heap_frame s s'"
    "blocks s' = blocks s + of_bool (snd (proto_spec (proto_abs c) (hdr_type (pkt_header pkt))
       (hdr_stream_id (pkt_header pkt))) \<noteq> None)"
proof -
  let ?spec = "proto_spec (proto_abs c) (hdr_type (pkt_header pkt)) (hdr_stream_id (pkt_header pkt))"
  have "\<exists>res. handle_refines c s res ?spec \<and>
      vr_protocol_handle_packet (Some c) (Some pkt) s = map_option (\<lambda>(r, c, s). (r, Some c, s)) res"
  proof (cases "cn_proto_state c")
    case VR_PROTO_INIT
    then show ?thesis using proto_init_refines [OF assms, of pkt]
      by (intro exI [of _ "proto_init c pkt s"])
        (auto simp: vr_protocol_handle_packet_def map_option_case split: option.split)
  next
    case VR_PROTO_ESTABILISHED
    then show ?thesis using proto_estabilished_refines [OF assms, of pkt]
      by (intro exI [of _ "proto_estabilished c pkt s"])
        (auto simp: vr_protocol_handle_packet_def map_option_case split: option.split)
  next
    case VR_PROTO_CONNECTING
    then show ?thesis using assms(1)
      by (intro exI [of _ "Some (None, proto_connecting c pkt, s)"])
        (cases c, auto simp: vr_protocol_handle_packet_def proto_connecting_def handle_refines_def
          proto_spec_def proto_abs_def bitmap_ok_def proto_frame_def open_streams_def)
  next
    case VR_PROTO_CLOSED
    then show ?thesis using assms(1)
      by (intro exI [of _ "Some (None, c\<lparr>cn_proto_state := VR_PROTO_INIT\<rparr>, s)"])
        (cases c, auto simp: vr_protocol_handle_packet_def handle_refines_def
          proto_spec_def proto_abs_def bitmap_ok_def proto_frame_def open_streams_def)
  qed
  then show ?thesis using that by (auto simp: handle_refines_def)
qed

end
