(* ===== verification/Velora_Protocol_Theorems.thy ===== *)
theory Velora_Protocol_Theorems
  imports Velora_Protocol_Spec
begin

text \<open>
  The properties of the protocol: the handler refines the abstract state machine, stream ids are
  handed out like the ids of a pool, the stream count and the state agree as long as the peer closes
  only streams that are open, and what happens when it does not.
\<close>

section \<open>Pools of identifiers\<close>

text \<open>The contract of a pool of the ids below \<open>limit\<close>: an id handed out is the least free one.\<close>

locale id_pool =
  fixes ok :: "'p \<Rightarrow> bool" and used :: "'p \<Rightarrow> nat set" and limit :: nat
    and acquire :: "'p \<Rightarrow> (nat option \<times> 'p) option" and release :: "nat \<Rightarrow> 'p \<Rightarrow> 'p option"
  assumes bounded: "ok p \<Longrightarrow> used p \<subseteq> {..<limit}"
    and acquire_full: "ok p \<Longrightarrow> used p = {..<limit} \<Longrightarrow> acquire p = Some (None, p)"
    and acquire_free: "ok p \<Longrightarrow> used p \<noteq> {..<limit} \<Longrightarrow>
      \<exists>p'. acquire p = Some (Some (LEAST i. i \<notin> used p), p') \<and> ok p' \<and>
        used p' = insert (LEAST i. i \<notin> used p) (used p)"
    and release: "ok p \<Longrightarrow> i < limit \<Longrightarrow> \<exists>p'. release i p = Some p' \<and> ok p' \<and> used p' = used p - {i}"

primrec acquire_n :: "('p \<Rightarrow> (nat option \<times> 'p) option) \<Rightarrow> nat \<Rightarrow> 'p \<Rightarrow> (nat list \<times> 'p) option" where
  "acquire_n acq 0 p = Some ([], p)"
| "acquire_n acq (Suc n) p = do {
     (i, p) \<leftarrow> acq p;
     case i of
       None \<Rightarrow> Some ([], p)
     | Some i \<Rightarrow> do {
         (is, p) \<leftarrow> acquire_n acq n p;
         Some (i # is, p)
       }
   }"

context id_pool
begin

lemma least_free:
  assumes "ok p" "used p \<noteq> {..<limit}"
  shows "(LEAST i. i \<notin> used p) \<notin> used p" "(LEAST i. i \<notin> used p) < limit"
proof -
  obtain i where i: "i < limit" "i \<notin> used p" using assms bounded by blast
  then show "(LEAST i. i \<notin> used p) \<notin> used p" by (metis LeastI)
  show "(LEAST i. i \<notin> used p) < limit" using i Least_le [of "\<lambda>i. i \<notin> used p" i] by simp
qed

lemma finite_used: "ok p \<Longrightarrow> finite (used p)"
  by (rule finite_subset [OF bounded]) auto

text \<open>Ids taken in a row are fresh and pairwise distinct, as long as there is room.\<close>

lemma acquire_n_distinct:
  assumes "ok p" "card (used p) + n \<le> limit"
  shows "\<exists>is p'. acquire_n acquire n p = Some (is, p') \<and> length is = n \<and> distinct is \<and>
    set is \<inter> used p = {} \<and> used p' = used p \<union> set is \<and> ok p'"
  using assms
proof (induction n arbitrary: p)
  case 0
  then show ?case by simp
next
  case (Suc n)
  let ?i = "LEAST i. i \<notin> used p"
  have "card (used p) < limit" using Suc.prems(2) by simp
  then have free: "used p \<noteq> {..<limit}" by (metis card_lessThan less_irrefl)
  obtain p1 where p1: "acquire p = Some (Some ?i, p1)" "ok p1" "used p1 = insert ?i (used p)"
    using acquire_free [OF Suc.prems(1) free] by blast
  note fresh = least_free [OF Suc.prems(1) free]
  have "card (used p1) + n \<le> limit"
    using Suc.prems(2) p1(3) fresh(1) finite_used [OF Suc.prems(1)] by simp
  from Suc.IH [OF p1(2) this] obtain "is" p2 where
    "acquire_n acquire n p1 = Some (is, p2)" "length is = n" "distinct is"
    "set is \<inter> used p1 = {}" "used p2 = used p1 \<union> set is" "ok p2" by blast
  then show ?case using p1 fresh(1) by (intro exI [of _ "?i # is"] exI [of _ p2]) auto
qed

text \<open>A released id is the next one handed out, unless a smaller one was free.\<close>

lemma acquire_after_release:
  assumes "ok p" "i \<in> used p"
  shows "\<exists>p' p'' j. release i p = Some p' \<and> acquire p' = Some (Some j, p'') \<and> j \<le> i"
proof -
  have "i < limit" using assms bounded by blast
  then obtain p' where p': "release i p = Some p'" "ok p'" "used p' = used p - {i}"
    using release [OF assms(1)] by blast
  then have free: "i \<notin> used p'" by simp
  then have "used p' \<noteq> {..<limit}" using \<open>i < limit\<close> by blast
  moreover have "(LEAST j. j \<notin> used p') \<le> i" using free by (rule Least_le)
  ultimately show ?thesis using acquire_free [OF p'(2)] p'(1) by blast
qed

end

text \<open>The code's bitmap is such a pool: \<open>STREAM_OPEN\<close> takes an id, \<open>STREAM_CLOSE\<close> gives it back.\<close>

definition stream_acquire :: "vr_connection_t \<Rightarrow> (nat option \<times> vr_connection_t) option" where
  "stream_acquire c = do {
     (r, c) \<leftarrow> stream_open c packet_zero;
     Some (if hdr_type (pkt_header r) = VR_PKT_STREAM_OPEN_ACK
           then Some (unat (hdr_stream_id (pkt_header r))) else None, c)
   }"

definition stream_release :: "nat \<Rightarrow> vr_connection_t \<Rightarrow> vr_connection_t option" where
  "stream_release i c = do {
     (_, c, _) \<leftarrow> stream_close c (packet_zero\<lparr>pkt_header := header_zero\<lparr>hdr_stream_id := of_nat i\<rparr>\<rparr>)
       packet_zero (sys_with 0);
     Some c
   }"

lemma stream_acquire_full:
  assumes "bitmap_ok c" "open_streams c = {..<256}"
  shows "stream_acquire c = Some (None, c)"
  using stream_open_full [OF assms, of packet_zero] by (simp add: stream_acquire_def packet_consts)

lemma stream_acquire_free:
  assumes "bitmap_ok c" "open_streams c \<noteq> {..<256}"
  shows "\<exists>c'. stream_acquire c = Some (Some (LEAST i. i \<notin> open_streams c), c') \<and> bitmap_ok c' \<and>
    open_streams c' = insert (LEAST i. i \<notin> open_streams c) (open_streams c)"
  by (rule stream_open_free [OF assms])
    (simp add: stream_acquire_def bitmap_ok_def open_streams_def)

lemma stream_release_spec:
  assumes "bitmap_ok c" "i < 256"
  shows "\<exists>c'. stream_release i c = Some c' \<and> bitmap_ok c' \<and> open_streams c' = open_streams c - {i}"
proof -
  let ?p = "packet_zero\<lparr>pkt_header := header_zero\<lparr>hdr_stream_id := of_nat i\<rparr>\<rparr>"
  have "unat (hdr_stream_id (pkt_header ?p)) = i" using assms(2) by (simp add: unat_of_nat)
  then show ?thesis
    by (rule_tac stream_close_spec [OF assms(1), of ?p packet_zero "sys_with 0"])
      (simp add: stream_release_def Let_def bitmap_ok_def open_streams_def)
qed

interpretation streams: id_pool bitmap_ok open_streams 256 stream_acquire stream_release
proof
  show "open_streams c \<subseteq> {..<256}" for c
    using stream_bits_less by (auto simp: open_streams_def)
qed (fact stream_acquire_full stream_acquire_free stream_release_spec)+

section \<open>Sample connections\<close>

definition type_packet :: "vr_packet_type_t \<Rightarrow> uint8 \<Rightarrow> vr_packet_t" where
  "type_packet t sid = packet_zero\<lparr>pkt_header := header_zero\<lparr>hdr_type := t, hdr_stream_id := sid\<rparr>\<rparr>"

lemma type_packet [simp]:
  "hdr_type (pkt_header (type_packet t sid)) = t" "hdr_stream_id (pkt_header (type_packet t sid)) = sid"
  by (simp_all add: type_packet_def)

text \<open>A connection as the first \<open>CONNECT\<close> leaves it: stream 0 is open.\<close>

definition conn_established :: vr_connection_t where
  "conn_established = connection_zero\<lparr>cn_proto_state := VR_PROTO_ESTABILISHED, cn_active_streams := 1,
     cn_streams_bitmap := [1, 0, 0, 0]\<rparr>"

lemma conn_established [simp]:
  "bitmap_ok conn_established" "open_streams conn_established = {0}"
  "cn_proto_state conn_established = VR_PROTO_ESTABILISHED" "cn_active_streams conn_established = 1"
proof -
  show "open_streams conn_established = {0}"
    using stream_bits_update(1) [of "[0, 0, 0, 0]" 0 0]
    by (simp add: conn_established_def open_streams_def)
qed (simp_all add: conn_established_def bitmap_ok_def)

lemma bitmap_ok_zero [simp]: "bitmap_ok connection_zero"
  by (simp add: bitmap_ok_def connection_zero_def)

lemma open_streams_zero [simp]: "open_streams connection_zero = {}"
  by (simp add: open_streams_def connection_zero_def)

section \<open>Properties\<close>

text \<open>C9. With memory for the reply, \<open>vr_protocol_handle_packet\<close> is total and implements the abstract
  state machine on the set of open streams in every state and for every packet type: the new state,
  the stream set and the count are the specified ones, the reply has the specified type and stream id,
  carries no payload and has valid magic, version and flags, nothing else of the connection changes,
  and exactly the reply returned stays allocated.\<close>

theorem protocol_refines_spec:
  assumes "bitmap_ok c" "replies_ok s"
  shows "case proto_spec (proto_abs c) (hdr_type (pkt_header pkt)) (hdr_stream_id (pkt_header pkt)) of
      (a', reply) \<Rightarrow> \<exists>c' s'.
        vr_protocol_handle_packet (Some c) (Some pkt) s = Some (map_option reply_packet reply, Some c', s') \<and>
        proto_abs c' = a' \<and> bitmap_ok c' \<and> proto_frame c c' \<and> heap_frame s s' \<and>
        blocks s' = blocks s + of_bool (reply \<noteq> None)"
  by (rule handle_refines [OF assms, of pkt]) (simp split: prod.split)

theorem protocol_refines_spec_witness:
  "\<exists>c' s'. vr_protocol_handle_packet (Some conn_established) (Some (type_packet VR_PKT_STREAM_OPEN 9)) (sys_with 1)
      = Some (Some (reply_packet (VR_PKT_STREAM_OPEN_ACK, 1)), Some c', s') \<and>
    proto_abs c' = (VR_PROTO_ESTABILISHED, {0, 1}, 2)"
proof -
  have "(LEAST i. i \<noteq> (0::nat)) = 1" by (rule Least_equality) auto
  moreover have "{0} \<noteq> {..<256::nat}" by (metis card_lessThan card.empty card_insert_disjoint
      empty_iff finite.emptyI numeral_eq_one_iff One_nat_def semiring_norm(85))
  ultimately have "proto_spec (proto_abs conn_established) VR_PKT_STREAM_OPEN 9
      = ((VR_PROTO_ESTABILISHED, {0, 1}, 2), Some (VR_PKT_STREAM_OPEN_ACK, 1))"
    by (simp add: proto_spec_def proto_abs_def packet_consts insert_commute)
  with protocol_refines_spec [of conn_established "sys_with 1" "type_packet VR_PKT_STREAM_OPEN 9"]
  show ?thesis by auto
qed

text \<open>Streams opened in a row get fresh, pairwise distinct ids: with room for \<open>n\<close> more streams,
  \<open>n\<close> runs of the \<open>STREAM_OPEN\<close> branch return \<open>n\<close> different ids, none of them open before, and exactly
  these are open afterwards in addition.\<close>

theorem protocol_streams_distinct:
  assumes "bitmap_ok c" "card (open_streams c) + n \<le> 256"
  shows "\<exists>is c'. acquire_n stream_acquire n c = Some (is, c') \<and> length is = n \<and> distinct is \<and>
    set is \<inter> open_streams c = {} \<and> open_streams c' = open_streams c \<union> set is \<and> bitmap_ok c'"
  by (rule streams.acquire_n_distinct [OF assms])

theorem protocol_streams_distinct_witness:
  "\<exists>is c'. acquire_n stream_acquire 255 conn_established = Some (is, c') \<and> length is = 255 \<and> distinct is \<and>
    0 \<notin> set is"
  using protocol_streams_distinct [of conn_established 255] by auto

text \<open>The protocol states a connection goes through while its peer closes only streams that are open.\<close>

definition polite :: "vr_connection_t \<Rightarrow> vr_packet_t \<Rightarrow> bool" where
  "polite c pkt \<longleftrightarrow> (hdr_type (pkt_header pkt) = VR_PKT_STREAM_CLOSE \<longrightarrow>
     unat (hdr_stream_id (pkt_header pkt)) \<in> open_streams c)"

inductive polite_run :: "vr_connection_t \<Rightarrow> bool" where
  polite_start: "polite_run connection_zero"
| polite_step: "polite_run c \<Longrightarrow> polite c pkt \<or> cn_proto_state c \<noteq> VR_PROTO_ESTABILISHED \<Longrightarrow> replies_ok s \<Longrightarrow>
    vr_protocol_handle_packet (Some c) (Some pkt) s = Some (r, Some c', s') \<Longrightarrow> polite_run c'"

text \<open>The invariant, on the abstract state.\<close>

definition streams_agree :: "proto_abs \<Rightarrow> bool" where
  "streams_agree a = (case a of (st, S, n) \<Rightarrow> S \<subseteq> {..<256} \<and> n = of_nat (card S) \<and>
     st \<noteq> VR_PROTO_CONNECTING \<and> (st = VR_PROTO_ESTABILISHED \<longleftrightarrow> S \<noteq> {}))"

lemma of_nat_eq_1_uint8: "n \<le> 256 \<Longrightarrow> (of_nat n :: uint8) = 1 \<longleftrightarrow> n = 1"
proof -
  assume "n \<le> 256"
  moreover have "(of_nat n :: uint8) = 1 \<longleftrightarrow> n mod 256 = 1"
    unfolding word_unat_eq_iff [of "of_nat n"] unat_of_nat by simp
  ultimately show ?thesis by (cases "n = 256") simp_all
qed

lemma streams_agree_close:
  assumes "S \<subseteq> {..<256 :: nat}" "n = of_nat (card S)" "i \<in> S"
  shows "if n = 1 then S - {i} = {} else S - {i} \<noteq> {} \<and> n - 1 = (of_nat (card (S - {i})) :: uint8)"
proof -
  have fin: "finite S" using assms(1) finite_subset by blast
  have le: "card S \<le> 256" using card_mono [OF _ assms(1)] by simp
  have c: "card S = Suc (card (S - {i}))" using fin assms(3) by (metis card_Suc_Diff1)
  then have "n - 1 = of_nat (card (S - {i}))" using assms(2) by simp
  moreover have "n = 1 \<longleftrightarrow> card (S - {i}) = 0" using of_nat_eq_1_uint8 [OF le] assms(2) c by simp
  moreover have "card (S - {i}) = 0 \<longleftrightarrow> S - {i} = {}" using fin by simp
  ultimately show ?thesis by auto
qed

lemma least_not_in:
  assumes "S \<subseteq> {..<256}" "S \<noteq> {..<256::nat}"
  shows "(LEAST i. i \<notin> S) \<notin> S" "(LEAST i. i \<notin> S) < 256"
proof -
  obtain i where i: "i < 256" "i \<notin> S" using assms by blast
  then show "(LEAST i. i \<notin> S) \<notin> S" by (metis LeastI)
  show "(LEAST i. i \<notin> S) < 256" using i Least_le [of "\<lambda>i. i \<notin> S" i] by simp
qed

lemma streams_agree_step:
  assumes "streams_agree (st, S, n)" "t = VR_PKT_STREAM_CLOSE \<longrightarrow> st = VR_PROTO_ESTABILISHED \<longrightarrow> unat sid \<in> S"
  shows "streams_agree (fst (proto_spec (st, S, n) t sid))"
proof -
  note a = assms(1)[unfolded streams_agree_def prod.case]
  have fin: "finite S" using a finite_subset by blast
  show ?thesis
  proof (cases st)
    case VR_PROTO_ESTABILISHED
    consider (opn) "t = VR_PKT_STREAM_OPEN" "S \<noteq> {..<256}" | (cls) "t = VR_PKT_STREAM_CLOSE"
      | (same) "t = VR_PKT_STREAM_OPEN \<longrightarrow> S = {..<256}" "t \<noteq> VR_PKT_STREAM_CLOSE" by blast
    then show ?thesis
    proof cases
      case opn
      then have "fst (proto_spec (st, S, n) t sid) = (st, insert (LEAST i. i \<notin> S) S, n + 1)"
        using VR_PROTO_ESTABILISHED by (simp add: proto_spec_def Let_def packet_consts)
      then show ?thesis using least_not_in [OF _ opn(2)] a fin VR_PROTO_ESTABILISHED
        by (simp add: streams_agree_def)
    next
      case cls
      then have "unat sid \<in> S" using assms(2) VR_PROTO_ESTABILISHED by simp
      from streams_agree_close [OF _ _ this, of n] a
      show ?thesis using cls VR_PROTO_ESTABILISHED
        by (auto simp: streams_agree_def proto_spec_def packet_consts)
    next
      case same
      then have "fst (proto_spec (st, S, n) t sid) = (st, S, n)"
        using VR_PROTO_ESTABILISHED by (simp add: proto_spec_def)
      then show ?thesis using assms(1) by simp
    qed
  qed (use a in \<open>auto simp: streams_agree_def proto_spec_def\<close>)
qed

lemma polite_run_agree: "polite_run c \<Longrightarrow> bitmap_ok c \<and> streams_agree (proto_abs c)"
proof (induction rule: polite_run.induct)
  case polite_start
  then show ?case by (simp add: proto_abs_def streams_agree_def) (simp add: connection_zero_def)
next
  case (polite_step c pkt s r c' s')
  then have c: "bitmap_ok c" "streams_agree (proto_abs c)" by auto
  have "bitmap_ok c' \<and> proto_abs c' = fst (proto_spec (proto_abs c) (hdr_type (pkt_header pkt))
      (hdr_stream_id (pkt_header pkt)))"
    by (rule handle_refines [OF c(1) polite_step.hyps(3), of pkt]) (use polite_step.hyps(4) in simp)
  then show ?case
    using streams_agree_step c(2) polite_step.hyps(2) by (auto simp: proto_abs_def polite_def)
qed

text \<open>C27. As long as the peer closes only open streams, the count and the state of a connection are
  right after any sequence of packets: the count is the number of open streams (modulo 256, so it is 0
  when all 256 are open), the connection is established exactly when a stream is open, and a server
  connection is never in the client's connecting state.\<close>

theorem protocol_stream_count:
  assumes "polite_run c"
  shows "cn_active_streams c = of_nat (card (open_streams c)) \<and>
    (cn_proto_state c = VR_PROTO_ESTABILISHED \<longleftrightarrow> open_streams c \<noteq> {}) \<and>
    cn_proto_state c \<noteq> VR_PROTO_CONNECTING"
  using polite_run_agree [OF assms] by (simp add: proto_abs_def streams_agree_def)

theorem protocol_stream_count_witness:
  "\<exists>c. polite_run c \<and> cn_proto_state c = VR_PROTO_ESTABILISHED \<and> open_streams c \<noteq> {} \<and>
     cn_active_streams c = of_nat (card (open_streams c))"
proof -
  have spec: "proto_spec (proto_abs connection_zero) VR_PKT_CONNECT 0
      = ((VR_PROTO_ESTABILISHED, {0}, 1), Some (VR_PKT_CONNECT_ACK, 0))"
    by (simp add: proto_spec_def proto_abs_def) (simp add: connection_zero_def)
  obtain c s' where c: "vr_protocol_handle_packet (Some connection_zero) (Some (type_packet VR_PKT_CONNECT 0))
      (sys_with 1) = Some (Some (reply_packet (VR_PKT_CONNECT_ACK, 0)), Some c, s')"
    "proto_abs c = (VR_PROTO_ESTABILISHED, {0}, 1)"
    by (rule handle_refines [of connection_zero "sys_with 1" "type_packet VR_PKT_CONNECT 0"])
      (simp_all add: spec)
  have "polite_run c"
    by (rule polite_step [OF polite_start _ _ c(1)]) (simp_all add: polite_def packet_consts)
  with protocol_stream_count [OF this] c(2) show ?thesis by (auto simp: proto_abs_def)
qed

text \<open>C28. \<open>STREAM_CLOSE\<close> does not test that the stream is open. On a connection whose count is 1, a
  close of a stream that is not open closes the connection without an answer although its streams are
  still open; the next packet, whatever it is, is dropped and puts the connection back in its initial
  state with these streams still marked.\<close>

theorem protocol_close_unopened:
  assumes "bitmap_ok c" "cn_proto_state c = VR_PROTO_ESTABILISHED" "cn_active_streams c = 1"
    and "unat sid \<notin> open_streams c" "replies_ok s"
  shows "\<exists>c' s'. vr_protocol_handle_packet (Some c) (Some (type_packet VR_PKT_STREAM_CLOSE sid)) s
      = Some (None, Some c', s') \<and>
    cn_proto_state c' = VR_PROTO_CLOSED \<and> open_streams c' = open_streams c \<and>
    (\<forall>pkt t. vr_protocol_handle_packet (Some c') (Some pkt) t
      = Some (None, Some (c'\<lparr>cn_proto_state := VR_PROTO_INIT\<rparr>), t))"
proof -
  have "proto_spec (proto_abs c) VR_PKT_STREAM_CLOSE sid = ((VR_PROTO_CLOSED, open_streams c, 0), None)"
    using assms(2-4) by (simp add: proto_spec_def proto_abs_def packet_consts)
  then show ?thesis
    by (rule_tac handle_refines [OF assms(1,5), of "type_packet VR_PKT_STREAM_CLOSE sid"])
      (auto simp: proto_abs_def vr_protocol_handle_packet_def)
qed

theorem protocol_close_unopened_witness:
  "\<exists>c' s'. vr_protocol_handle_packet (Some conn_established) (Some (type_packet VR_PKT_STREAM_CLOSE 7)) (sys_with 1)
      = Some (None, Some c', s') \<and> cn_proto_state c' = VR_PROTO_CLOSED \<and> open_streams c' = {0}"
  using protocol_close_unopened [of conn_established 7 "sys_with 1"] by auto



end
