(* ===== verification/Velora_Conn_Manager.thy ===== *)
theory Velora_Conn_Manager
  imports Velora_Protocol_Spec
begin

text \<open>
  \<open>src/conn/conn.c\<close>: the connection manager. Connection objects live in a heap, a map from addresses
  to objects; address 0 is the null pointer and a freed object is no longer in the map, so every use
  of a dangling pointer is \<^term>\<open>None\<close>. The manager holds the array of addresses.
\<close>

section \<open>Data\<close>

definition VR_MAX_CONNECTIONS :: size_t where "VR_MAX_CONNECTIONS = 65536"

type_synonym conn_ptr = nat
type_synonym conn_heap = "conn_ptr \<rightharpoonup> vr_connection_t"

record vr_connection_manager_t =
  mgr_slots :: "conn_ptr list option"
  mgr_count :: size_t
  mgr_capacity :: size_t

section \<open>Operations\<close>

definition vr_connection_manager_init :: "size_t \<Rightarrow> sys \<Rightarrow> vr_result_t \<times> vr_connection_manager_t \<times> sys" where
  "vr_connection_manager_init capacity s =
     (case calloc_words (unat capacity) s of (slots, s) \<Rightarrow>
        (if slots = None then VR_ERROR else VR_SUCCESS,
         \<lparr>mgr_slots = slots, mgr_count = 0, mgr_capacity = capacity\<rparr>, s))"

text \<open>\<open>free\<close> of a connection object and of the blocks of its two rings.\<close>

definition free_connection :: "conn_ptr \<Rightarrow> conn_heap \<Rightarrow> sys \<Rightarrow> (conn_heap \<times> sys) option" where
  "free_connection p h s = do {
     c \<leftarrow> h p;
     let s = c_free (rb_data (cn_read_buf c)) s;
     let s = c_free (rb_data (cn_write_buf c)) s;
     Some (h(p := None), c_free (Some p) s)
   }"

function destroy_loop :: "conn_ptr list option \<Rightarrow> size_t \<Rightarrow> size_t \<Rightarrow> conn_heap \<Rightarrow> sys \<Rightarrow> (conn_heap \<times> sys) option" where
  "destroy_loop slots count i h s =
     (if i < count then do {
        p \<leftarrow> mem_get slots (unat i);
        (h, s) \<leftarrow> free_connection p h s;
        destroy_loop slots count (i + 1) h s
      } else Some (h, s))"
  by pat_completeness auto
termination
  by (relation "measure (\<lambda>(_, count, i, _). unat count - unat i)")
    (auto simp: unat_inc_less word_less_nat_alt)

declare destroy_loop.simps [simp del]

definition vr_connection_manager_destroy ::
  "vr_connection_manager_t \<Rightarrow> conn_heap \<Rightarrow> sys \<Rightarrow>
     (vr_result_t \<times> vr_connection_manager_t \<times> conn_heap \<times> sys) option" where
  "vr_connection_manager_destroy m h s = do {
     (h, s) \<leftarrow> destroy_loop (mgr_slots m) (mgr_count m) 0 h s;
     Some (VR_SUCCESS, \<lparr>mgr_slots = None, mgr_count = 0, mgr_capacity = 0\<rparr>, h, c_free (mgr_slots m) s)
   }"

text \<open>\<open>malloc\<close> of a connection object. A new object's address is neither null nor that of a live
  object; an answer that says otherwise counts as a failed allocation.\<close>

definition malloc_connection :: "conn_heap \<Rightarrow> sys \<Rightarrow> conn_ptr \<times> sys" where
  "malloc_connection h s = (case alloc s of
       (None, s') \<Rightarrow> (0, s')
     | (Some (a, f), s') \<Rightarrow> if a = 0 \<or> h a \<noteq> None then (0, s'\<lparr>errno := ENOMEM, blocks := blocks s\<rparr>) else (a, s'))"

definition sizeof_pointer :: size_t where "sizeof_pointer = 8"

text \<open>The growth of the array when it is full: \<^term>\<open>None\<close> when it cannot grow.\<close>

definition manager_make_room ::
  "vr_connection_manager_t \<Rightarrow> sys \<Rightarrow> vr_connection_manager_t option \<times> sys" where
  "manager_make_room m s =
     (if mgr_count m = mgr_capacity m then
        (let new_capacity = (if mgr_capacity m = 0 then 16 else mgr_capacity m * 2)
         in case vr_util_array_extend (mgr_slots m) new_capacity sizeof_pointer s of (r, slots, s) \<Rightarrow>
           (if r = VR_ERROR then None else Some (m\<lparr>mgr_slots := slots, mgr_capacity := new_capacity\<rparr>), s))
      else (Some m, s))"

text \<open>\<open>vr_connection_create\<close> returns the address of the new object, 0 for a null pointer. The manager
  argument is optional for the test of the null pointer. Between \<open>malloc\<close> and \<open>memset\<close> nothing reads the
  object, so it enters the heap zeroed.\<close>

definition vr_connection_create ::
  "vr_connection_manager_t option \<Rightarrow> vr_net_conn_t \<Rightarrow> conn_heap \<Rightarrow> sys \<Rightarrow>
     (conn_ptr \<times> vr_connection_manager_t option \<times> conn_heap \<times> sys) option" where
  "vr_connection_create manager conn h s = (case manager of
       None \<Rightarrow> Some (0, manager, h, s)
     | Some m \<Rightarrow>
         if mgr_slots m = None then Some (0, manager, h, s)
         else (case manager_make_room m s of
             (None, s) \<Rightarrow> Some (0, manager, h, s)
           | (Some m, s) \<Rightarrow> (case malloc_connection h s of (new_connection, s) \<Rightarrow>
               if new_connection = 0 then Some (0, Some m, h, s)
               else do {
                 slots \<leftarrow> mem_write (mgr_slots m) (unat (mgr_count m)) [new_connection];
                 let m = m\<lparr>mgr_slots := Some slots, mgr_count := mgr_count m + 1\<rparr>;
                 let c = connection_zero\<lparr>cn_net_conn := conn, cn_slot := mgr_count m - 1,
                       cn_status := VR_ACTIVE, cn_parser := parser_zero\<lparr>ps_state := VR_PARSER_HEADER_WAIT\<rparr>\<rparr>;
                 Some (new_connection, Some m, h(new_connection \<mapsto> c), s)
               })))"

definition vr_connection_destroy ::
  "vr_connection_manager_t option \<Rightarrow> conn_ptr \<Rightarrow> conn_heap \<Rightarrow> sys \<Rightarrow>
     (vr_result_t \<times> vr_connection_manager_t option \<times> conn_heap \<times> sys) option" where
  "vr_connection_destroy manager conn h s = (case manager of
       None \<Rightarrow> Some (VR_ERROR, manager, h, s)
     | Some m \<Rightarrow>
         if conn = 0 then Some (VR_ERROR, manager, h, s)
         else do {
           c \<leftarrow> h conn;
           let slot = cn_slot c;
           let last = mgr_count m - 1;
           (m, h) \<leftarrow> (if slot \<noteq> last then do {
               q \<leftarrow> mem_get (mgr_slots m) (unat last);
               slots \<leftarrow> mem_write (mgr_slots m) (unat slot) [q];
               d \<leftarrow> h q;
               Some (m\<lparr>mgr_slots := Some slots\<rparr>, h(q \<mapsto> d\<lparr>cn_slot := slot\<rparr>))
             } else Some (m, h));
           (h, s) \<leftarrow> free_connection conn h s;
           Some (VR_SUCCESS, Some (m\<lparr>mgr_count := mgr_count m - 1\<rparr>), h, s)
         })"

end
