(* ===== verification/Velora_Conn_Spec.thy ===== *)
theory Velora_Conn_Spec
  imports Velora_Conn_Manager
begin

text \<open>
  The connection manager against the list of live connections it stands for, and the number of heap
  blocks the connection objects own.
\<close>

section \<open>Blocks owned by connection objects\<close>

definition conn_blocks :: "vr_connection_t \<Rightarrow> int" where
  "conn_blocks c = 1 + of_bool (rb_data (cn_read_buf c) \<noteq> None) + of_bool (rb_data (cn_write_buf c) \<noteq> None)"

definition heap_blocks :: "conn_heap \<Rightarrow> int" where
  "heap_blocks h = (\<Sum>p\<in>dom h. conn_blocks (the (h p)))"

lemma heap_blocks_empty [simp]: "heap_blocks Map.empty = 0"
  by (simp add: heap_blocks_def)

lemma heap_blocks_new:
  assumes "finite (dom h)" "h p = None"
  shows "heap_blocks (h(p \<mapsto> c)) = heap_blocks h + conn_blocks c"
proof -
  have "p \<notin> dom h" using assms(2) by auto
  moreover have "(\<Sum>q\<in>dom h. conn_blocks (the ((h(p \<mapsto> c)) q))) = heap_blocks h"
    unfolding heap_blocks_def using \<open>p \<notin> dom h\<close> by (intro sum.cong) auto
  ultimately show ?thesis using assms(1) by (simp add: heap_blocks_def)
qed

lemma heap_blocks_free:
  assumes "finite (dom h)" "h p = Some c"
  shows "heap_blocks (h(p := None)) = heap_blocks h - conn_blocks c"
proof -
  have "heap_blocks ((h(p := None))(p \<mapsto> c)) = heap_blocks (h(p := None)) + conn_blocks c"
    using assms(1) by (intro heap_blocks_new) auto
  moreover have "(h(p := None))(p \<mapsto> c) = h" using assms(2) by auto
  ultimately show ?thesis by simp
qed

lemma heap_blocks_update:
  assumes "finite (dom h)" "h p = Some c"
  shows "heap_blocks (h(p \<mapsto> c')) = heap_blocks h - conn_blocks c + conn_blocks c'"
  using heap_blocks_new [of "h(p := None)" p c'] heap_blocks_free [OF assms] assms(1) by simp

lemma blocks_free_connection:
  assumes "h p = Some c"
  obtains s' where "free_connection p h s = Some (h(p := None), s')" "heap_frame s s'"
    "blocks s' = blocks s - conn_blocks c"
proof (rule that)
  let ?s = "c_free (Some p) (c_free (rb_data (cn_write_buf c)) (c_free (rb_data (cn_read_buf c)) s))"
  show "free_connection p h s = Some (h(p := None), ?s)" using assms by (simp add: free_connection_def)
  show "heap_frame s ?s" by (meson heap_frame_free heap_frame_trans)
  show "blocks ?s = blocks s - conn_blocks c" by (simp add: blocks_free conn_blocks_def)
qed

section \<open>The list of managed connections\<close>

definition managed :: "vr_connection_manager_t \<Rightarrow> conn_ptr list" where
  "managed m = (case mgr_slots m of None \<Rightarrow> [] | Some xs \<Rightarrow> take (unat (mgr_count m)) xs)"

text \<open>Every managed address is that of a live object that knows its own place in the array. A manager whose
  array could not be allocated has no connections.\<close>

definition mgr_inv :: "vr_connection_manager_t \<Rightarrow> conn_heap \<Rightarrow> bool" where
  "mgr_inv m h \<longleftrightarrow>
     (case mgr_slots m of None \<Rightarrow> mgr_count m = 0 | Some xs \<Rightarrow> length xs = unat (mgr_capacity m)) \<and>
     unat (mgr_count m) \<le> unat (mgr_capacity m) \<and> distinct (managed m) \<and>
     (\<forall>i < unat (mgr_count m). \<exists>c. h (managed m ! i) = Some c \<and> unat (cn_slot c) = i)"

lemma length_managed: "mgr_inv m h \<Longrightarrow> length (managed m) = unat (mgr_count m)"
  by (auto simp: mgr_inv_def managed_def split: option.splits)

lemma mgr_invD:
  assumes "mgr_inv m h" "mgr_slots m \<noteq> None"
  obtains xs where "mgr_slots m = Some xs" "length xs = unat (mgr_capacity m)"
    "managed m = take (unat (mgr_count m)) xs" "unat (mgr_count m) \<le> unat (mgr_capacity m)"
  using assms by (auto simp: mgr_inv_def managed_def)

lemma managed_live:
  assumes "mgr_inv m h" "p \<in> set (managed m)"
  obtains c i where "h p = Some c" "unat (cn_slot c) = i" "i < unat (mgr_count m)" "managed m ! i = p"
proof -
  obtain i where "i < length (managed m)" "managed m ! i = p" using assms(2) by (metis in_set_conv_nth)
  then show ?thesis using that assms(1) length_managed [OF assms(1)] by (fastforce simp: mgr_inv_def)
qed

text \<open>Changes to objects that keep their place do not concern the manager.\<close>

lemma mgr_inv_update:
  assumes "mgr_inv m h" "\<And>p c. p \<in> set (managed m) \<Longrightarrow> h p = Some c \<Longrightarrow> \<exists>c'. h' p = Some c' \<and> cn_slot c' = cn_slot c"
  shows "mgr_inv m h'"
proof -
  have "\<exists>c'. h' (managed m ! i) = Some c' \<and> unat (cn_slot c') = i" if lt: "i < unat (mgr_count m)" for i
  proof -
    obtain c where c: "h (managed m ! i) = Some c" "unat (cn_slot c) = i"
      using assms(1) lt unfolding mgr_inv_def by blast
    moreover have "managed m ! i \<in> set (managed m)" using length_managed [OF assms(1)] lt by simp
    ultimately show ?thesis using assms(2) by fastforce
  qed
  then show ?thesis using assms(1) by (simp add: mgr_inv_def)
qed

section \<open>Creating a connection\<close>

lemma manager_make_room_spec:
  assumes "mgr_inv m h" "unat (mgr_capacity m) < 2 ^ 59" "mgr_slots m \<noteq> None"
  obtains (no_room) s' where "manager_make_room m s = (None, s')" "heap_frame s s'" "blocks s' = blocks s"
  | (room) m' s' where "manager_make_room m s = (Some m', s')" "heap_frame s s'" "blocks s' = blocks s"
      "mgr_inv m' h" "managed m' = managed m" "mgr_count m' = mgr_count m"
      "unat (mgr_count m') < unat (mgr_capacity m')" "mgr_slots m' \<noteq> None"
      "unat (mgr_capacity m') \<le> max (unat (mgr_capacity m)) (max 16 (2 * unat (mgr_count m)))"
proof (cases "mgr_count m = mgr_capacity m")
  case False
  have "unat (mgr_count m) \<le> unat (mgr_capacity m)" using assms(1) by (simp add: mgr_inv_def)
  then have "unat (mgr_count m) < unat (mgr_capacity m)"
    using False by (simp add: word_unat_eq_iff)
  then show ?thesis using False assms(1,3) room by (simp add: manager_make_room_def)
next
  case True
  obtain xs where xs: "mgr_slots m = Some xs" "length xs = unat (mgr_capacity m)"
      "managed m = take (unat (mgr_count m)) xs"
    by (rule mgr_invD [OF assms(1,3)])
  let ?n = "if mgr_capacity m = 0 then 16 else mgr_capacity m * 2"
  have n: "unat ?n = (if mgr_capacity m = 0 then 16 else 2 * unat (mgr_capacity m))"
    using assms(2) by (simp add: unat_word_ariths)
  then have cells: "unat (?n * sizeof_pointer) div unat sizeof_pointer = unat ?n"
    using assms(2) by (simp add: unat_word_ariths sizeof_pointer_def)
  show ?thesis
  proof (cases rule: alloc_cases [of s])
    case (null s')
    then show ?thesis using True xs cells no_room [of s']
      by (simp add: manager_make_room_def vr_util_array_extend_def realloc_words_def Let_def)
  next
    case (block a f s')
    let ?ys = "take (unat ?n) xs @ map f [length xs..<unat ?n]"
    let ?m = "m\<lparr>mgr_slots := Some ?ys, mgr_capacity := ?n\<rparr>" and ?s = "s'\<lparr>blocks := blocks s' - 1\<rparr>"
    have le: "length xs \<le> unat ?n" using xs(2) n by simp
    then have ys: "take (unat (mgr_count m)) ?ys = managed m" "length ?ys = unat ?n"
      using xs True by simp_all
    have "manager_make_room m s = (Some ?m, ?s)"
      using True xs cells block(1)
      by (simp add: manager_make_room_def vr_util_array_extend_def realloc_words_def Let_def)
    moreover have "managed ?m = managed m" using ys(1) by (simp add: managed_def)
    moreover have "unat (mgr_count m) < unat ?n" using n True by (auto simp: unat_gt_0)
    moreover have "mgr_inv ?m h" using assms(1) calculation ys by (simp add: mgr_inv_def)
    moreover have "heap_frame s ?s" using block(3) by (cases s; cases s') (simp add: heap_frame_def)
    moreover have "unat ?n \<le> max (unat (mgr_capacity m)) (max 16 (2 * unat (mgr_count m)))"
      using n True by simp
    ultimately show ?thesis using block(2) by (intro room [of ?m ?s]) simp_all
  qed
qed

lemma malloc_connection_spec:
  obtains (null) s' where "malloc_connection h s = (0, s')" "heap_frame s s'" "blocks s' = blocks s"
  | (object) p s' where "malloc_connection h s = (p, s')" "p \<noteq> 0" "h p = None" "heap_frame s s'"
      "blocks s' = blocks s + 1"
proof (cases rule: alloc_cases [of s])
  case (null s')
  then show ?thesis using that(1) by (simp add: malloc_connection_def)
next
  case (block a f s')
  show ?thesis
  proof (cases "a = 0 \<or> h a \<noteq> None")
    case True
    have "heap_frame s (s'\<lparr>errno := ENOMEM, blocks := blocks s\<rparr>)"
      using block(3) by (cases s; cases s') (simp add: heap_frame_def)
    then show ?thesis using that(1) block(1) True by (simp add: malloc_connection_def)
  next
    case False
    then show ?thesis using that(2) [of a s'] block by (simp add: malloc_connection_def)
  qed
qed

definition new_connection :: "vr_net_conn_t \<Rightarrow> size_t \<Rightarrow> vr_connection_t" where
  "new_connection conn slot = connection_zero\<lparr>cn_net_conn := conn, cn_slot := slot, cn_status := VR_ACTIVE,
     cn_parser := parser_zero\<lparr>ps_state := VR_PARSER_HEADER_WAIT\<rparr>\<rparr>"

lemma conn_blocks_new [simp]: "conn_blocks (new_connection conn slot) = 1"
  by (simp add: conn_blocks_def new_connection_def connection_zero_def)

lemma conn_inv_new [simp]: "conn_inv (new_connection conn slot)"
  by (simp add: conn_inv_def new_connection_def connection_zero_def parser_zero_def parser_inv_def)

lemma managed_snoc:
  assumes "mgr_inv m h" "unat (mgr_count m) < unat (mgr_capacity m)" "h p = None" "mgr_slots m \<noteq> None"
  obtains slots where "mem_write (mgr_slots m) (unat (mgr_count m)) [p] = Some slots"
    "managed (m\<lparr>mgr_slots := Some slots, mgr_count := mgr_count m + 1\<rparr>) = managed m @ [p]"
    "mgr_inv (m\<lparr>mgr_slots := Some slots, mgr_count := mgr_count m + 1\<rparr>)
       (h(p \<mapsto> new_connection conn (mgr_count m)))"
proof -
  obtain xs where xs: "mgr_slots m = Some xs" "length xs = unat (mgr_capacity m)"
      "managed m = take (unat (mgr_count m)) xs" "unat (mgr_count m) \<le> unat (mgr_capacity m)"
    by (rule mgr_invD [OF assms(1,4)])
  let ?slots = "xs[unat (mgr_count m) := p]"
  let ?m = "m\<lparr>mgr_slots := Some ?slots, mgr_count := mgr_count m + 1\<rparr>"
    and ?h = "h(p \<mapsto> new_connection conn (mgr_count m))"
  have inc: "unat (mgr_count m + 1) = unat (mgr_count m) + 1"
    using assms(2) by (intro unat_inc_less [of _ "mgr_capacity m"]) (simp add: word_less_nat_alt)
  have w: "mem_write (mgr_slots m) (unat (mgr_count m)) [p] = Some ?slots"
    using xs assms(2) by (simp add: mem_write_def overwrite_single)
  have man: "managed ?m = managed m @ [p]"
    using xs assms(2) inc by (simp add: managed_def take_Suc_conv_app_nth)
  have fresh: "p \<notin> set (managed m)"
    using assms(1,3) by (metis managed_live option.distinct(1))
  have len: "length (managed m) = unat (mgr_count m)" by (rule length_managed [OF assms(1)])
  have "\<exists>c. ?h (managed ?m ! i) = Some c \<and> unat (cn_slot c) = i" if lt: "i < unat (mgr_count m + 1)" for i
  proof (cases "i = unat (mgr_count m)")
    case True
    then show ?thesis using man len by (simp add: nth_append new_connection_def)
  next
    case False
    then have i: "i < unat (mgr_count m)" using lt inc by simp
    then have "managed ?m ! i = managed m ! i" "managed m ! i \<in> set (managed m)"
      using man len by (simp_all add: nth_append)
    moreover obtain c where "h (managed m ! i) = Some c" "unat (cn_slot c) = i"
      using assms(1) i unfolding mgr_inv_def by blast
    ultimately show ?thesis using fresh by auto
  qed
  then have "mgr_inv ?m ?h"
    using assms(1,2) xs inc man fresh by (simp add: mgr_inv_def)
  with w man show ?thesis by (rule that)
qed

text \<open>The outcomes of \<open>vr_connection_create\<close>: a null pointer and an unchanged set of connections, or a
  new zeroed object at the end of the list.\<close>

lemma connection_create_spec:
  assumes "mgr_inv m h" "unat (mgr_capacity m) < 2 ^ 59"
  obtains (failed) m' s' where "vr_connection_create (Some m) conn h s = Some (0, Some m', h, s')"
      "mgr_inv m' h" "managed m' = managed m" "mgr_count m' = mgr_count m" "heap_frame s s'" "blocks s' = blocks s"
      "unat (mgr_capacity m') \<le> max (unat (mgr_capacity m)) (max 16 (2 * unat (mgr_count m)))"
  | (created) p m' s' where
      "vr_connection_create (Some m) conn h s = Some (p, Some m', h(p \<mapsto> new_connection conn (mgr_count m)), s')"
      "p \<noteq> 0" "h p = None" "mgr_inv m' (h(p \<mapsto> new_connection conn (mgr_count m)))"
      "managed m' = managed m @ [p]" "heap_frame s s'" "blocks s' = blocks s + 1"
      "unat (mgr_capacity m') \<le> max (unat (mgr_capacity m)) (max 16 (2 * unat (mgr_count m)))"
proof (cases "mgr_slots m")
  case None
  then show ?thesis using assms(1) by (intro failed [of m s]) (simp_all add: vr_connection_create_def)
next
  case slots: (Some xs)
  then have live: "mgr_slots m \<noteq> None" by simp
  show ?thesis
  proof (cases rule: manager_make_room_spec [OF assms live, of s])
    case (1 s')
    then show ?thesis using slots assms(1)
      by (intro failed [of m s']) (simp_all add: vr_connection_create_def)
  next
    case room: (2 m1 s1)
    show ?thesis
    proof (cases rule: malloc_connection_spec [of h s1])
      case (null s2)
      then show ?thesis
        using slots room heap_frame_trans [OF room(2) null(2)]
        by (intro failed [of m1 s2]) (simp_all add: vr_connection_create_def)
    next
      case (object p s2)
      obtain sl where sl: "mem_write (mgr_slots m1) (unat (mgr_count m1)) [p] = Some sl"
          "managed (m1\<lparr>mgr_slots := Some sl, mgr_count := mgr_count m1 + 1\<rparr>) = managed m1 @ [p]"
          "mgr_inv (m1\<lparr>mgr_slots := Some sl, mgr_count := mgr_count m1 + 1\<rparr>)
             (h(p \<mapsto> new_connection conn (mgr_count m1)))"
        by (rule managed_snoc [OF room(4,7) object(3) room(8)])
      let ?m = "m1\<lparr>mgr_slots := Some sl, mgr_count := mgr_count m1 + 1\<rparr>"
      have "vr_connection_create (Some m) conn h s
          = Some (p, Some ?m, h(p \<mapsto> new_connection conn (mgr_count m)), s2)"
        using slots room(1,6) object(1,2) sl(1)
        by (simp add: vr_connection_create_def new_connection_def)
      then show ?thesis
        using object room sl heap_frame_trans [OF room(2) object(4)]
        by (intro created [of p ?m s2]) simp_all
    qed
  qed
qed

section \<open>Destroying a connection\<close>

text \<open>Removing place \<open>i\<close> of a list by moving the last element there.\<close>

definition swap_remove :: "nat \<Rightarrow> 'a list \<Rightarrow> 'a list" where
  "swap_remove i xs = butlast (xs[i := last xs])"

lemma length_swap_remove [simp]: "length (swap_remove i xs) = length xs - 1"
  by (simp add: swap_remove_def)

lemma nth_swap_remove:
  "j < length xs - 1 \<Longrightarrow> swap_remove i xs ! j = (if j = i then last xs else xs ! j)"
  by (simp add: swap_remove_def nth_butlast nth_list_update)

lemma swap_remove_set:
  assumes "distinct xs" "i < length xs"
  shows "set (swap_remove i xs) = set xs - {xs ! i}" "distinct (swap_remove i xs)"
proof -
  have ne: "xs \<noteq> []" using assms(2) by auto
  then have last: "last xs = xs ! (length xs - 1)" by (rule last_conv_nth)
  have inj: "xs ! a = xs ! b \<longleftrightarrow> a = b" if "a < length xs" "b < length xs" for a b
    using assms(1) that by (simp add: nth_eq_iff_index_eq)
  have nth: "swap_remove i xs ! j = xs ! (if j = i then length xs - 1 else j)" if "j < length xs - 1" for j
    using that last by (simp add: nth_swap_remove)
  show "distinct (swap_remove i xs)"
    unfolding distinct_conv_nth using nth inj by (auto split: if_splits)
  have "p \<in> set (swap_remove i xs) \<longleftrightarrow> p \<in> set xs - {xs ! i}" for p
  proof
    assume "p \<in> set (swap_remove i xs)"
    then obtain j where j: "j < length xs - 1" "swap_remove i xs ! j = p" by (auto simp: in_set_conv_nth)
    let ?k = "if j = i then length xs - 1 else j"
    have "?k < length xs" "?k \<noteq> i" "p = xs ! ?k" using nth [OF j(1)] j by auto
    then show "p \<in> set xs - {xs ! i}" using inj assms(2) by simp
  next
    assume "p \<in> set xs - {xs ! i}"
    then obtain k where k: "k < length xs" "xs ! k = p" "k \<noteq> i" by (auto simp: in_set_conv_nth)
    let ?j = "if k = length xs - 1 then i else k"
    have "?j < length xs - 1" using k assms(2) by auto
    moreover have "swap_remove i xs ! ?j = p" using nth [of ?j] calculation k by (auto split: if_splits)
    ultimately show "p \<in> set (swap_remove i xs)" by (metis length_swap_remove nth_mem)
  qed
  then show "set (swap_remove i xs) = set xs - {xs ! i}" by blast
qed

text \<open>An object without its place in the array.\<close>

definition conn_core :: "vr_connection_t \<Rightarrow> vr_connection_t" where
  "conn_core c = c\<lparr>cn_slot := 0\<rparr>"

lemma conn_core_slot [simp]: "conn_core (c\<lparr>cn_slot := k\<rparr>) = conn_core c"
  by (simp add: conn_core_def)

lemma conn_core_fields:
  assumes "conn_core c = conn_core c'"
  shows "cn_net_conn c = cn_net_conn c'" "cn_type c = cn_type c'" "cn_read_buf c = cn_read_buf c'"
    "cn_write_buf c = cn_write_buf c'" "cn_parser c = cn_parser c'" "cn_streams_bitmap c = cn_streams_bitmap c'"
  using assms by (cases c; cases c'; simp add: conn_core_def)+

lemma conn_core_inv:
  assumes "conn_core c = conn_core c'"
  shows "conn_inv c \<longleftrightarrow> conn_inv c'" "conn_blocks c = conn_blocks c'"
  using conn_core_fields [OF assms] by (simp_all add: conn_inv_def conn_blocks_def)

lemma mgr_inv_swap_remove:
  assumes "mgr_inv m h" "i < unat (mgr_count m)" "length ys = unat (mgr_capacity m)"
    and "take (unat (mgr_count m) - 1) ys = swap_remove i (managed m)"
    and "\<forall>j < unat (mgr_count m) - 1. \<exists>d. h1 (swap_remove i (managed m) ! j) = Some d \<and> unat (cn_slot d) = j"
  shows "mgr_inv (m\<lparr>mgr_slots := Some ys, mgr_count := mgr_count m - 1\<rparr>) (h1(managed m ! i := None))"
    and "managed (m\<lparr>mgr_slots := Some ys, mgr_count := mgr_count m - 1\<rparr>) = swap_remove i (managed m)"
proof -
  let ?m = "m\<lparr>mgr_slots := Some ys, mgr_count := mgr_count m - 1\<rparr>"
  have dec: "unat (mgr_count m - 1) = unat (mgr_count m) - 1"
    using assms(2) by (subst unat_sub) (auto simp: word_le_nat_alt)
  show man: "managed ?m = swap_remove i (managed m)" using assms(4) dec by (simp add: managed_def)
  have len: "length (managed m) = unat (mgr_count m)" by (rule length_managed [OF assms(1)])
  have le: "unat (mgr_count m) \<le> unat (mgr_capacity m)" and dist: "distinct (managed m)"
    using assms(1) by (auto simp: mgr_inv_def)
  note sr = swap_remove_set [OF dist, unfolded len, OF assms(2)]
  have "\<exists>d. (h1(managed m ! i := None)) (managed ?m ! j) = Some d \<and> unat (cn_slot d) = j"
    if lt: "j < unat (mgr_count m) - 1" for j
  proof -
    have "swap_remove i (managed m) ! j \<in> set (swap_remove i (managed m))" using lt len by simp
    then have "swap_remove i (managed m) ! j \<noteq> managed m ! i" using sr(1) by auto
    then show ?thesis using assms(5) lt man by simp
  qed
  then show "mgr_inv ?m (h1(managed m ! i := None))"
    using assms(3) le sr(2) man dec by (simp add: mgr_inv_def)
qed

text \<open>A managed object and its place.\<close>

lemma managed_place:
  assumes "mgr_inv m h" "p \<in> set (managed m)" "h p = Some c"
  obtains xs where "mgr_slots m = Some xs" "length xs = unat (mgr_capacity m)"
    "managed m = take (unat (mgr_count m)) xs" "unat (mgr_count m) \<le> unat (mgr_capacity m)"
    "unat (cn_slot c) < unat (mgr_count m)" "managed m ! unat (cn_slot c) = p"
    "unat (mgr_count m - 1) = unat (mgr_count m) - 1" "last (managed m) = xs ! (unat (mgr_count m) - 1)"
proof -
  let ?n = "unat (mgr_count m)" and ?i = "unat (cn_slot c)" and ?ps = "managed m"
  have "mgr_slots m \<noteq> None" using assms(2) by (cases "mgr_slots m") (auto simp: managed_def)
  then obtain xs where xs: "mgr_slots m = Some xs" "length xs = unat (mgr_capacity m)" "?ps = take ?n xs"
      "?n \<le> unat (mgr_capacity m)"
    by (rule mgr_invD [OF assms(1)])
  have i: "?i < ?n" "?ps ! ?i = p"
    using managed_live [OF assms(1,2)] assms(3) by (metis option.inject)+
  have dec: "unat (mgr_count m - 1) = ?n - 1" using i(1) by (subst unat_sub) (auto simp: word_le_nat_alt)
  have "?ps \<noteq> []" using assms(2) by auto
  then have "last ?ps = ?ps ! (?n - 1)" using length_managed [OF assms(1)] by (simp add: last_conv_nth)
  then have "last ?ps = xs ! (?n - 1)" using xs(3) i(1) by simp
  with xs i dec show ?thesis by (rule that)
qed

text \<open>What the destruction of a connection leaves: \<open>destroyed m h p c m' h'\<close>.\<close>

definition destroyed ::
  "vr_connection_manager_t \<Rightarrow> conn_heap \<Rightarrow> conn_ptr \<Rightarrow> vr_connection_t \<Rightarrow>
     vr_connection_manager_t \<Rightarrow> conn_heap \<Rightarrow> bool" where
  "destroyed m h p c m' h' \<longleftrightarrow> mgr_inv m' h' \<and> managed m' = swap_remove (unat (cn_slot c)) (managed m) \<and>
     mgr_capacity m' = mgr_capacity m \<and> mgr_count m' = mgr_count m - 1 \<and> h' p = None \<and>
     (\<forall>q. q \<noteq> p \<longrightarrow> map_option conn_core (h' q) = map_option conn_core (h q)) \<and>
     (\<forall>q. q \<notin> set (managed m) \<longrightarrow> h' q = h q)"

lemma connection_destroy_last:
  assumes "mgr_inv m h" "p \<in> set (managed m)" "h p = Some c" "p \<noteq> 0" "cn_slot c = mgr_count m - 1"
  shows "\<exists>m' s'. vr_connection_destroy (Some m) p h s = Some (VR_SUCCESS, Some m', h(p := None), s') \<and>
    destroyed m h p c m' (h(p := None)) \<and> heap_frame s s' \<and> blocks s' = blocks s - conn_blocks c"
proof -
  let ?n = "unat (mgr_count m)" and ?i = "unat (cn_slot c)" and ?ps = "managed m"
  obtain xs where xs: "mgr_slots m = Some xs" "length xs = unat (mgr_capacity m)" "?ps = take ?n xs"
      "?n \<le> unat (mgr_capacity m)" and i: "?i < ?n" "?ps ! ?i = p"
      and dec: "unat (mgr_count m - 1) = ?n - 1" and lst: "last ?ps = xs ! (?n - 1)"
    by (rule managed_place [OF assms(1-3)])
  have sr: "swap_remove ?i ?ps = take (?n - 1) xs"
    using length_managed [OF assms(1)] xs(2-4) assms(5) dec lst
    by (intro nth_equalityI) (auto simp: nth_swap_remove)
  have "\<forall>j < ?n - 1. \<exists>d. h (swap_remove ?i ?ps ! j) = Some d \<and> unat (cn_slot d) = j"
    using assms(1) xs(3) sr by (auto simp: mgr_inv_def)
  note m' = mgr_inv_swap_remove [OF assms(1) i(1) xs(2) sr [symmetric] this, unfolded i(2)]
  have eq: "m\<lparr>mgr_slots := Some xs, mgr_count := mgr_count m - 1\<rparr> = m\<lparr>mgr_count := mgr_count m - 1\<rparr>"
    using xs(1) by (cases m) simp
  obtain s' where s': "free_connection p h s = Some (h(p := None), s')" "heap_frame s s'"
      "blocks s' = blocks s - conn_blocks c"
    by (rule blocks_free_connection [of h p c, OF assms(3)])
  have "vr_connection_destroy (Some m) p h s
      = Some (VR_SUCCESS, Some (m\<lparr>mgr_count := mgr_count m - 1\<rparr>), h(p := None), s')"
    using assms(3-5) s'(1) by (simp add: vr_connection_destroy_def)
  moreover have "destroyed m h p c (m\<lparr>mgr_count := mgr_count m - 1\<rparr>) (h(p := None))"
    using m' eq assms(2) by (auto simp: destroyed_def)
  ultimately show ?thesis using s' by blast
qed

lemma connection_destroy_moved:
  assumes "mgr_inv m h" "p \<in> set (managed m)" "h p = Some c" "p \<noteq> 0" "cn_slot c \<noteq> mgr_count m - 1"
  shows "\<exists>m' h' s'. vr_connection_destroy (Some m) p h s = Some (VR_SUCCESS, Some m', h', s') \<and>
    destroyed m h p c m' h' \<and> heap_frame s s' \<and> blocks s' = blocks s - conn_blocks c"
proof -
  let ?n = "unat (mgr_count m)" and ?i = "unat (cn_slot c)" and ?ps = "managed m"
  obtain xs where xs: "mgr_slots m = Some xs" "length xs = unat (mgr_capacity m)" "?ps = take ?n xs"
      "?n \<le> unat (mgr_capacity m)" and i: "?i < ?n" "?ps ! ?i = p"
      and dec: "unat (mgr_count m - 1) = ?n - 1" and lst: "last ?ps = xs ! (?n - 1)"
    by (rule managed_place [OF assms(1-3)])
  note len = length_managed [OF assms(1)]
  have index: "a = b" if "?ps ! a = ?ps ! b" "a < ?n" "b < ?n" for a b
    using assms(1) that len by (simp add: mgr_inv_def nth_eq_iff_index_eq)
  have il: "?i < ?n - 1"
    using assms(5) dec i(1) by (metis One_nat_def Suc_pred gr_zeroI less_SucE less_zeroE word_unat_eq_iff)
  let ?q = "xs ! (?n - 1)" and ?ys = "xs[?i := xs ! (?n - 1)]"
  have q: "?ps ! (?n - 1) = ?q" using xs(3) il by simp
  then have "?q \<in> set ?ps" using nth_mem [of "?n - 1" ?ps] len il by simp
  have "?q \<noteq> p" using q i il index [of "?n - 1" ?i] by auto
  obtain d where d: "h ?q = Some d"
    using managed_live [OF assms(1) \<open>?q \<in> set ?ps\<close>] by blast
  have sr: "swap_remove ?i ?ps = take (?n - 1) ?ys"
    using len xs(2-4) il lst by (intro nth_equalityI) (auto simp: nth_swap_remove nth_list_update)
  let ?h = "h(?q \<mapsto> d\<lparr>cn_slot := cn_slot c\<rparr>)"
  have "\<exists>d. ?h (swap_remove ?i ?ps ! j) = Some d \<and> unat (cn_slot d) = j" if lt: "j < ?n - 1" for j
  proof (cases "j = ?i")
    case True
    then show ?thesis using il lst len by (simp add: nth_swap_remove)
  next
    case False
    have "j < ?n" using lt by simp
    then obtain e where "h (?ps ! j) = Some e" "unat (cn_slot e) = j"
      using assms(1) unfolding mgr_inv_def by blast
    moreover have "?ps ! j \<noteq> ?q"
    proof
      assume "?ps ! j = ?q"
      then have eq: "?ps ! j = ?ps ! (?n - 1)" by (simp only: q)
      have "?n - 1 < ?n" using i(1) by simp
      with index [OF eq \<open>j < ?n\<close>] have "j = ?n - 1" .
      then show False using lt by simp
    qed
    ultimately show ?thesis using False lt len by (simp add: nth_swap_remove)
  qed
  then have "\<forall>j < ?n - 1. \<exists>d. ?h (swap_remove ?i ?ps ! j) = Some d \<and> unat (cn_slot d) = j" by blast
  note m' = mgr_inv_swap_remove [where ?h1.0 = ?h, OF assms(1) i(1) _ sr [symmetric] this, unfolded i(2)]
  have hp: "?h p = Some c" using \<open>?q \<noteq> p\<close> assms(3) by simp
  obtain s' where s': "free_connection p ?h s = Some (?h(p := None), s')" "heap_frame s s'"
      "blocks s' = blocks s - conn_blocks c"
    by (rule blocks_free_connection [of ?h p c, OF hp])
  have "mem_get (mgr_slots m) (unat (mgr_count m - 1)) = Some ?q" "mem_write (mgr_slots m) ?i [?q] = Some ?ys"
    using xs(1,2,4) dec il i(1) by (simp_all add: mem_get_def mem_write_def overwrite_single)
  then have "vr_connection_destroy (Some m) p h s
      = Some (VR_SUCCESS, Some (m\<lparr>mgr_slots := Some ?ys, mgr_count := mgr_count m - 1\<rparr>), ?h(p := None), s')"
    using assms(3-5) d(1) s'(1) by (simp add: vr_connection_destroy_def Let_def)
  moreover have "destroyed m h p c (m\<lparr>mgr_slots := Some ?ys, mgr_count := mgr_count m - 1\<rparr>) (?h(p := None))"
    using m' xs(2) d(1) \<open>?q \<in> set ?ps\<close> assms(2) by (auto simp: destroyed_def)
  ultimately show ?thesis using s' by blast
qed

lemma connection_destroy_spec:
  assumes "mgr_inv m h" "p \<in> set (managed m)" "h p = Some c" "p \<noteq> 0"
  obtains m' h' s' where "vr_connection_destroy (Some m) p h s = Some (VR_SUCCESS, Some m', h', s')"
    "destroyed m h p c m' h'" "heap_frame s s'" "blocks s' = blocks s - conn_blocks c"
  using connection_destroy_last [OF assms] connection_destroy_moved [OF assms] by blast

lemma destroyed_members:
  assumes "mgr_inv m h" "p \<in> set (managed m)" "h p = Some c" "destroyed m h p c m' h'"
  shows "set (managed m') = set (managed m) - {p}"
proof -
  have "unat (cn_slot c) < unat (mgr_count m)" "managed m ! unat (cn_slot c) = p"
    using managed_live [OF assms(1,2)] assms(3) by (metis option.inject)+
  moreover have "distinct (managed m)" using assms(1) by (simp add: mgr_inv_def)
  ultimately show ?thesis
    using swap_remove_set(1) [of "managed m" "unat (cn_slot c)"] length_managed [OF assms(1)] assms(4)
    by (simp add: destroyed_def)
qed

lemma destroyed_dom:
  assumes "h p = Some c" "destroyed m h p c m' h'"
  shows "dom h' = dom h - {p}"
proof -
  have other: "h' q = None \<longleftrightarrow> h q = None" if "q \<noteq> p" for q
    using assms(2) that unfolding destroyed_def by (metis None_eq_map_option_iff)
  have "h' p = None" using assms(2) by (simp add: destroyed_def)
  then have "q \<in> dom h' \<longleftrightarrow> q \<in> dom h - {p}" for q
    using other [of q] by (cases "q = p") (simp_all add: domIff)
  then show ?thesis by blast
qed

lemma destroyed_core:
  assumes "destroyed m h p c m' h'" "q \<noteq> p" "h q = Some d"
  obtains d' where "h' q = Some d'" "conn_core d' = conn_core d"
proof -
  have "map_option conn_core (h' q) = Some (conn_core d)"
    using assms by (simp add: destroyed_def)
  then show ?thesis using that by blast
qed

lemma destroyed_blocks:
  assumes "h p = Some c" "destroyed m h p c m' h'" "finite (dom h)"
  shows "heap_blocks h' = heap_blocks h - conn_blocks c"
proof -
  have "conn_blocks (the (h' q)) = conn_blocks (the (h q))" if q: "q \<in> dom h - {p}" for q
  proof -
    obtain d where d: "h q = Some d" "q \<noteq> p" using q by blast
    obtain d' where d': "h' q = Some d'" "conn_core d' = conn_core d"
      by (rule destroyed_core [OF assms(2) d(2,1)])
    show ?thesis using d(1) d'(1) conn_core_inv(2) [OF d'(2)] by simp
  qed
  then have "heap_blocks h' = (\<Sum>q\<in>dom h - {p}. conn_blocks (the (h q)))"
    unfolding heap_blocks_def destroyed_dom [OF assms(1,2)] by (intro sum.cong) auto
  also have "\<dots> = heap_blocks h - conn_blocks c"
    using assms(1,3) by (simp add: heap_blocks_def sum_diff1 domI)
  finally show ?thesis .
qed

section \<open>Destroying the manager\<close>

text \<open>The objects at the places from \<open>i\<close> on.\<close>

definition free_all :: "conn_ptr list \<Rightarrow> conn_heap \<Rightarrow> conn_heap" where
  "free_all ps h = (\<lambda>p. if p \<in> set ps then None else h p)"

lemma free_all_Cons: "free_all (p # ps) h = free_all ps (h(p := None))"
  by (auto simp: free_all_def)

lemma destroy_loop_spec:
  assumes "distinct (drop (unat i) (take (unat n) xs))" "unat n \<le> length xs"
    and "\<forall>p \<in> set (drop (unat i) (take (unat n) xs)). h p \<noteq> None"
  shows "\<exists>s'. destroy_loop (Some xs) n i h s = Some (free_all (drop (unat i) (take (unat n) xs)) h, s') \<and>
    heap_frame s s' \<and>
    blocks s' = blocks s - (\<Sum>p\<leftarrow>drop (unat i) (take (unat n) xs). conn_blocks (the (h p)))"
  using assms
proof (induction "Some xs" n i h s rule: destroy_loop.induct)
  case (1 n i h s)
  let ?ps = "\<lambda>i. drop i (take (unat n) xs)"
  show ?case
  proof (cases "i < n")
    case False
    then have "?ps (unat i) = []" by (simp add: word_less_nat_alt)
    then show ?thesis using False by (simp add: destroy_loop.simps free_all_def)
  next
    case True
    let ?p = "xs ! unat i"
    have lt: "unat i < unat n" using True by (simp add: word_less_nat_alt)
    have ps: "?ps (unat i) = ?p # ?ps (unat i + 1)"
      using lt "1.prems"(2) by (simp add: Cons_nth_drop_Suc [symmetric])
    have inc: "unat (i + 1) = unat i + 1" by (rule unat_inc_less [OF True])
    obtain c where c: "h ?p = Some c" using "1.prems"(3) ps by auto
    obtain s1 where s1: "free_connection ?p h s = Some (h(?p := None), s1)" "heap_frame s s1"
        "blocks s1 = blocks s - conn_blocks c"
      by (rule blocks_free_connection [of h ?p c, OF c])
    have get: "mem_get (Some xs) (unat i) = Some ?p" using lt "1.prems"(2) by (simp add: mem_get_def)
    have notin: "?p \<notin> set (?ps (unat i + 1))" using "1.prems"(1) ps by simp
    have live: "\<forall>p \<in> set (?ps (unat i + 1)). (h(?p := None)) p \<noteq> None"
      using "1.prems"(3) ps notin by auto
    have sum: "(\<Sum>p\<leftarrow>?ps (unat i + 1). conn_blocks (the ((h(?p := None)) p))) =
        (\<Sum>p\<leftarrow>?ps (unat i + 1). conn_blocks (the (h p)))"
      using notin by (intro arg_cong [of _ _ sum_list] map_cong) auto
    have "\<exists>s'. destroy_loop (Some xs) n (i + 1) (h(?p := None)) s1
        = Some (free_all (?ps (unat i + 1)) (h(?p := None)), s') \<and> heap_frame s1 s' \<and>
        blocks s' = blocks s1 - (\<Sum>p\<leftarrow>?ps (unat i + 1). conn_blocks (the ((h(?p := None)) p)))"
      using "1.hyps" [OF True get s1(1) refl] "1.prems"(1,2) ps live inc by simp
    then show ?thesis
      using True get s1 heap_frame_trans [OF s1(2)] ps sum c
      by (subst destroy_loop.simps) (auto simp: free_all_Cons)
  qed
qed

section \<open>The manager as a table of objects\<close>

text \<open>The contract the event loop relies on: any live object can be removed, and nothing else goes.\<close>

locale object_table =
  fixes ok :: "'t \<Rightarrow> bool" and live :: "'t \<Rightarrow> nat set" and remove :: "nat \<Rightarrow> 't \<Rightarrow> 't option"
  assumes remove: "ok t \<Longrightarrow> p \<in> live t \<Longrightarrow> \<exists>t'. remove p t = Some t' \<and> ok t' \<and> live t' = live t - {p}"

primrec remove_each :: "(nat \<Rightarrow> 't \<Rightarrow> 't option) \<Rightarrow> nat list \<Rightarrow> 't \<Rightarrow> 't option" where
  "remove_each rem [] t = Some t"
| "remove_each rem (p # ps) t = do {
     t \<leftarrow> rem p t;
     remove_each rem ps t
   }"

context object_table
begin

lemma remove_in_any_order:
  assumes "ok t" "set ps \<subseteq> live t" "distinct ps"
  shows "\<exists>t'. remove_each remove ps t = Some t' \<and> ok t' \<and> live t' = live t - set ps"
  using assms
proof (induction ps arbitrary: t)
  case Nil
  then show ?case by simp
next
  case (Cons p ps)
  obtain t1 where t1: "remove p t = Some t1" "ok t1" "live t1 = live t - {p}"
    using remove [of t p] Cons.prems by auto
  have "set ps \<subseteq> live t1" using t1(3) Cons.prems by auto
  from Cons.IH [OF t1(2) this] Cons.prems t1 show ?case by auto
qed

end

type_synonym table = "vr_connection_manager_t \<times> conn_heap \<times> sys"

definition table_ok :: "table \<Rightarrow> bool" where
  "table_ok = (\<lambda>(m, h, s). mgr_inv m h \<and> 0 \<notin> set (managed m))"

definition table_live :: "table \<Rightarrow> conn_ptr set" where
  "table_live = (\<lambda>(m, h, s). set (managed m))"

definition table_remove :: "conn_ptr \<Rightarrow> table \<Rightarrow> table option" where
  "table_remove p = (\<lambda>(m, h, s). do {
     (r, m, h, s) \<leftarrow> vr_connection_destroy (Some m) p h s;
     m \<leftarrow> m;
     Some (m, h, s)
   })"

interpretation conns: object_table table_ok table_live table_remove
proof
  fix t p
  assume "table_ok t" "p \<in> table_live t"
  then obtain m h s where t: "t = (m, h, s)" "mgr_inv m h" "p \<in> set (managed m)" "p \<noteq> 0" "0 \<notin> set (managed m)"
    by (cases t) (auto simp: table_ok_def table_live_def)
  obtain c where c: "h p = Some c" using managed_live [OF t(2,3)] by blast
  obtain m' h' s' where d: "vr_connection_destroy (Some m) p h s = Some (VR_SUCCESS, Some m', h', s')"
      "destroyed m h p c m' h'"
    by (rule connection_destroy_spec [OF t(2,3) c t(4)])
  have "mgr_inv m' h'" using d(2) by (simp add: destroyed_def)
  moreover have "set (managed m') = set (managed m) - {p}" by (rule destroyed_members [OF t(2,3) c d(2)])
  ultimately show "\<exists>t'. table_remove p t = Some t' \<and> table_ok t' \<and> table_live t' = table_live t - {p}"
    using d(1) t by (auto simp: table_remove_def table_ok_def table_live_def)
qed

end
