(* ===== verification/Velora_Conn_Theorems.thy ===== *)
theory Velora_Conn_Theorems
  imports Velora_Conn_Spec
begin

text \<open>
  The properties of the connection manager: what creating and destroying connections does to the list
  of live objects, to the heap and to the number of allocated blocks.
\<close>

section \<open>A sample manager\<close>

definition sample_net :: vr_net_conn_t where
  "sample_net = \<lparr>nc_fd = 7, nc_addr = sockaddr_zero\<rparr>"

text \<open>Two connections, at the addresses 5 and 6, in an array of four places.\<close>

definition sample_manager :: vr_connection_manager_t where
  "sample_manager = \<lparr>mgr_slots = Some [5, 6, 0, 0], mgr_count = 2, mgr_capacity = 4\<rparr>"

definition sample_heap :: conn_heap where
  "sample_heap = [5 \<mapsto> new_connection sample_net 0, 6 \<mapsto> new_connection sample_net 1]"

lemma sample_managed [simp]: "managed sample_manager = [5, 6]"
  by (simp add: managed_def sample_manager_def)

lemma sample_manager_inv: "mgr_inv sample_manager sample_heap"
  unfolding mgr_inv_def sample_managed
  by (auto simp: sample_manager_def sample_heap_def new_connection_def less_2_cases_iff)

lemma sample_heap_at [simp]: "sample_heap 5 = Some (new_connection sample_net 0)"
  by (simp add: sample_heap_def)

lemma sample_capacity [simp]: "unat (mgr_capacity sample_manager) = 4"
  by (simp add: sample_manager_def)

section \<open>Properties\<close>

text \<open>\<open>vr_connection_create\<close> is total. Either it returns a null pointer, and then the connections
  and the heap are as they were, or it returns the address of a new object, zeroed but for the socket
  and its own place, which is added at the end of the list of connections. The manager's invariant
  holds in both cases and exactly the new object is allocated.\<close>

theorem connection_create_appends:
  assumes "mgr_inv m h" "unat (mgr_capacity m) < 2 ^ 59"
  shows "\<exists>p m' h' s'. vr_connection_create (Some m) conn h s = Some (p, Some m', h', s') \<and> mgr_inv m' h' \<and>
    heap_frame s s' \<and>
    (p = 0 \<and> managed m' = managed m \<and> h' = h \<and> blocks s' = blocks s \<or>
     p \<noteq> 0 \<and> h p = None \<and> managed m' = managed m @ [p] \<and> blocks s' = blocks s + 1 \<and>
       h' = h(p \<mapsto> new_connection conn (mgr_count m)))"
  using assms
proof (cases rule: connection_create_spec [where conn = conn and s = s])
  case (failed m' s')
  then show ?thesis by blast
next
  case (created p m' s')
  then show ?thesis by blast
qed

theorem connection_create_appends_witness:
  "\<exists>p m' h' s'. vr_connection_create (Some sample_manager) sample_net sample_heap (sys_with 1)
      = Some (p, Some m', h', s') \<and> mgr_inv m' h' \<and>
    (p = 0 \<and> managed m' = [5, 6] \<or> p \<noteq> 0 \<and> sample_heap p = None \<and> managed m' = [5, 6, p])"
  using connection_create_appends [OF sample_manager_inv, of sample_net "sys_with 1"] by fastforce

text \<open>C30. \<open>vr_connection_destroy\<close> of a managed connection succeeds: the last connection takes its place
  in the array and is told its new place, the object and the blocks of its two rings are freed, every
  other object is unchanged but for its place, and the invariant is kept.\<close>

theorem connection_destroy_removes:
  assumes "mgr_inv m h" "p \<in> set (managed m)" "h p = Some c" "p \<noteq> 0"
  shows "\<exists>m' h' s'. vr_connection_destroy (Some m) p h s = Some (VR_SUCCESS, Some m', h', s') \<and>
    mgr_inv m' h' \<and> managed m' = swap_remove (unat (cn_slot c)) (managed m) \<and>
    set (managed m') = set (managed m) - {p} \<and> dom h' = dom h - {p} \<and>
    (\<forall>q. q \<noteq> p \<longrightarrow> map_option conn_core (h' q) = map_option conn_core (h q)) \<and>
    heap_frame s s' \<and> blocks s' = blocks s - conn_blocks c"
proof -
  obtain m' h' s' where d: "vr_connection_destroy (Some m) p h s = Some (VR_SUCCESS, Some m', h', s')"
      "destroyed m h p c m' h'" "heap_frame s s'" "blocks s' = blocks s - conn_blocks c"
    by (rule connection_destroy_spec [OF assms])
  then show ?thesis
    using destroyed_members [OF assms(1-3) d(2)] destroyed_dom [OF assms(3) d(2)]
    by (auto simp: destroyed_def)
qed

theorem connection_destroy_removes_witness:
  "\<exists>m' h' s'. vr_connection_destroy (Some sample_manager) 5 sample_heap (sys_with 0)
      = Some (VR_SUCCESS, Some m', h', s') \<and> mgr_inv m' h' \<and> managed m' = [6] \<and> h' 5 = None"
  using connection_destroy_removes [OF sample_manager_inv, of 5 "new_connection sample_net 0" "sys_with 0"]
  by (auto simp: swap_remove_def new_connection_def dom_def)

text \<open>The connections can be destroyed in any order, as the event loop does: destroying a list of
  different managed connections one after the other never touches a freed object and leaves exactly
  the others.\<close>

theorem connections_destroyed_in_any_order:
  assumes "mgr_inv m h" "0 \<notin> set (managed m)" "set ps \<subseteq> set (managed m)" "distinct ps"
  shows "\<exists>m' h' s'. remove_each table_remove ps (m, h, s) = Some (m', h', s') \<and> mgr_inv m' h' \<and>
    set (managed m') = set (managed m) - set ps"
  using conns.remove_in_any_order [of "(m, h, s)" ps] assms
  by (auto simp: table_ok_def table_live_def)

theorem connections_destroyed_in_any_order_witness:
  "\<exists>m' h' s'. remove_each table_remove [6, 5] (sample_manager, sample_heap, sys_with 0) = Some (m', h', s') \<and>
     set (managed m') = {}"
  using connections_destroyed_in_any_order [OF sample_manager_inv, of "[6, 5]" "sys_with 0"] by auto

text \<open>\<open>vr_connection_manager_destroy\<close> frees every connection, the blocks of the rings and the array,
  if there is one, each once, leaves the other objects alone and a manager without connections.\<close>

theorem manager_destroy_frees_all:
  assumes "mgr_inv m h"
  shows "\<exists>m' s'. vr_connection_manager_destroy m h s
      = Some (VR_SUCCESS, m', (\<lambda>p. if p \<in> set (managed m) then None else h p), s') \<and>
    managed m' = [] \<and> mgr_slots m' = None \<and>
    blocks s' = blocks s - of_bool (mgr_slots m \<noteq> None) - (\<Sum>p\<leftarrow>managed m. conn_blocks (the (h p)))"
proof (cases "mgr_slots m = None")
  case True
  then have "mgr_count m = 0" "managed m = []" using assms by (auto simp: mgr_inv_def managed_def)
  then show ?thesis using True
    by (simp add: vr_connection_manager_destroy_def destroy_loop.simps [of _ 0] managed_def blocks_free)
next
  case False
  then obtain xs where xs: "mgr_slots m = Some xs" "length xs = unat (mgr_capacity m)"
      "managed m = take (unat (mgr_count m)) xs" "unat (mgr_count m) \<le> unat (mgr_capacity m)"
    by (rule mgr_invD [OF assms])
  have "\<forall>p \<in> set (managed m). h p \<noteq> None"
    using managed_live [OF assms] by (metis option.distinct(1))
  moreover have "distinct (managed m)" using assms by (simp add: mgr_inv_def)
  ultimately obtain s' where "destroy_loop (Some xs) (mgr_count m) 0 h s = Some (free_all (managed m) h, s')"
      "blocks s' = blocks s - (\<Sum>p\<leftarrow>managed m. conn_blocks (the (h p)))"
    using destroy_loop_spec [of 0 "mgr_count m" xs h s] xs by auto
  then show ?thesis using xs(1)
    by (simp add: vr_connection_manager_destroy_def free_all_def managed_def blocks_free)
qed

theorem manager_destroy_frees_all_witness:
  "\<exists>m' s'. vr_connection_manager_destroy sample_manager sample_heap (sys_with 0)
      = Some (VR_SUCCESS, m', (\<lambda>p. if p \<in> {5, 6} then None else sample_heap p), s') \<and> managed m' = []"
  using manager_destroy_frees_all [OF sample_manager_inv, of "sys_with 0"] by auto

end
