(* ===== verification/Velora_Net.thy ===== *)
theory Velora_Net
  imports Velora_Conn_Types
begin

text \<open>
  \<open>src/net/socket_utils.c\<close> and \<open>src/net/tcp_server.c\<close>: sockets. \<open>flags\<close> arguments are passed through
  to the kernel and left out.
\<close>

section \<open>Addresses\<close>

definition AF_INET :: uint16 where "AF_INET = 2"
definition INADDR_ANY :: uint32 where "INADDR_ANY = 0"

text \<open>Host to network byte order on a little-endian host.\<close>

definition htons :: "uint16 \<Rightarrow> uint16" where
  "htons v = push_bit 8 v OR drop_bit 8 v"

definition htonl :: "uint32 \<Rightarrow> uint32" where
  "htonl v = push_bit 24 v OR push_bit 8 (v AND 0xFF00) OR (drop_bit 8 v AND 0xFF00) OR drop_bit 24 v"

definition vr_server_addr_init :: "sockaddr_in option \<Rightarrow> uint16 \<Rightarrow> vr_result_t \<times> sockaddr_in option" where
  "vr_server_addr_init addr port = (case addr of
       None \<Rightarrow> (VR_ERROR, None)
     | Some _ \<Rightarrow> (VR_SUCCESS, Some (sockaddr_zero\<lparr>sin_port := htons port, sin_family := AF_INET,
         sin_addr := htonl INADDR_ANY\<rparr>)))"

section \<open>Socket calls\<close>

definition vr_socket_create :: "sys \<Rightarrow> int \<times> sys" where
  "vr_socket_create s = (case ret_call s of (fd, s) \<Rightarrow> if fd = -1 then (-1, s) else (fd, s))"

definition vr_socket_bind :: "sockaddr_in option \<Rightarrow> int \<Rightarrow> sys \<Rightarrow> vr_result_t \<times> sys" where
  "vr_socket_bind addr fd s = (case ret_call s of (res, s) \<Rightarrow> (if res = -1 then VR_ERROR else VR_SUCCESS, s))"

definition vr_socket_listen :: "int \<Rightarrow> sys \<Rightarrow> vr_result_t \<times> sys" where
  "vr_socket_listen fd s = (case ret_call s of (res, s) \<Rightarrow> (if res = -1 then VR_ERROR else VR_SUCCESS, s))"

definition vr_socket_set_reuseaddr :: "int \<Rightarrow> sys \<Rightarrow> vr_result_t \<times> sys" where
  "vr_socket_set_reuseaddr fd s = (case ret_call s of (res, s) \<Rightarrow> (if res = -1 then VR_ERROR else VR_SUCCESS, s))"

definition vr_socket_set_non_blocking :: "int \<Rightarrow> sys \<Rightarrow> vr_result_t \<times> sys" where
  "vr_socket_set_non_blocking sockfd s = (case ret_call s of (flags, s) \<Rightarrow>
     if flags = -1 then (VR_ERROR, s)
     else (case ret_call s of (res, s) \<Rightarrow> (if res = -1 then VR_ERROR else VR_SUCCESS, s)))"

text \<open>\<open>recv\<close> into the block \<open>buf\<close> at \<open>off\<close>.\<close>

definition vr_socket_recv ::
  "int \<Rightarrow> bytes option \<Rightarrow> nat \<Rightarrow> size_t \<Rightarrow> sys \<Rightarrow> (ssize_t \<times> bytes option \<times> sys) option" where
  "vr_socket_recv fd buf off len s = (case recv_call fd (unat len) s of
       (None, s) \<Rightarrow> Some (-1, buf, s)
     | (Some bs, s) \<Rightarrow> do {
         d \<leftarrow> mem_write buf off bs;
         Some (int (length bs), Some d, s)
       })"

section \<open>Receiving into a ring\<close>

text \<open>\<open>recvmsg\<close> with one or two regions of the same block: the bytes fill the first region, then the
  second. A length of 0 for the second region stands for a vector of one region.\<close>

definition recvmsg_regions ::
  "int \<Rightarrow> bytes option \<Rightarrow> nat \<Rightarrow> size_t \<Rightarrow> nat \<Rightarrow> size_t \<Rightarrow> sys \<Rightarrow> (ssize_t \<times> bytes option \<times> sys) option" where
  "recvmsg_regions fd data off1 len1 off2 len2 s =
     (case recv_call fd (unat len1 + unat len2) s of
        (None, s) \<Rightarrow> Some (-1, data, s)
      | (Some bs, s) \<Rightarrow> do {
          d \<leftarrow> mem_write data off1 (take (unat len1) bs);
          d \<leftarrow> mem_write (Some d) off2 (drop (unat len1) bs);
          Some (int (length bs), Some d, s)
        })"

text \<open>\<open>write_pos = (write_pos + received_len) % capacity\<close> and \<open>count += received_len\<close>.\<close>

definition ring_received :: "vr_connection_ring_buf_t \<Rightarrow> bytes option \<Rightarrow> ssize_t \<Rightarrow> vr_connection_ring_buf_t option" where
  "ring_received buf data received_len =
     (if rb_capacity buf = 0 then None
      else Some (buf\<lparr>rb_data := data,
        rb_write_pos := of_int ((uint (rb_write_pos buf) + received_len) mod uint (rb_capacity buf)),
        rb_count := rb_count buf + of_int received_len\<rparr>))"

definition vr_socket_recv_ring_buf ::
  "int \<Rightarrow> vr_connection_ring_buf_t \<Rightarrow> sys \<Rightarrow> (ssize_t \<times> vr_connection_ring_buf_t \<times> sys) option" where
  "vr_socket_recv_ring_buf fd buf s =
     (if rb_count buf = rb_capacity buf then Some (-1, buf, s\<lparr>errno := ENOBUFS\<rparr>)
      else
        (let free_space = ucast (rb_capacity buf - rb_count buf) :: size_t
         in if rb_write_pos buf \<ge> rb_read_pos buf then
           (let region1_len = ucast (rb_capacity buf - ucast (rb_write_pos buf)) :: size_t;
                region1_len = (if region1_len > free_space then free_space else region1_len);
                region2_len = free_space - region1_len;
                region2_len = (if region2_len > ucast (rb_read_pos buf) then ucast (rb_read_pos buf) else region2_len)
            in do {
              (received_len, data, s) \<leftarrow>
                recvmsg_regions fd (rb_data buf) (unat (rb_write_pos buf)) region1_len 0 region2_len s;
              if received_len \<le> 0 then Some (received_len, buf\<lparr>rb_data := data\<rparr>, s)
              else do {
                buf \<leftarrow> ring_received buf data received_len;
                Some (received_len, buf, s)
              }
            })
         else
           (let contiguous = ucast (rb_read_pos buf - rb_write_pos buf) :: size_t;
                contiguous = (if contiguous > free_space then free_space else contiguous)
            in do {
              (received_len, data, s) \<leftarrow> vr_socket_recv fd (rb_data buf) (unat (rb_write_pos buf)) contiguous s;
              if received_len \<le> 0 then Some (received_len, buf\<lparr>rb_data := data\<rparr>, s)
              else do {
                buf \<leftarrow> ring_received buf data received_len;
                Some (received_len, buf, s)
              }
            })))"

section \<open>Sending\<close>

text \<open>\<open>send\<close> of \<open>len\<close> bytes at \<open>off\<close> of the block \<open>buf\<close>.\<close>

definition vr_socket_send :: "int \<Rightarrow> bytes option \<Rightarrow> nat \<Rightarrow> size_t \<Rightarrow> sys \<Rightarrow> (ssize_t \<times> sys) option" where
  "vr_socket_send fd buf off len s = do {
     xs \<leftarrow> mem_read buf off (unat len);
     Some (send_call fd xs s)
   }"

lemma send_call_bounds: "send_call fd xs s = (n, s') \<Longrightarrow> -1 \<le> n \<and> n \<le> int (length xs)"
  by (auto simp: send_call_def Let_def split: list.splits send_answer.splits)

text \<open>The loop of \<open>vr_socket_send_all\<close>: the value returned, and \<open>*len\<close>, which only the loop's end sets.\<close>

function send_all_loop ::
  "int \<Rightarrow> bytes option \<Rightarrow> nat \<Rightarrow> nat \<Rightarrow> nat \<Rightarrow> sys \<Rightarrow> (ssize_t \<times> nat \<times> sys) option" where
  "send_all_loop fd buf len total' bytes_left s =
     (if total' < len then do {
        xs \<leftarrow> mem_read buf total' bytes_left;
        (let (n, s) = send_call fd xs s
         in if n = -1 then Some (-1, len, s)
            else if n = 0 then Some (int total', len, s)
            else send_all_loop fd buf len (total' + nat n) (bytes_left - nat n) s)
      } else Some (int total', total', s))"
  by pat_completeness auto
termination
  by (relation "measure (\<lambda>(fd, buf, len, total', bytes_left, s). len - total')")
    (auto dest: send_call_bounds [OF sym])

declare send_all_loop.simps [simp del]

definition vr_socket_send_all :: "int \<Rightarrow> bytes option \<Rightarrow> size_t \<Rightarrow> sys \<Rightarrow> (ssize_t \<times> size_t \<times> sys) option" where
  "vr_socket_send_all fd buf len s = do {
     (r, len', s) \<leftarrow> send_all_loop fd buf (unat len) 0 (unat len) s;
     Some (r, of_nat len', s)
   }"

section \<open>The TCP server\<close>

text \<open>The numeric value of a result, for the code that compares a descriptor with \<open>VR_ERROR\<close>.\<close>

fun vr_result_code :: "vr_result_t \<Rightarrow> int" where
  "vr_result_code VR_SUCCESS = 0"
| "vr_result_code VR_ERROR = 1"
| "vr_result_code VR_INTERRUPTED = 2"
| "vr_result_code VR_EMPTY = 3"

definition vr_tcp_server_create :: "uint16 \<Rightarrow> int option \<Rightarrow> sys \<Rightarrow> vr_result_t \<times> int option \<times> sys" where
  "vr_tcp_server_create port socket_fd s = (case socket_fd of
       None \<Rightarrow> (VR_ERROR, None, s)
     | Some _ \<Rightarrow>
         (case vr_server_addr_init (Some sockaddr_zero) port of (r, addr) \<Rightarrow>
            if r = VR_ERROR then (VR_ERROR, socket_fd, s)
            else (case vr_socket_create s of (fd, s) \<Rightarrow>
              if fd = vr_result_code VR_ERROR then (VR_ERROR, Some fd, s)
              else (case vr_socket_set_reuseaddr fd s of (r, s) \<Rightarrow>
                if r = VR_ERROR then (VR_ERROR, Some fd, close_call fd s)
                else (case vr_socket_bind addr fd s of (r, s) \<Rightarrow>
                  if r = VR_ERROR then (VR_ERROR, Some fd, close_call fd s)
                  else (case vr_socket_listen fd s of (r, s) \<Rightarrow>
                    if r = VR_ERROR then (VR_ERROR, Some fd, close_call fd s)
                    else (VR_SUCCESS, Some fd, s)))))))"

definition vr_tcp_accept :: "int \<Rightarrow> vr_net_conn_t \<Rightarrow> sys \<Rightarrow> vr_result_t \<times> vr_net_conn_t \<times> sys" where
  "vr_tcp_accept server_fd conn s = (case accept_call s of
       (None, s) \<Rightarrow>
         if errno s = EAGAIN \<or> errno s = EWOULDBLOCK then (VR_EMPTY, conn, s) else (VR_ERROR, conn, s)
     | (Some (client_fd, client_addr), s) \<Rightarrow> (case ntop_call s of (converted, s) \<Rightarrow>
         if \<not> converted then (VR_ERROR, conn, close_call client_fd s)
         else (VR_SUCCESS, conn\<lparr>nc_fd := client_fd, nc_addr := client_addr\<rparr>, s)))"

end
