(* ===== verification/Velora_Net_Spec.thy ===== *)
theory Velora_Net_Spec
  imports Velora_Net
begin

text \<open>
  Receiving into a ring as appending to its byte queue, and sending as emitting a prefix of the data.
\<close>

section \<open>Scattering bytes over the two regions of a ring\<close>

lemma cyc_scatter_append:
  assumes "r < length d" "n + length ys \<le> length d" "w = (r + n) mod length d"
    and "k = length ys \<and> w + k \<le> length d \<or> w + k = length d \<and> k \<le> length ys"
  shows "cyc (overwrite (overwrite d w (take k ys)) 0 (drop k ys)) r (n + length ys) = cyc d r n @ ys"
proof -
  let ?d = "overwrite d w (take k ys)"
  have k: "k \<le> length ys" "w + k \<le> length d" using assms(4) by auto
  have len: "length ?d = length d" using k by simp
  have fst: "cyc ?d r (n + k) = cyc d r n @ take k ys"
    using cyc_overwrite_append [of r d n "take k ys" w] assms(1-3) k by simp
  show ?thesis
  proof (cases "k = length ys")
    case True
    then show ?thesis using fst by simp
  next
    case False
    then have "w + k = length d" using assms(4) by simp
    then have "(r + (n + k)) mod length d = 0"
      using assms(3) by (metis add.assoc mod_add_left_eq mod_self)
    then have "cyc (overwrite ?d 0 (drop k ys)) r (n + k + length (drop k ys)) = cyc ?d r (n + k) @ drop k ys"
      using assms(1,2) k len by (intro cyc_overwrite_append) simp_all
    then show ?thesis using fst k(1) by simp
  qed
qed

lemma ring_received_spec:
  assumes "ring_inv b" "rb_data b = Some d" "length (ring_contents b) + length bs \<le> unat (rb_capacity b)"
    and "k = length bs \<and> unat (rb_write_pos b) + k \<le> length d \<or>
         unat (rb_write_pos b) + k = length d \<and> k \<le> length bs"
  defines "d' \<equiv> overwrite (overwrite d (unat (rb_write_pos b)) (take k bs)) 0 (drop k bs)"
  obtains b' where "ring_received b (Some d') (int (length bs)) = Some b'" "ring_inv b'"
    "ring_contents b' = ring_contents b @ bs"
proof -
  note inv = assms(1) [unfolded ring_inv_live [OF assms(2)]]
  let ?c = "unat (rb_capacity b)" and ?w = "unat (rb_write_pos b)" and ?r = "unat (rb_read_pos b)"
    and ?n = "unat (rb_count b)"
  have cnt: "length (ring_contents b) = ?n" by (rule length_ring_contents [OF assms(1)])
  have len: "length d' = length d" using assms(3,4) inv by (auto simp: d'_def)
  let ?b = "b\<lparr>rb_data := Some d', rb_write_pos := of_nat ((?w + length bs) mod ?c),
    rb_count := rb_count b + of_nat (length bs)\<rparr>"
  have "(uint (rb_write_pos b) + int (length bs)) mod uint (rb_capacity b) = int ((?w + length bs) mod ?c)"
    by (simp add: zmod_int)
  then have rec: "ring_received b (Some d') (int (length bs)) = Some ?b"
    using inv by (auto simp: ring_received_def)
  have cap: "?c \<le> 65536" "0 < ?c" using inv by auto
  then have "(?w + length bs) mod ?c < 65536" by (meson mod_less_divisor order_less_le_trans)
  then have wp: "unat (rb_write_pos ?b) = (?w + length bs) mod ?c" by (simp add: unat_of_nat)
  have rc: "unat (rb_count ?b) = ?n + length bs"
    using assms(3) cnt cap by (simp add: unat_word_ariths unat_of_nat)
  have "cyc d' ?r (?n + length bs) = cyc d ?r ?n @ bs"
    unfolding d'_def using inv assms(3,4) cnt by (intro cyc_scatter_append) auto
  then have "ring_contents ?b = ring_contents b @ bs" using rc assms(2) by (simp add: ring_contents_def)
  moreover have "(?w + length bs) mod ?c = (?r + (?n + length bs)) mod ?c"
    using inv by (simp add: mod_add_left_eq add.assoc)
  then have "ring_inv ?b" using inv rc wp len assms(3) cnt by (simp add: ring_inv_def)
  ultimately show ?thesis using rec that by blast
qed

section \<open>Receiving\<close>

lemma recv_call_length: "recv_call fd n s = (Some bs, s') \<Longrightarrow> length bs \<le> n"
  by (auto simp: recv_call_def split: list.splits recv_answer.splits if_splits)

text \<open>What receiving at most \<open>n\<close> bytes does to the ring.\<close>

definition received ::
  "int \<Rightarrow> nat \<Rightarrow> vr_connection_ring_buf_t \<Rightarrow> sys \<Rightarrow> (ssize_t \<times> vr_connection_ring_buf_t \<times> sys) option \<Rightarrow> bool" where
  "received fd n b s res \<longleftrightarrow> (case recv_call fd n s of
       (None, s') \<Rightarrow> res = Some (-1, b, s')
     | (Some bs, s') \<Rightarrow> \<exists>b'. res = Some (int (length bs), b', s') \<and> ring_inv b' \<and> rb_data b' \<noteq> None \<and>
         ring_contents b' = ring_contents b @ bs)"

lemma received_store:
  assumes "ring_inv b" "rb_data b = Some d" "length (ring_contents b) + length bs \<le> unat (rb_capacity b)"
    and "k = length bs \<and> unat (rb_write_pos b) + k \<le> length d \<or>
         unat (rb_write_pos b) + k = length d \<and> k \<le> length bs"
    and "mem_write (Some d) (unat (rb_write_pos b)) (take k bs) = Some d1"
    and "mem_write (Some d1) 0 (drop k bs) = Some d2"
  shows "\<exists>b'. (if int (length bs) \<le> 0 then Some (int (length bs), b\<lparr>rb_data := Some d2\<rparr>, s')
      else do { buf \<leftarrow> ring_received b (Some d2) (int (length bs)); Some (int (length bs), buf, s') })
      = Some (int (length bs), b', s') \<and> ring_inv b' \<and> rb_data b' \<noteq> None \<and>
    ring_contents b' = ring_contents b @ bs"
proof -
  have d2: "d2 = overwrite (overwrite d (unat (rb_write_pos b)) (take k bs)) 0 (drop k bs)"
    using assms(5,6) by (auto simp: mem_write_def split: if_splits)
  show ?thesis
  proof (cases "bs = []")
    case True
    then have "b\<lparr>rb_data := Some d2\<rparr> = b" using d2 assms(2) by (cases b) simp
    then show ?thesis using True assms(1,2) by simp
  next
    case False
    obtain b' where "ring_received b (Some d2) (int (length bs)) = Some b'" "ring_inv b'"
        "ring_contents b' = ring_contents b @ bs"
      unfolding d2 by (rule ring_received_spec [OF assms(1-4)])
    moreover from this have "rb_data b' \<noteq> None"
      using False ring_data_None_iff [of b'] by auto
    ultimately show ?thesis using False by simp
  qed
qed

text \<open>A plain \<open>recv\<close> is a \<open>recvmsg\<close> with an empty second region.\<close>

lemma recv_is_recvmsg:
  "vr_socket_recv fd data off len s = recvmsg_regions fd data off len 0 0 s"
proof (cases "recv_call fd (unat len) s")
  case (Pair o' s')
  show ?thesis
  proof (cases o')
    case None
    then show ?thesis using Pair by (simp add: vr_socket_recv_def recvmsg_regions_def)
  next
    case (Some bs)
    then have "length bs \<le> unat len" using recv_call_length Pair by simp
    then show ?thesis using Pair Some
      by (simp add: vr_socket_recv_def recvmsg_regions_def mem_write_Some
          split: bind_splits)
  qed
qed

text \<open>The common end of both paths of \<open>vr_socket_recv_ring_buf\<close>.\<close>

definition recv_finish ::
  "vr_connection_ring_buf_t \<Rightarrow> ssize_t \<times> bytes option \<times> sys \<Rightarrow>
     (ssize_t \<times> vr_connection_ring_buf_t \<times> sys) option" where
  "recv_finish b = (\<lambda>(received_len, data, s).
     if received_len \<le> 0 then Some (received_len, b\<lparr>rb_data := data\<rparr>, s)
     else do { buf \<leftarrow> ring_received b data received_len; Some (received_len, buf, s) })"

lemma recvmsg_received:
  assumes "ring_inv b" "rb_data b = Some d"
    and "unat l1 + unat l2 = unat (rb_capacity b) - length (ring_contents b)"
    and "unat (rb_write_pos b) + unat l1 \<le> length d" "l2 = 0 \<or> unat (rb_write_pos b) + unat l1 = length d"
  shows "received fd (unat (rb_capacity b) - length (ring_contents b)) b s
    (recvmsg_regions fd (Some d) (unat (rb_write_pos b)) l1 0 l2 s \<bind> recv_finish b)"
proof (cases "recv_call fd (unat l1 + unat l2) s")
  case (Pair o' s')
  show ?thesis
  proof (cases o')
    case None
    then show ?thesis using Pair assms(2,3)
      by (cases b) (simp add: received_def recvmsg_regions_def recv_finish_def)
  next
    case (Some bs)
    let ?k = "min (unat l1) (length bs)"
    have le: "length bs \<le> unat l1 + unat l2" using recv_call_length Pair Some by simp
    have cap: "length (ring_contents b) + (unat l1 + unat l2) \<le> unat (rb_capacity b)"
        "length d = unat (rb_capacity b)"
      using assms(1-3) ring_count_le [OF assms(1)] length_ring_contents [OF assms(1)]
      by (auto simp: ring_inv_live [OF assms(2)])
    have k: "?k = length bs \<and> unat (rb_write_pos b) + ?k \<le> length d \<or>
        unat (rb_write_pos b) + ?k = length d \<and> ?k \<le> length bs"
      using assms(4,5) le by (auto simp: min_def)
    have w1: "mem_write (Some d) (unat (rb_write_pos b)) (take ?k bs)
        = Some (overwrite d (unat (rb_write_pos b)) (take ?k bs))" (is "_ = Some ?d1")
      using assms(4) by (simp add: mem_write_Some)
    have w2: "mem_write (Some ?d1) 0 (drop ?k bs) = Some (overwrite ?d1 0 (drop ?k bs))"
      using assms(4) cap le by (simp add: mem_write_Some)
    have tk: "take (unat l1) bs = take ?k bs" "drop (unat l1) bs = drop ?k bs" by (auto simp: min_def)
    have fit: "length (ring_contents b) + length bs \<le> unat (rb_capacity b)" using le cap(1) by simp
    show ?thesis
      using received_store [OF assms(1,2) fit k w1 w2, of s'] Pair Some assms(3) tk w1 w2
      by (simp add: received_def recvmsg_regions_def recv_finish_def)
  qed
qed

lemma recv_ring_buf_full:
  "rb_count b = rb_capacity b \<Longrightarrow> vr_socket_recv_ring_buf fd b s = Some (-1, b, s\<lparr>errno := ENOBUFS\<rparr>)"
  by (simp add: vr_socket_recv_ring_buf_def)

lemma recv_ring_buf_spec:
  assumes "ring_inv b" "rb_count b \<noteq> rb_capacity b"
  shows "received fd (unat (rb_capacity b) - length (ring_contents b)) b s (vr_socket_recv_ring_buf fd b s)"
proof (cases rule: ring_inv_cases [OF assms(1)])
  case 1
  then show ?thesis using assms(2) by (simp add: ring_zero_def)
next
  case (2 d)
  note inv = assms(1) [unfolded ring_inv_live [OF 2(1)]]
  let ?c = "unat (rb_capacity b)" and ?w = "unat (rb_write_pos b)" and ?r = "unat (rb_read_pos b)"
    and ?n = "unat (rb_count b)"
  have cnt: "length (ring_contents b) = ?n" by (rule length_ring_contents [OF assms(1)])
  have lt: "?n < ?c" using inv assms(2) by (simp add: le_neq_trans word_unat_eq_iff)
  have wc: "?w < ?c" using inv by simp
  have wrap: "?w = ?r + ?n - ?c" if "\<not> ?r + ?n < ?c"
  proof -
    have "?r + ?n - ?c < ?c" using inv lt by linarith
    then show ?thesis using that inv by (simp add: le_mod_geq)
  qed
  have free: "unat (rb_capacity b - rb_count b) = ?c - ?n" using lt by (simp add: unat_sub unat_order)
  show ?thesis
  proof (cases "?r \<le> ?w")
    case True
    have w: "?w = ?r + ?n"
    proof (rule ccontr)
      assume "?w \<noteq> ?r + ?n"
      then have ge: "\<not> ?r + ?n < ?c" using inv by auto
      from wrap [OF this] ge True lt show False by linarith
    qed
    let ?R1 = "ucast (rb_capacity b - ucast (rb_write_pos b)) :: size_t"
    let ?F = "ucast (rb_capacity b - rb_count b) :: size_t"
    let ?R2 = "?F - ?R1"
    have r1: "unat ?R1 = ?c - ?w" using wc by (simp add: unat_sub unat_order)
    have F: "unat ?F = ?c - ?n" using free by simp
    have r2: "unat ?R2 = ?r" using r1 F w wc by (subst unat_sub) (simp_all add: word_le_nat_alt)
    have cmp: "\<not> ?R1 > ?F" "\<not> ?R2 > ucast (rb_read_pos b)" "rb_read_pos b \<le> rb_write_pos b"
      using r1 r2 F w True by (simp_all add: unat_order)
    have "vr_socket_recv_ring_buf fd b s = recvmsg_regions fd (Some d) ?w ?R1 0 ?R2 s \<bind> recv_finish b"
      using cmp assms(2) 2(1) by (simp add: vr_socket_recv_ring_buf_def Let_def recv_finish_def)
    then show ?thesis
      using recvmsg_received [OF assms(1) 2(1), of ?R1 ?R2 fd s] r1 r2 w wc cnt 2(2) by simp
  next
    case False
    have "\<not> ?r + ?n < ?c" using False inv by auto
    then have w: "?w = ?r + ?n - ?c" by (rule wrap)
    let ?L = "ucast (rb_read_pos b - rb_write_pos b) :: size_t"
    let ?F = "ucast (rb_capacity b - rb_count b) :: size_t"
    have L: "unat ?L = ?c - ?n" "\<not> ?L > ?F" "\<not> rb_read_pos b \<le> rb_write_pos b"
      using False w free lt \<open>\<not> ?r + ?n < ?c\<close> by (simp_all add: unat_sub unat_order)
    have "vr_socket_recv_ring_buf fd b s = recvmsg_regions fd (Some d) ?w ?L 0 0 s \<bind> recv_finish b"
      using L assms(2) 2(1) by (simp add: vr_socket_recv_ring_buf_def Let_def recv_finish_def recv_is_recvmsg)
    then show ?thesis
      using recvmsg_received [OF assms(1) 2(1), of ?L 0 fd s] L(1) w cnt inv \<open>\<not> ?r + ?n < ?c\<close> by simp
  qed
qed

section \<open>Sending\<close>

lemma send_call_cases:
  obtains (error) s' where "send_call fd xs s = (-1, s')" "sent s' = sent s"
  | (taken) k s' where "send_call fd xs s = (int k, s')" "k \<le> length xs" "sent s' = sent s @ [(fd, take k xs)]"
proof (cases "sends s")
  case Nil
  then show ?thesis using error by (simp add: send_call_def)
next
  case (Cons a as)
  then show ?thesis using error taken by (cases a) (auto simp: send_call_def Let_def)
qed

text \<open>The bytes that a log of calls carries on one descriptor.\<close>

definition bytes_on :: "int \<Rightarrow> (int \<times> bytes) list \<Rightarrow> bytes" where
  "bytes_on fd xs = concat (map snd (filter (\<lambda>x. fst x = fd) xs))"

lemma bytes_on_append [simp]: "bytes_on fd (xs @ ys) = bytes_on fd xs @ bytes_on fd ys"
  by (simp add: bytes_on_def)

lemma bytes_on_Nil [simp]: "bytes_on fd [] = []"
  by (simp add: bytes_on_def)

lemma bytes_on_single [simp]: "bytes_on fd [(fd, xs)] = xs"
  by (simp add: bytes_on_def)

lemma bytes_on_calls [simp]: "bytes_on fd (map (Pair fd') xss) = (if fd = fd' then concat xss else [])"
  by (auto simp: bytes_on_def comp_def)

lemma send_all_loop_spec:
  assumes "len \<le> length d" "t \<le> len"
  shows "\<exists>r len' s' k. send_all_loop fd (Some d) len t (len - t) s = Some (r, len', s') \<and> len' = len \<and>
    k \<le> len - t \<and> bytes_on fd (sent s') = bytes_on fd (sent s) @ take k (drop t d) \<and>
    (r = int len \<and> k = len - t \<or> r = -1 \<and> k < len - t \<or> r = int (t + k) \<and> k < len - t)"
  using assms
proof (induction "len - t" arbitrary: t s rule: less_induct)
  case less
  show ?case
  proof (cases "t < len")
    case False
    then have "t = len" using less.prems by simp
    then show ?thesis by (simp add: send_all_loop.simps)
  next
    case True
    let ?xs = "take (len - t) (drop t d)"
    have rd: "mem_read (Some d) t (len - t) = Some ?xs" using less.prems by (simp add: mem_read_Some)
    show ?thesis
    proof (cases rule: send_call_cases [of fd ?xs s])
      case (error s')
      then show ?thesis using True rd
        by (intro exI [of _ "-1"] exI [of _ len] exI [of _ s'] exI [of _ 0])
          (subst send_all_loop.simps, simp)
    next
      case (taken k s1)
      have k: "k \<le> len - t" using taken(2) by simp
      show ?thesis
      proof (cases "k = 0")
        case True
        then show ?thesis using \<open>t < len\<close> rd taken
          by (intro exI [of _ "int t"] exI [of _ len] exI [of _ s1] exI [of _ 0])
            (subst send_all_loop.simps, simp)
      next
        case False
        have step: "send_all_loop fd (Some d) len t (len - t) s
            = send_all_loop fd (Some d) len (t + k) (len - (t + k)) s1"
          using True rd taken(1) False by (subst send_all_loop.simps) simp
        have shorter: "len - (t + k) < len - t" and bound: "t + k \<le> len" using False k True by simp_all
        obtain r s' k' where ih: "send_all_loop fd (Some d) len (t + k) (len - (t + k)) s1 = Some (r, len, s')"
            "k' \<le> len - (t + k)"
            "bytes_on fd (sent s') = bytes_on fd (sent s1) @ take k' (drop (t + k) d)"
            "r = int len \<and> k' = len - (t + k) \<or> r = -1 \<and> k' < len - (t + k) \<or>
             r = int (t + k + k') \<and> k' < len - (t + k)"
          using less.hyps [OF shorter less.prems(1) bound, of s1] by auto
        have "take k (drop t d) @ take k' (drop (t + k) d) = take (k + k') (drop t d)"
          by (simp add: take_add [of k k'] add.commute [of t])
        moreover have "take k ?xs = take k (drop t d)" using k by simp
        ultimately have "bytes_on fd (sent s') = bytes_on fd (sent s) @ take (k + k') (drop t d)"
          using ih(3) taken(3) by simp
        moreover have "r = int len \<and> k + k' = len - t \<or> r = -1 \<and> k + k' < len - t \<or>
            r = int (t + (k + k')) \<and> k + k' < len - t"
          using ih(4) bound by (elim disjE) auto
        moreover have "k + k' \<le> len - t" using ih(2) bound by simp
        ultimately show ?thesis using step ih(1) by auto
      qed
    qed
  qed
qed

end
