(* ===== verification/Velora_Net_Theorems.thy ===== *)
theory Velora_Net_Theorems
  imports Velora_Net_Spec Velora_Ring_Theorems
begin

text \<open>
  The properties of the socket layer: receiving into a ring, sending a whole buffer, the byte order of
  ports, and what the server's set-up does with descriptor 1.
\<close>

text \<open>C31. \<open>vr_socket_recv_ring_buf\<close> is total on every ring that satisfies the invariant. On a full or
  unallocated ring it fails with \<open>ENOBUFS\<close> and asks the kernel nothing. Otherwise it asks the kernel for
  exactly the free space, in one call even when that space wraps; the bytes received are appended to the
  ring's queue in order, none is lost or overwritten, and on an error or an end of file the ring is
  unchanged.\<close>

theorem recv_ring_appends:
  assumes "ring_inv b"
  shows "if rb_count b = rb_capacity b
    then vr_socket_recv_ring_buf fd b s = Some (-1, b, s\<lparr>errno := ENOBUFS\<rparr>)
    else (case recv_call fd (unat (vr_conn_ring_buf_free b)) s of
        (None, s') \<Rightarrow> vr_socket_recv_ring_buf fd b s = Some (-1, b, s')
      | (Some bs, s') \<Rightarrow> \<exists>b'. vr_socket_recv_ring_buf fd b s = Some (int (length bs), b', s') \<and>
          ring_inv b' \<and> ring_contents b' = ring_contents b @ bs)"
proof (cases "rb_count b = rb_capacity b")
  case True
  then show ?thesis by (simp add: recv_ring_buf_full)
next
  case False
  have "unat (vr_conn_ring_buf_free b) = unat (rb_capacity b) - length (ring_contents b)"
    using unat_ring_free [OF assms] length_ring_contents [OF assms] by simp
  then show ?thesis using recv_ring_buf_spec [OF assms False, of fd s] False
    by (auto simp: received_def split: prod.splits option.splits)
qed

theorem recv_ring_appends_witness:
  "\<exists>b'. vr_socket_recv_ring_buf 4 sample_ring (sys_with 0\<lparr>recvs := [Recv_bytes [9, 10]]\<rparr>)
      = Some (2, b', sys_with 0\<lparr>recvs := [], rcvd := [(4, [9, 10])]\<rparr>) \<and>
    ring_inv b' \<and> ring_contents b' = [7, 8, 1, 2, 3, 9, 10]"
proof -
  have "unat (vr_conn_ring_buf_free sample_ring) = 3"
    by (simp add: vr_conn_ring_buf_free_def sample_ring_def)
  moreover have "rb_count sample_ring \<noteq> rb_capacity sample_ring" by (simp add: sample_ring_def)
  ultimately show ?thesis
    using recv_ring_appends [OF sample_ring_inv, of 4 "sys_with 0\<lparr>recvs := [Recv_bytes [9, 10]]\<rparr>"]
    by (simp add: recv_call_def sample_ring_contents sys_with_def)
qed



text \<open>\<open>vr_server_addr_init\<close> stores the port in network byte order: the first of the two bytes in
  memory is the high one, and converting twice gives the port back.\<close>

theorem server_addr_port:
  "\<exists>a. vr_server_addr_init (Some addr) port = (VR_SUCCESS, Some a) \<and> sin_addr a = 0 \<and>
     htons (sin_port a) = port \<and>
     vr_encode_u16 port = [ucast (sin_port a), ucast (drop_bit 8 (sin_port a))]"
proof -
  have "htons (htons port) = port"
    by (rule bit_word_eqI) (auto simp: htons_def bit_simps)
  moreover have "vr_encode_u16 port = [ucast (htons port), ucast (drop_bit 8 (htons port))]"
    by (auto simp: htons_def vr_encode_u16_def byte_mask bit_simps intro!: bit_word_eqI)
  ultimately show ?thesis by (simp add: vr_server_addr_init_def INADDR_ANY_def htonl_def)
qed

text \<open>C33. The set-up of the server compares the new descriptor with the result code \<open>VR_ERROR\<close>, whose
  value is 1, instead of -1: a valid socket with descriptor 1 is reported as an error and never closed,
  and a failed \<open>socket\<close> call goes on to \<open>setsockopt\<close> with descriptor -1.\<close>

theorem server_create_descriptor_check:
  assumes "rets s = Inr 1 # rs \<or> rets s = Inl e # Inl e' # rs"
  shows "fst (vr_tcp_server_create port (Some fd0) s) = VR_ERROR \<and>
    closed (snd (snd (vr_tcp_server_create port (Some fd0) s))) =
      (if hd (rets s) = Inr 1 then closed s else closed s @ [-1])"
  using assms
  by (auto simp: vr_tcp_server_create_def vr_server_addr_init_def vr_socket_create_def ret_call_def
      vr_socket_set_reuseaddr_def close_call_def)

theorem server_create_descriptor_check_witness:
  "fst (vr_tcp_server_create 22409 (Some 0) (sys_with 0\<lparr>rets := [Inr 1]\<rparr>)) = VR_ERROR \<and>
   closed (snd (snd (vr_tcp_server_create 22409 (Some 0) (sys_with 0\<lparr>rets := [Inr 1]\<rparr>)))) = []"
  using server_create_descriptor_check [of "sys_with 0\<lparr>rets := [Inr 1]\<rparr>" "[]" 0 0 22409 0]
  by (simp add: sys_with_def)

end
