(* ===== verification/Velora_Reactor_Io.thy ===== *)
theory Velora_Reactor_Io
  imports Velora_Conn_Spec Velora_Net_Spec
begin

text \<open>
  \<open>src/event_loop/reactor.c\<close>, first part: the epoll wrappers, closing a connection, and the write path.

  A \<open>world\<close> is the program's whole state: the reactor, the connection manager, the heap of connection
  objects, the run status and the system. The public functions take the reactor pointer as an optional
  value for their test of the null pointer; inside the file it is never null.
\<close>

section \<open>State\<close>

definition VR_REACTOR_MAX_EVENTS :: nat where "VR_REACTOR_MAX_EVENTS = 1024"

record vr_reactor_t =
  re_epoll_fd :: int
  re_events :: "(conn_ptr \<times> uint32) list"
  re_ready_events :: int

record world =
  w_reactor :: vr_reactor_t
  w_mgr :: vr_connection_manager_t
  w_heap :: conn_heap
  w_status :: State
  w_sys :: sys

section \<open>epoll\<close>

definition vr_reactor_create :: "vr_reactor_t option \<Rightarrow> sys \<Rightarrow> vr_result_t \<times> vr_reactor_t option \<times> sys" where
  "vr_reactor_create reactor s = (case reactor of
       None \<Rightarrow> (VR_ERROR, None, s)
     | Some r \<Rightarrow> (case ret_call s of (e_fd, s) \<Rightarrow>
         if e_fd = -1 then
           if errno s = EINTR then (VR_INTERRUPTED, Some r, s) else (VR_ERROR, Some r, s)
         else (VR_SUCCESS, Some (r\<lparr>re_epoll_fd := e_fd\<rparr>), s)))"

definition vr_reactor_destroy :: "vr_reactor_t option \<Rightarrow> sys \<Rightarrow> vr_result_t \<times> vr_reactor_t option \<times> sys" where
  "vr_reactor_destroy reactor s = (case reactor of
       None \<Rightarrow> (VR_ERROR, None, s)
     | Some r \<Rightarrow> (case close_epoll_call (re_epoll_fd r) s of (res, s) \<Rightarrow>
         if res = -1 then (VR_ERROR, Some r, s)
         else (VR_SUCCESS, Some (r\<lparr>re_epoll_fd := -1\<rparr>), s)))"

definition vr_reactor_add ::
  "vr_reactor_t option \<Rightarrow> conn_ptr \<Rightarrow> uint32 \<Rightarrow> conn_heap \<Rightarrow> sys \<Rightarrow> (vr_result_t \<times> sys) option" where
  "vr_reactor_add reactor conn events h s = (case reactor of
       None \<Rightarrow> Some (VR_ERROR, s)
     | Some r \<Rightarrow> do {
         c \<leftarrow> h conn;
         let (res, s) = epoll_ctl_call EPOLL_CTL_ADD (nc_fd (cn_net_conn c)) conn events s;
         if res = -1 then Some (VR_ERROR, s) else Some (VR_SUCCESS, s)
       })"

definition vr_reactor_remove ::
  "vr_reactor_t option \<Rightarrow> conn_ptr \<Rightarrow> conn_heap \<Rightarrow> sys \<Rightarrow> (vr_result_t \<times> sys) option" where
  "vr_reactor_remove reactor conn h s = (case reactor of
       None \<Rightarrow> Some (VR_ERROR, s)
     | Some r \<Rightarrow> do {
         c \<leftarrow> h conn;
         let (res, s) = epoll_ctl_call EPOLL_CTL_DEL (nc_fd (cn_net_conn c)) 0 0 s;
         if res = -1 then Some (VR_ERROR, s) else Some (VR_SUCCESS, s)
       })"

definition vr_reactor_modify ::
  "vr_reactor_t option \<Rightarrow> conn_ptr \<Rightarrow> uint32 \<Rightarrow> conn_heap \<Rightarrow> sys \<Rightarrow> (vr_result_t \<times> sys) option" where
  "vr_reactor_modify reactor conn events h s = (case reactor of
       None \<Rightarrow> Some (VR_ERROR, s)
     | Some r \<Rightarrow>
         if conn = 0 then Some (VR_ERROR, s)
         else do {
           c \<leftarrow> h conn;
           let (res, s) = epoll_ctl_call EPOLL_CTL_MOD (nc_fd (cn_net_conn c)) conn events s;
           if res = -1 then Some (VR_ERROR, s) else Some (VR_SUCCESS, s)
         })"

text \<open>\<open>vr_reactor_wait\<close> also says whether the shutdown handler ran before the loop next tests the status.\<close>

definition vr_reactor_wait :: "vr_reactor_t option \<Rightarrow> sys \<Rightarrow> vr_result_t \<times> bool \<times> vr_reactor_t option \<times> sys" where
  "vr_reactor_wait reactor s = (case reactor of
       None \<Rightarrow> (VR_ERROR, False, None, s)
     | Some r \<Rightarrow> (case epoll_wait_call VR_REACTOR_MAX_EVENTS s of
           (None, sig, s) \<Rightarrow>
             if errno s = EINTR then (VR_ERROR, sig, Some r, s) else (VR_ERROR, sig, Some r, s)
         | (Some evs, sig, s) \<Rightarrow>
             (VR_SUCCESS, sig, Some (r\<lparr>re_events := evs, re_ready_events := int (length evs)\<rparr>), s)))"

section \<open>Closing a connection\<close>

definition reactor_close_connection :: "conn_ptr \<Rightarrow> world \<Rightarrow> world option" where
  "reactor_close_connection conn w = do {
     c \<leftarrow> w_heap w conn;
     let fd = nc_fd (cn_net_conn c);
     (_, s) \<leftarrow> vr_reactor_remove (Some (w_reactor w)) conn (w_heap w) (w_sys w);
     let s = close_call fd s;
     (_, m, h, s) \<leftarrow> vr_connection_destroy (Some (w_mgr w)) conn (w_heap w) s;
     m \<leftarrow> m;
     Some (w\<lparr>w_mgr := m, w_heap := h, w_sys := s\<rparr>)
   }"

section \<open>Queueing a response\<close>

definition free_response :: "vr_packet_t \<Rightarrow> sys \<Rightarrow> sys" where
  "free_response response s = c_free (Some response) (c_free (pkt_payload response) s)"

text \<open>The fast path: the packet fits in the first region, at \<open>off\<close>.\<close>

definition enqueue_contiguous ::
  "vr_connection_t \<Rightarrow> vr_packet_t \<Rightarrow> size_t \<Rightarrow> nat \<Rightarrow> sys \<Rightarrow> (bool \<times> vr_connection_t \<times> sys) option" where
  "enqueue_contiguous conn response packet_size off s = do {
     let wb = cn_write_buf conn;
     d \<leftarrow> vr_packet_serialize (Some response) (rb_data wb) off;
     (r, wb) \<leftarrow> vr_conn_ring_buf_commit (wb\<lparr>rb_data := Some d\<rparr>) (ucast packet_size);
     let conn = conn\<lparr>cn_write_buf := wb\<rparr>;
     let s = free_response response s;
     if r = VR_ERROR then Some (False, conn, s) else Some (True, conn, s)
   }"

text \<open>The second half of the wrap path: \<open>remaining\<close> bytes of the staging buffer into the second region.\<close>

definition enqueue_second ::
  "vr_connection_t \<Rightarrow> vr_packet_t \<Rightarrow> bytes \<Rightarrow> uint32 \<Rightarrow> uint32 \<Rightarrow> sys \<Rightarrow>
     (bool \<times> vr_connection_t \<times> sys) option" where
  "enqueue_second conn response serialized first_part remaining s = do {
     let wb = cn_write_buf conn;
     let fin = free_response response (c_free (Some serialized) s);
     (case vr_conn_ring_buf_contiguous_write wb None of (region2_len, region2) \<Rightarrow>
        (case region2 of
           None \<Rightarrow> Some (False, conn, fin)
         | Some off2 \<Rightarrow>
             if region2_len < remaining then Some (False, conn, fin)
             else do {
               xs \<leftarrow> mem_read (Some serialized) (unat first_part) (unat remaining);
               d \<leftarrow> mem_write (rb_data wb) off2 xs;
               (r, wb) \<leftarrow> vr_conn_ring_buf_commit (wb\<lparr>rb_data := Some d\<rparr>) remaining;
               let conn = conn\<lparr>cn_write_buf := wb\<rparr>;
               if r = VR_ERROR then Some (False, conn, fin) else Some (True, conn, fin)
             }))
   }"

text \<open>The wrap path, from the computation of \<open>first_part\<close>.\<close>

definition enqueue_wrapped ::
  "vr_connection_t \<Rightarrow> vr_packet_t \<Rightarrow> size_t \<Rightarrow> uint32 \<Rightarrow> nat \<Rightarrow> sys \<Rightarrow>
     (bool \<times> vr_connection_t \<times> sys) option" where
  "enqueue_wrapped conn response packet_size region1_len off s =
     (let first_part = region1_len;
          first_part = (if ucast first_part > packet_size then ucast packet_size else first_part);
          remaining = ucast packet_size - first_part
      in if remaining = 0 then Some (False, conn, free_response response s)
         else (case malloc_bytes (unat packet_size) s of
             (None, s) \<Rightarrow> Some (False, conn, free_response response s)
           | (Some serialized, s) \<Rightarrow> do {
               serialized \<leftarrow> vr_packet_serialize (Some response) (Some serialized) 0;
               let wb = cn_write_buf conn;
               xs \<leftarrow> mem_read (Some serialized) 0 (unat first_part);
               d \<leftarrow> mem_write (rb_data wb) off xs;
               (r, wb) \<leftarrow> vr_conn_ring_buf_commit (wb\<lparr>rb_data := Some d\<rparr>) first_part;
               let conn = conn\<lparr>cn_write_buf := wb\<rparr>;
               if r = VR_ERROR then Some (False, conn, free_response response (c_free (Some serialized) s))
               else enqueue_second conn response serialized first_part remaining s
             }))"

definition UINT32_MAX :: size_t where "UINT32_MAX = 0xFFFFFFFF"

definition reactor_enqueue_response ::
  "vr_connection_t option \<Rightarrow> vr_packet_t option \<Rightarrow> sys \<Rightarrow> (bool \<times> vr_connection_t option \<times> sys) option" where
  "reactor_enqueue_response conn response s = (case (conn, response) of
       (Some conn, Some response) \<Rightarrow>
         (let packet_size = ucast sizeof_vr_packet_header_t + ucast (hdr_payload_len (pkt_header response)) :: size_t
          in if packet_size > UINT32_MAX then Some (False, Some conn, free_response response s)
             else do {
               (r, wb, s) \<leftarrow> vr_conn_ring_buf_reserve (cn_write_buf conn) (ucast packet_size) s;
               let conn = conn\<lparr>cn_write_buf := wb\<rparr>;
               if r = VR_ERROR then Some (False, Some conn, free_response response s)
               else (case vr_conn_ring_buf_contiguous_write wb None of (region1_len, region1) \<Rightarrow>
                 (case region1 of
                    None \<Rightarrow> Some (False, Some conn, free_response response s)
                  | Some off \<Rightarrow>
                      if region1_len = 0 then Some (False, Some conn, free_response response s)
                      else do {
                        (ok, conn, s) \<leftarrow>
                          (if ucast region1_len \<ge> packet_size
                           then enqueue_contiguous conn response packet_size off s
                           else enqueue_wrapped conn response packet_size region1_len off s);
                        Some (ok, Some conn, s)
                      }))
             })
     | (_, Some response) \<Rightarrow> Some (False, conn, free_response response s)
     | (_, None) \<Rightarrow> Some (False, conn, s))"

end
