(* ===== verification/Velora_Reactor.thy ===== *)
theory Velora_Reactor
  imports Velora_Reactor_Io
begin

text \<open>
  \<open>src/event_loop/reactor.c\<close>, second part: draining a socket, processing packets, the handlers of the
  two kinds of event, start-up, the event loop and shutdown.

  A \<open>while\<close> loop whose end depends on what the kernel answers is a \<open>partial_function\<close> on options, so a loop
  that never ends would have the value \<^term>\<open>None\<close>, like undefined behaviour.
\<close>

section \<open>Client events\<close>

text \<open>The loop of \<open>reactor_drain_writes\<close>; the flag says that the connection is to be closed.\<close>

partial_function (option) drain_writes_loop ::
  "int \<Rightarrow> vr_connection_ring_buf_t \<Rightarrow> sys \<Rightarrow> (bool \<times> vr_connection_ring_buf_t \<times> sys) option" where
  "drain_writes_loop fd wb s =
     (if vr_conn_ring_buf_empty wb then Some (False, wb, s)
      else (case vr_conn_ring_buf_contiguous_read wb None of (available, data) \<Rightarrow>
        if available = 0 then Some (False, wb, s)
        else do {
          off \<leftarrow> data;
          (sent, s) \<leftarrow> vr_socket_send fd (rb_data wb) off (ucast available) s;
          if sent > 0 then do {
            (r, wb) \<leftarrow> vr_conn_ring_buf_consume wb (of_int sent);
            if r = VR_ERROR then Some (True, wb, s) else drain_writes_loop fd wb s
          }
          else if sent = -1 \<and> (errno s = EAGAIN \<or> errno s = EWOULDBLOCK) then Some (False, wb, s)
          else Some (True, wb, s)
        }))"

definition reactor_drain_writes :: "conn_ptr \<Rightarrow> world \<Rightarrow> (bool \<times> world) option" where
  "reactor_drain_writes conn w = do {
     c \<leftarrow> w_heap w conn;
     (failed, wb, s) \<leftarrow> drain_writes_loop (nc_fd (cn_net_conn c)) (cn_write_buf c) (w_sys w);
     let w = w\<lparr>w_heap := (w_heap w)(conn \<mapsto> c\<lparr>cn_write_buf := wb\<rparr>), w_sys := s\<rparr>;
     if failed then do {
       w \<leftarrow> reactor_close_connection conn w;
       Some (True, w)
     }
     else if vr_conn_ring_buf_empty wb then do {
       (_, s) \<leftarrow> vr_reactor_modify (Some (w_reactor w)) conn (EPOLLIN OR EPOLLET) (w_heap w) (w_sys w);
       Some (False, w\<lparr>w_sys := s\<rparr>)
     }
     else Some (False, w)
   }"

text \<open>The loop of \<open>reactor_drain_reads\<close>.\<close>

partial_function (option) drain_reads_loop ::
  "int \<Rightarrow> vr_connection_ring_buf_t \<Rightarrow> sys \<Rightarrow> (bool \<times> vr_connection_ring_buf_t \<times> sys) option" where
  "drain_reads_loop fd rb s = do {
     (len, rb, s) \<leftarrow> vr_socket_recv_ring_buf fd rb s;
     if len = 0 then Some (True, rb, s)
     else if len = -1 then
       if errno s = EAGAIN \<or> errno s = EWOULDBLOCK then Some (False, rb, s)
       else if errno s = ENOBUFS then
         if rb_state rb = VR_CONN_RING_BUF_UNALLOC then
           (case vr_conn_ring_buf_init rb s of (r, rb, s) \<Rightarrow>
              if r = VR_ERROR then Some (False, rb, s) else drain_reads_loop fd rb s)
         else do {
           (r, rb, s) \<leftarrow> vr_conn_ring_buf_grow rb s;
           if r = VR_ERROR then Some (False, rb, s) else drain_reads_loop fd rb s
         }
       else Some (True, rb, s)
     else drain_reads_loop fd rb s
   }"

definition reactor_drain_reads :: "conn_ptr \<Rightarrow> world \<Rightarrow> (bool \<times> world) option" where
  "reactor_drain_reads conn w = do {
     c \<leftarrow> w_heap w conn;
     (failed, rb, s) \<leftarrow> drain_reads_loop (nc_fd (cn_net_conn c)) (cn_read_buf c) (w_sys w);
     let w = w\<lparr>w_heap := (w_heap w)(conn \<mapsto> c\<lparr>cn_read_buf := rb\<rparr>), w_sys := s\<rparr>;
     if failed then do {
       w \<leftarrow> reactor_close_connection conn w;
       Some (True, w)
     }
     else Some (False, w)
   }"

text \<open>The loop of \<open>reactor_process_packets\<close>.\<close>

partial_function (option) process_packets_loop ::
  "vr_connection_t \<Rightarrow> sys \<Rightarrow> (bool \<times> vr_connection_t \<times> sys) option" where
  "process_packets_loop conn s = do {
     (parsed, conn, pkt, s) \<leftarrow> vr_parser_poll conn packet_zero s;
     if parsed = VR_EMPTY then Some (False, conn, s)
     else if parsed = VR_ERROR then Some (True, conn, s)
     else do {
       (response, conn, s) \<leftarrow> vr_protocol_handle_packet (Some conn) (Some pkt) s;
       conn \<leftarrow> conn;
       let s = c_free (pkt_payload pkt) s;
       (case response of
          None \<Rightarrow> process_packets_loop conn s
        | Some _ \<Rightarrow> do {
            (ok, conn, s) \<leftarrow> reactor_enqueue_response (Some conn) response s;
            conn \<leftarrow> conn;
            if \<not> ok then Some (False, conn, s) else process_packets_loop conn s
          })
     }
   }"

text \<open>\<open>reactor_process_packets\<close> returns what it leaves in \<open>*closed\<close>, which is false when it is called.\<close>

definition reactor_process_packets :: "conn_ptr \<Rightarrow> world \<Rightarrow> (bool \<times> world) option" where
  "reactor_process_packets conn w = do {
     c \<leftarrow> w_heap w conn;
     (violation, c, s) \<leftarrow> process_packets_loop c (w_sys w);
     let w = w\<lparr>w_heap := (w_heap w)(conn \<mapsto> c), w_sys := s\<rparr>;
     if violation then do {
       w \<leftarrow> reactor_close_connection conn w;
       Some (True, w)
     }
     else if \<not> vr_conn_ring_buf_empty (cn_write_buf c) then do {
       (_, s) \<leftarrow> vr_reactor_modify (Some (w_reactor w)) conn (EPOLLIN OR EPOLLOUT OR EPOLLET)
                   (w_heap w) (w_sys w);
       Some (False, w\<lparr>w_sys := s\<rparr>)
     }
     else Some (False, w)
   }"

definition reactor_handle_client_event :: "conn_ptr \<Rightarrow> uint32 \<Rightarrow> world \<Rightarrow> world option" where
  "reactor_handle_client_event conn events w = do {
     (closed, w) \<leftarrow> (if events AND EPOLLOUT \<noteq> 0 then reactor_drain_writes conn w else Some (False, w));
     (closed, w) \<leftarrow> (if \<not> closed \<and> events AND EPOLLIN \<noteq> 0 then reactor_drain_reads conn w
                     else Some (closed, w));
     (closed, w) \<leftarrow> (if \<not> closed then reactor_process_packets conn w else Some (closed, w));
     Some w
   }"

section \<open>Listener events\<close>

definition net_conn_zero :: vr_net_conn_t where
  "net_conn_zero = \<lparr>nc_fd = 0, nc_addr = sockaddr_zero\<rparr>"

text \<open>What the loop of \<open>reactor_handle_listener_event\<close> does with an accepted socket.\<close>

definition listener_accepted :: "vr_net_conn_t \<Rightarrow> world \<Rightarrow> world option" where
  "listener_accepted new_net_conn w = do {
     (new_conn, m, h, s) \<leftarrow> vr_connection_create (Some (w_mgr w)) new_net_conn (w_heap w) (w_sys w);
     m \<leftarrow> m;
     let w = w\<lparr>w_mgr := m, w_heap := h, w_sys := s\<rparr>;
     if new_conn = 0 then Some (w\<lparr>w_sys := close_call (nc_fd new_net_conn) s\<rparr>)
     else do {
       c \<leftarrow> h new_conn;
       let c = c\<lparr>cn_type := VR_CONN_CLIENT\<rparr>;
       let h = h(new_conn \<mapsto> c);
       let fd = nc_fd (cn_net_conn c);
       let (r, s) = vr_socket_set_non_blocking fd s;
       if r \<noteq> VR_SUCCESS then do {
         (_, m, h, s) \<leftarrow> vr_connection_destroy (Some m) new_conn h (close_call fd s);
         m \<leftarrow> m;
         Some (w\<lparr>w_mgr := m, w_heap := h, w_sys := s\<rparr>)
       }
       else do {
         (r, s) \<leftarrow> vr_reactor_add (Some (w_reactor w)) new_conn (EPOLLIN OR EPOLLET) h s;
         if r \<noteq> VR_SUCCESS then do {
           (_, m, h, s) \<leftarrow> vr_connection_destroy (Some m) new_conn h (close_call fd s);
           m \<leftarrow> m;
           Some (w\<lparr>w_mgr := m, w_heap := h, w_sys := s\<rparr>)
         }
         else Some (w\<lparr>w_heap := h, w_sys := s\<rparr>)
       }
     }
   }"

partial_function (option) accept_loop :: "int \<Rightarrow> world \<Rightarrow> world option" where
  "accept_loop listen_fd w =
     (case vr_tcp_accept listen_fd net_conn_zero (w_sys w) of (res, new_net_conn, s) \<Rightarrow>
        if res = VR_SUCCESS then do {
          w \<leftarrow> listener_accepted new_net_conn (w\<lparr>w_sys := s\<rparr>);
          accept_loop listen_fd w
        }
        else Some (w\<lparr>w_sys := s\<rparr>))"

definition reactor_handle_listener_event :: "conn_ptr \<Rightarrow> world \<Rightarrow> world option" where
  "reactor_handle_listener_event listener_conn w = do {
     c \<leftarrow> w_heap w listener_conn;
     accept_loop (nc_fd (cn_net_conn c)) w
   }"

section \<open>Start-up\<close>

text \<open>A failed start-up returns \<^term>\<open>VR_ERROR\<close> and the world; \<open>*out_listener_conn\<close> and \<open>*out_listen_fd\<close> are
  set on success only.\<close>

definition reactor_bootstrap_listener :: "int \<Rightarrow> world \<Rightarrow> (vr_result_t \<times> (conn_ptr \<times> int) option \<times> world) option" where
  "reactor_bootstrap_listener port w =
     (let abort = (\<lambda>r h s. case vr_reactor_destroy (Some r) s of (_, r, s) \<Rightarrow> do {
            r \<leftarrow> r;
            Some (VR_ERROR, None, w\<lparr>w_reactor := r, w_heap := h, w_sys := s\<rparr>)
          })
      in case vr_reactor_create (Some (w_reactor w)) (w_sys w) of (res, r, s) \<Rightarrow> do {
        r \<leftarrow> r;
        if res \<noteq> VR_SUCCESS then Some (VR_ERROR, None, w\<lparr>w_reactor := r, w_sys := s\<rparr>)
        else (case vr_tcp_server_create (of_int port) (Some 0) s of (res, listen_fd, s) \<Rightarrow> do {
          listen_fd \<leftarrow> listen_fd;
          if res \<noteq> VR_SUCCESS then abort r (w_heap w) s
          else (case vr_socket_set_non_blocking listen_fd s of (res, s) \<Rightarrow>
            if res \<noteq> VR_SUCCESS then abort r (w_heap w) (close_call listen_fd s)
            else (case malloc_connection (w_heap w) s of (listener_conn, s) \<Rightarrow>
              if listener_conn = 0 then abort r (w_heap w) (close_call listen_fd s)
              else do {
                let c = connection_zero\<lparr>cn_net_conn := net_conn_zero\<lparr>nc_fd := listen_fd\<rparr>,
                          cn_type := VR_CONN_LISTENER\<rparr>;
                let h = (w_heap w)(listener_conn \<mapsto> c);
                (res, s) \<leftarrow> vr_reactor_add (Some r) listener_conn (EPOLLIN OR EPOLLET) h s;
                if res \<noteq> VR_SUCCESS
                then abort r (h(listener_conn := None)) (c_free (Some listener_conn) (close_call listen_fd s))
                else Some (VR_SUCCESS, Some (listener_conn, listen_fd),
                       w\<lparr>w_reactor := r, w_heap := h, w_sys := s\<rparr>)
              }))
        })
      })"

section \<open>Shutdown\<close>

partial_function (option) shutdown_loop ::
  "vr_connection_manager_t \<Rightarrow> conn_heap \<Rightarrow> sys \<Rightarrow> (vr_connection_manager_t \<times> conn_heap \<times> sys) option" where
  "shutdown_loop m h s =
     (if mgr_count m > 0 then do {
        conn \<leftarrow> mem_get (mgr_slots m) 0;
        (_, m, h, s) \<leftarrow> vr_connection_destroy (Some m) conn h s;
        m \<leftarrow> m;
        shutdown_loop m h s
      }
      else Some (m, h, s))"

definition reactor_shutdown :: "conn_ptr \<Rightarrow> int \<Rightarrow> world \<Rightarrow> world option" where
  "reactor_shutdown listener_conn listen_fd w = do {
     (m, h, s) \<leftarrow> shutdown_loop (w_mgr w) (w_heap w) (w_sys w);
     (_, s) \<leftarrow> vr_reactor_remove (Some (w_reactor w)) listener_conn h s;
     let s = close_call listen_fd s;
     _ \<leftarrow> h listener_conn;
     let s = c_free (Some listener_conn) s;
     (case vr_reactor_destroy (Some (w_reactor w)) s of (_, r, s) \<Rightarrow> do {
        r \<leftarrow> r;
        Some (w\<lparr>w_reactor := r, w_mgr := m, w_heap := h(listener_conn := None), w_sys := s\<rparr>)
      })
   }"

section \<open>The event loop\<close>

definition handle_event :: "conn_ptr \<times> uint32 \<Rightarrow> world \<Rightarrow> world option" where
  "handle_event ev w = (case ev of (ready_conn, events) \<Rightarrow> do {
     c \<leftarrow> w_heap w ready_conn;
     (case cn_type c of
        VR_CONN_LISTENER \<Rightarrow> reactor_handle_listener_event ready_conn w
      | VR_CONN_CLIENT \<Rightarrow> reactor_handle_client_event ready_conn events w)
   })"

text \<open>The \<open>for\<close> loop over the ready events; no handler writes to the event array.\<close>

primrec handle_events :: "(conn_ptr \<times> uint32) list \<Rightarrow> world \<Rightarrow> world option" where
  "handle_events [] w = Some w"
| "handle_events (ev # evs) w = do {
     w \<leftarrow> handle_event ev w;
     handle_events evs w
   }"

text \<open>The \<open>while\<close> loop of \<open>vr_reactor_loop\<close>. A signal that arrived sets the status through the handler.\<close>

partial_function (option) event_loop :: "world \<Rightarrow> world option" where
  "event_loop w =
     (if w_status w = RUNNING then
        (case vr_reactor_wait (Some (w_reactor w)) (w_sys w) of (res, signal, r, s) \<Rightarrow> do {
          r \<leftarrow> r;
          let w = w\<lparr>w_reactor := r, w_sys := s,
                w_status := (if signal then snd (handle_shutdown (w_status w)) else w_status w)\<rparr>;
          if res \<noteq> VR_SUCCESS then Some w
          else do {
            w \<leftarrow> handle_events (take (nat (re_ready_events r)) (re_events r)) w;
            event_loop (w\<lparr>w_reactor := (w_reactor w)\<lparr>re_ready_events := 0\<rparr>\<rparr>)
          }
        })
      else Some w)"

definition vr_reactor_loop :: "int \<Rightarrow> world \<Rightarrow> (vr_result_t \<times> world) option" where
  "vr_reactor_loop port w = do {
     (res, out, w) \<leftarrow> reactor_bootstrap_listener port w;
     if res \<noteq> VR_SUCCESS then Some (VR_ERROR, w)
     else do {
       (listener_conn, listen_fd) \<leftarrow> out;
       w \<leftarrow> event_loop w;
       w \<leftarrow> reactor_shutdown listener_conn listen_fd w;
       Some (VR_SUCCESS, w)
     }
   }"

end
