(* ===== verification/Velora_Enqueue_Spec.thy ===== *)
theory Velora_Enqueue_Spec
  imports Velora_Reactor_Io
begin

text \<open>
  What queueing a response does to the write ring: on success the serialized packet and the four bytes
  that the header structure has over its wire format, on failure nothing.
\<close>

section \<open>Serialized packets\<close>

definition payload_ok :: "vr_packet_t \<Rightarrow> bool" where
  "payload_ok p \<longleftrightarrow> (case pkt_payload p of
       None \<Rightarrow> hdr_payload_len (pkt_header p) = 0
     | Some xs \<Rightarrow> unat (hdr_payload_len (pkt_header p)) \<le> length xs)"

definition packet_bytes :: "vr_packet_t \<Rightarrow> bytes" where
  "packet_bytes p = header_bytes (pkt_header p) @
     (case pkt_payload p of None \<Rightarrow> [] | Some xs \<Rightarrow> take (unat (hdr_payload_len (pkt_header p))) xs)"

lemma length_packet_bytes:
  "payload_ok p \<Longrightarrow> length (packet_bytes p) = 8 + unat (hdr_payload_len (pkt_header p))"
  by (auto simp: packet_bytes_def payload_ok_def split: option.splits)

lemma overwrite_append:
  "off + length xs + length ys \<le> length d \<Longrightarrow>
   overwrite (overwrite d off xs) (off + length xs) ys = overwrite d off (xs @ ys)"
  by (cases xs) (auto simp: overwrite_def min_def ac_simps)

lemma serialize_overwrite:
  assumes "payload_ok p" "off + length (packet_bytes p) \<le> length d"
  shows "vr_packet_serialize (Some p) (Some d) off = Some (overwrite d off (packet_bytes p))"
proof (cases "hdr_payload_len (pkt_header p) = 0")
  case True
  then have "packet_bytes p = header_bytes (pkt_header p)"
    by (auto simp: packet_bytes_def split: option.splits)
  then show ?thesis using True assms by (simp add: vr_packet_serialize_def mem_write_Some)
next
  case False
  then obtain xs where xs: "pkt_payload p = Some xs" "unat (hdr_payload_len (pkt_header p)) \<le> length xs"
    using assms(1) by (auto simp: payload_ok_def split: option.splits)
  let ?n = "unat (hdr_payload_len (pkt_header p))"
  have "overwrite (overwrite d off (header_bytes (pkt_header p))) (off + 8) (take ?n xs)
      = overwrite d off (packet_bytes p)"
    using overwrite_append [of off "header_bytes (pkt_header p)" "take ?n xs" d] assms xs
    by (simp add: packet_bytes_def)
  then show ?thesis using False assms xs
    by (simp add: vr_packet_serialize_def packet_bytes_def mem_write_Some mem_read_Some word_gt_0)
qed

section \<open>Freeing the response\<close>

definition packet_blocks :: "vr_packet_t \<Rightarrow> int" where
  "packet_blocks p = 1 + of_bool (pkt_payload p \<noteq> None)"

lemma free_response_frame [simp]: "heap_frame s (free_response p s)"
  unfolding free_response_def by (meson heap_frame_free heap_frame_trans)

lemma free_response_blocks [simp]: "blocks (free_response p s) = blocks s - packet_blocks p"
  by (simp add: free_response_def packet_blocks_def blocks_free)

section \<open>The write ring after queueing\<close>

text \<open>\<open>queued c p s0 res\<close>: the outcome \<open>res\<close> of queueing \<open>p\<close>, seen from the system state \<open>s0\<close> in which
  the response is still allocated.\<close>

definition queued ::
  "vr_connection_t \<Rightarrow> vr_packet_t \<Rightarrow> sys \<Rightarrow> bool \<Rightarrow> vr_connection_t \<Rightarrow> sys \<Rightarrow> bool" where
  "queued c p s ok c' s' \<longleftrightarrow> (\<exists>wb pad. c' = c\<lparr>cn_write_buf := wb\<rparr> \<and> ring_inv wb \<and>
     (rb_data wb = None \<longrightarrow> rb_data (cn_write_buf c) = None) \<and>
     heap_frame s s' \<and> blocks s' = blocks s - packet_blocks p +
       (of_bool (rb_data wb \<noteq> None) - of_bool (rb_data (cn_write_buf c) \<noteq> None)) \<and>
     ring_contents wb = ring_contents (cn_write_buf c) @ (if ok then packet_bytes p @ pad else []) \<and>
     length pad = 4)"

lemma queued_fail:
  assumes "ring_inv wb" "ring_contents wb = ring_contents (cn_write_buf c)"
    and "rb_data wb = None \<longrightarrow> rb_data (cn_write_buf c) = None" "heap_frame s s1"
    and "blocks s1 = blocks s + (of_bool (rb_data wb \<noteq> None) - of_bool (rb_data (cn_write_buf c) \<noteq> None))"
  shows "queued c p s False (c\<lparr>cn_write_buf := wb\<rparr>) (free_response p s1)"
  unfolding queued_def
  by (rule exI [of _ wb], rule exI [of _ "[0, 0, 0, 0]"])
    (use assms heap_frame_trans [OF assms(4) free_response_frame] in simp)

section \<open>The two paths\<close>

lemma enqueue_contiguous_spec:
  assumes "ring_inv (cn_write_buf c)" "payload_ok p"
    and "unat psz = 12 + unat (hdr_payload_len (pkt_header p))"
    and "vr_conn_ring_buf_contiguous_write (cn_write_buf c) None = (m, Some off)" "unat psz \<le> unat m"
    and "length (ring_contents (cn_write_buf c)) < unat (rb_capacity (cn_write_buf c))"
  shows "\<exists>wb pad. enqueue_contiguous c p psz off s = Some (True, c\<lparr>cn_write_buf := wb\<rparr>, free_response p s) \<and>
    ring_inv wb \<and> rb_data wb \<noteq> None \<and> length pad = 4 \<and>
    ring_contents wb = ring_contents (cn_write_buf c) @ packet_bytes p @ pad"
proof -
  let ?b = "cn_write_buf c" and ?k = "ucast psz :: uint32" and ?ys = "packet_bytes p"
  have k: "unat ?k = unat psz"
    using assms(5) unat32_less [of m] by (simp add: unat_ucast_64_32 del: unat32_less)
  have len: "length ?ys = unat psz - 4" "4 \<le> unat psz"
    using length_packet_bytes [OF assms(2)] assms(3) by simp_all
  have room: "off + unat m \<le> length d" if "rb_data ?b = Some d" for d
    using ring_writer.room_law [OF assms(1,6,4)] that by auto
  have le: "length ?ys \<le> unat ?k" "?k \<le> m" using k len assms(5) by (simp_all add: word_le_nat_alt)
  show ?thesis
  proof (rule ring_writer.fill_commit [OF assms(1,6,4) le])
    fix off' d b'
    assume f: "Some off = Some off'" "rb_data ?b = Some d"
      "vr_conn_ring_buf_commit (?b\<lparr>rb_data := Some (overwrite d off' ?ys)\<rparr>) ?k = Some (VR_SUCCESS, b')"
      "ring_inv b'"
      "ring_contents b' = ring_contents ?b @ ?ys @ take (unat ?k - length ?ys) (drop (off' + length ?ys) d)"
    have "off + length ?ys \<le> length d" using room [OF f(2)] k le by (simp add: word_le_nat_alt)
    then have "enqueue_contiguous c p psz off s = Some (True, c\<lparr>cn_write_buf := b'\<rparr>, free_response p s)"
      using f(1-3) serialize_overwrite [OF assms(2), of off d] by (simp add: enqueue_contiguous_def)
    moreover have "rb_data b' \<noteq> None"
      using f(4,5) ring_data_None_iff [OF f(4)] len length_packet_bytes [OF assms(2)] by auto
    moreover have "length (take (unat ?k - length ?ys) (drop (off' + length ?ys) d)) = 4"
      using room [OF f(2)] f(1) k len assms(5) by simp
    ultimately show ?thesis using f(4,5) by blast
  qed
qed

lemma enqueue_second_spec:
  assumes "ring_inv (cn_write_buf c)" "unat first_part + unat rem = length ser" "0 < unat rem"
    and "unat (fst (vr_conn_ring_buf_contiguous_write (cn_write_buf c) None)) =
      unat (rb_capacity (cn_write_buf c)) - length (ring_contents (cn_write_buf c))"
    and "length (ring_contents (cn_write_buf c)) + unat rem \<le> unat (rb_capacity (cn_write_buf c))"
  shows "\<exists>wb. enqueue_second c p ser first_part rem s
      = Some (True, c\<lparr>cn_write_buf := wb\<rparr>, free_response p (c_free (Some ser) s)) \<and>
    ring_inv wb \<and> ring_contents wb = ring_contents (cn_write_buf c) @ drop (unat first_part) ser"
proof -
  let ?b = "cn_write_buf c" and ?ys = "drop (unat first_part) ser"
  obtain m q where mq: "vr_conn_ring_buf_contiguous_write ?b None = (m, q)" by fastforce
  have lt: "length (ring_contents ?b) < unat (rb_capacity ?b)" using assms(3,5) by simp
  have le: "length ?ys \<le> unat rem" "rem \<le> m" using assms(2,4,5) mq by (simp_all add: word_le_nat_alt)
  have rd: "mem_read (Some ser) (unat first_part) (unat rem) = Some ?ys"
    using assms(2) by (simp add: mem_read_Some)
  show ?thesis
  proof (rule ring_writer.fill_commit [OF assms(1) lt mq le])
    fix off d b'
    assume f: "q = Some off" "mem_write (rb_data ?b) off ?ys = Some (overwrite d off ?ys)"
      "vr_conn_ring_buf_commit (?b\<lparr>rb_data := Some (overwrite d off ?ys)\<rparr>) rem = Some (VR_SUCCESS, b')"
      "ring_inv b'"
      "ring_contents b' = ring_contents ?b @ ?ys @ take (unat rem - length ?ys) (drop (off + length ?ys) d)"
    have "\<not> m < rem" using le(2) by simp
    then have "enqueue_second c p ser first_part rem s
        = Some (True, c\<lparr>cn_write_buf := b'\<rparr>, free_response p (c_free (Some ser) s))"
      using mq rd f(1-3) by (simp add: enqueue_second_def)
    then show ?thesis using f(4,5) assms(2) by auto
  qed
qed

lemma enqueue_staged:
  assumes "ring_inv (cn_write_buf c)" "unat m + unat rem = length ser" "0 < unat rem"
    and "vr_conn_ring_buf_contiguous_write (cn_write_buf c) None = (m, Some off)"
    and "length (ring_contents (cn_write_buf c)) + length ser \<le> unat (rb_capacity (cn_write_buf c))"
  obtains d wb wb' where
    "mem_write (rb_data (cn_write_buf c)) off (take (unat m) ser) = Some d"
    "vr_conn_ring_buf_commit (cn_write_buf c\<lparr>rb_data := Some d\<rparr>) m = Some (VR_SUCCESS, wb)"
    "enqueue_second (c\<lparr>cn_write_buf := wb\<rparr>) p ser m rem s
      = Some (True, c\<lparr>cn_write_buf := wb'\<rparr>, free_response p (c_free (Some ser) s))"
    "ring_inv wb'" "ring_contents wb' = ring_contents (cn_write_buf c) @ ser"
proof -
  let ?b = "cn_write_buf c" and ?xs = "take (unat m) ser"
  have lt: "length (ring_contents ?b) < unat (rb_capacity ?b)" using assms(2,3,5) by simp
  have le: "length ?xs \<le> unat m" "m \<le> m" by simp_all
  have xs: "length ?xs = unat m" using assms(2) by simp
  show thesis
  proof (rule ring_writer.fill_commit [OF assms(1) lt assms(4) le])
    fix off' d b'
    assume f: "Some off = Some off'" "mem_write (rb_data ?b) off' ?xs = Some (overwrite d off' ?xs)"
      "vr_conn_ring_buf_commit (?b\<lparr>rb_data := Some (overwrite d off' ?xs)\<rparr>) m = Some (VR_SUCCESS, b')"
      "ring_inv b'" "unat (rb_capacity b') = unat (rb_capacity ?b)"
      "ring_contents b' = ring_contents ?b @ ?xs @ take (unat m - length ?xs) (drop (off' + length ?xs) d)"
      "\<lbrakk>m = m; length (ring_contents b') < unat (rb_capacity b')\<rbrakk> \<Longrightarrow>
         unat (fst (vr_conn_ring_buf_contiguous_write b' None)) =
         unat (rb_capacity b') - length (ring_contents b')"
    have con: "ring_contents b' = ring_contents ?b @ ?xs" using f(6) xs by simp
    have len: "length (ring_contents b') + unat rem \<le> unat (rb_capacity b')"
      using con xs f(5) assms(2,5) by simp
    have "\<exists>wb. enqueue_second (c\<lparr>cn_write_buf := b'\<rparr>) p ser m rem s
        = Some (True, (c\<lparr>cn_write_buf := b'\<rparr>)\<lparr>cn_write_buf := wb\<rparr>, free_response p (c_free (Some ser) s)) \<and>
      ring_inv wb \<and> ring_contents wb = ring_contents (cn_write_buf (c\<lparr>cn_write_buf := b'\<rparr>)) @ drop (unat m) ser"
      by (rule enqueue_second_spec) (use f(4,7) len assms(2,3) in simp_all)
    then obtain wb where wb: "enqueue_second (c\<lparr>cn_write_buf := b'\<rparr>) p ser m rem s
        = Some (True, c\<lparr>cn_write_buf := wb\<rparr>, free_response p (c_free (Some ser) s))"
      "ring_inv wb" "ring_contents wb = ring_contents ?b @ ser"
      using con by auto
    have off: "off' = off" using f(1) by simp
    show thesis by (rule that [OF f(2) [unfolded off] f(3) [unfolded off] wb])
  qed
qed

lemma enqueue_wrapped_spec:
  assumes "ring_inv (cn_write_buf c)" "payload_ok p"
    and "unat psz = 12 + unat (hdr_payload_len (pkt_header p))"
    and "vr_conn_ring_buf_contiguous_write (cn_write_buf c) None = (m, Some off)" "unat m < unat psz"
    and "length (ring_contents (cn_write_buf c)) + unat psz \<le> unat (rb_capacity (cn_write_buf c))"
  shows "\<exists>ok c' s'. enqueue_wrapped c p psz m off s = Some (ok, c', s') \<and> queued c p s ok c' s' \<and>
    (plenty 1 s \<longrightarrow> ok)"
proof -
  let ?b = "cn_write_buf c" and ?rem = "ucast psz - m :: uint32"
  have lt: "length (ring_contents ?b) < unat (rb_capacity ?b)" using assms(5,6) by simp
  obtain d0 where d0: "rb_data ?b = Some d0"
    using ring_writer.room_law [OF assms(1) lt assms(4)] by blast
  have psz: "unat (ucast psz :: uint32) = unat psz"
    using assms(6) unat32_less [of "rb_capacity ?b"] by (simp add: unat_ucast_64_32 del: unat32_less)
  have rem: "unat ?rem = unat psz - unat m"
    using psz assms(5) by (simp add: unat_sub word_le_nat_alt)
  then have rem0: "?rem \<noteq> 0" using assms(5) by (metis unat_0 zero_less_diff less_irrefl)
  have mm: "\<not> psz < ucast m" using assms(5) by (simp add: word_less_nat_alt)
  show ?thesis
  proof (cases rule: malloc_bytes_cases [of "unat psz" s])
    case (null s1)
    have "queued c p s False (c\<lparr>cn_write_buf := ?b\<rparr>) (free_response p s1)"
      by (rule queued_fail) (use null assms(1) in auto)
    moreover have "enqueue_wrapped c p psz m off s = Some (False, c\<lparr>cn_write_buf := ?b\<rparr>, free_response p s1)"
      using null mm rem0 by (simp add: enqueue_wrapped_def Let_def)
    ultimately show ?thesis using null(4) [of 0] by auto
  next
    case (block blk s1)
    define ser where "ser = overwrite blk 0 (packet_bytes p)"
    have pb: "length (packet_bytes p) = unat psz - 4" "4 \<le> unat psz"
      using length_packet_bytes [OF assms(2)] assms(3) by simp_all
    have ser: "length ser = unat psz" "ser = packet_bytes p @ drop (unat psz - 4) blk"
      using pb block(2) by (simp_all add: ser_def overwrite_def)
    have sr: "vr_packet_serialize (Some p) (Some blk) 0 = Some ser"
      using serialize_overwrite [OF assms(2), of 0 blk] pb block(2) by (simp add: ser_def)
    have h: "unat m + unat ?rem = length ser" "0 < unat ?rem"
        "length (ring_contents ?b) + length ser \<le> unat (rb_capacity ?b)"
      using rem ser(1) assms(5,6) by simp_all
    show ?thesis
    proof (rule enqueue_staged [OF assms(1) h(1,2) assms(4) h(3), of p s1])
      fix d wb wb'
      let ?s = "free_response p (c_free (Some ser) s1)"
      assume f: "mem_write (rb_data ?b) off (take (unat m) ser) = Some d"
        "vr_conn_ring_buf_commit (?b\<lparr>rb_data := Some d\<rparr>) m = Some (VR_SUCCESS, wb)"
        "enqueue_second (c\<lparr>cn_write_buf := wb\<rparr>) p ser m ?rem s1 = Some (True, c\<lparr>cn_write_buf := wb'\<rparr>, ?s)"
        "ring_inv wb'" "ring_contents wb' = ring_contents ?b @ ser"
      have "mem_read (Some ser) 0 (unat m) = Some (take (unat m) ser)"
        using h(1) by (simp add: mem_read_Some)
      then have run: "enqueue_wrapped c p psz m off s = Some (True, c\<lparr>cn_write_buf := wb'\<rparr>, ?s)"
        using f(1-3) sr block(1) mm rem0 by (simp add: enqueue_wrapped_def Let_def)
      have "rb_data wb' \<noteq> None" using f(4,5) ring_data_None_iff [OF f(4)] ser pb by auto
      moreover have "heap_frame s ?s"
        using block by (meson heap_frame_free heap_frame_trans free_response_frame)
      ultimately have "queued c p s True (c\<lparr>cn_write_buf := wb'\<rparr>) ?s"
        unfolding queued_def using f(4,5) ser block(2,3) pb d0
        by (intro exI [of _ wb'] exI [of _ "drop (unat psz - 4) blk"]) (simp add: blocks_free)
      then show ?thesis using run by blast
    qed
  qed
qed

section \<open>Queueing a response\<close>

lemma packet_size_nat:
  "unat (ucast sizeof_vr_packet_header_t + ucast (n :: uint16) :: size_t) = 12 + unat n"
proof -
  have "unat (ucast sizeof_vr_packet_header_t + ucast n :: size_t)
      = (12 + unat n) mod 2 ^ 64"
    by (simp add: unat_word_ariths sizeof_header)
  then show ?thesis using unat16_less [of n] by simp
qed

lemma enqueue_paths:
  assumes "ring_inv wb" "payload_ok p" "wb \<noteq> ring_zero"
    and "unat psz = 12 + unat (hdr_payload_len (pkt_header p))"
    and "length (ring_contents wb) + unat psz \<le> unat (rb_capacity wb)"
  obtains m off ok c' s' where
    "vr_conn_ring_buf_contiguous_write wb None = (m, Some off)" "m \<noteq> 0"
    "(if ucast m \<ge> psz then enqueue_contiguous (c\<lparr>cn_write_buf := wb\<rparr>) p psz off s
      else enqueue_wrapped (c\<lparr>cn_write_buf := wb\<rparr>) p psz m off s) = Some (ok, c', s')"
    "queued (c\<lparr>cn_write_buf := wb\<rparr>) p s ok c' s'" "plenty 1 s \<longrightarrow> ok"
proof -
  let ?c = "c\<lparr>cn_write_buf := wb\<rparr>"
  have lt: "length (ring_contents wb) < unat (rb_capacity wb)" using assms(4,5) by simp
  obtain m q where mq: "vr_conn_ring_buf_contiguous_write wb None = (m, q)" by fastforce
  obtain off d where r: "0 < unat m" "q = Some off" "rb_data wb = Some d"
    using ring_writer.room_law [OF assms(1) lt mq] by blast
  have m0: "m \<noteq> 0" using r(1) by auto
  have w: "ring_inv (cn_write_buf ?c)" "vr_conn_ring_buf_contiguous_write (cn_write_buf ?c) None = (m, Some off)"
    "length (ring_contents (cn_write_buf ?c)) < unat (rb_capacity (cn_write_buf ?c))"
    "length (ring_contents (cn_write_buf ?c)) + unat psz \<le> unat (rb_capacity (cn_write_buf ?c))"
    using assms mq r lt by simp_all
  have cmp: "psz \<le> ucast m \<longleftrightarrow> unat psz \<le> unat m" by (simp add: word_le_nat_alt)
  show thesis
  proof (cases "unat psz \<le> unat m")
    case True
    from enqueue_contiguous_spec [OF w(1) assms(2,4) w(2) True w(3), of s] obtain wb' pad where
      e: "enqueue_contiguous ?c p psz off s = Some (True, ?c\<lparr>cn_write_buf := wb'\<rparr>, free_response p s)"
        "ring_inv wb'" "rb_data wb' \<noteq> None" "length pad = 4"
        "ring_contents wb' = ring_contents (cn_write_buf ?c) @ packet_bytes p @ pad" by blast
    have "queued ?c p s True (?c\<lparr>cn_write_buf := wb'\<rparr>) (free_response p s)"
      unfolding queued_def using e(2-5) r(3) by (intro exI [of _ wb'] exI [of _ pad]) simp
    then show thesis using that [of m off True] mq r(2) m0 e(1) True cmp by simp
  next
    case False
    then have "unat m < unat psz" by simp
    from enqueue_wrapped_spec [OF w(1) assms(2,4) w(2) this w(4), of s] obtain ok c' s' where
      "enqueue_wrapped ?c p psz m off s = Some (ok, c', s')" "queued ?c p s ok c' s'" "plenty 1 s \<longrightarrow> ok" by blast
    then show thesis using that [of m off ok c' s'] mq r(2) m0 False cmp by simp
  qed
qed

lemma queued_reserved:
  assumes "queued (c\<lparr>cn_write_buf := wb\<rparr>) p s1 ok c' s'"
    and "ring_contents wb = ring_contents (cn_write_buf c)" "heap_frame s s1" "rb_data wb \<noteq> None"
    and "blocks s1 = blocks s + of_bool (rb_data (cn_write_buf c) = None)"
  shows "queued c p s ok c' s'"
proof -
  from assms(1) obtain wb' pad where q: "c' = c\<lparr>cn_write_buf := wb'\<rparr>" "ring_inv wb'"
    "rb_data wb' \<noteq> None" "heap_frame s1 s'" "blocks s' = blocks s1 - packet_blocks p" "length pad = 4"
    "ring_contents wb' = ring_contents wb @ (if ok then packet_bytes p @ pad else [])"
    unfolding queued_def using assms(4) by auto
  show ?thesis unfolding queued_def
    by (rule exI [of _ wb'], rule exI [of _ pad])
      (use q assms(2,5) heap_frame_trans [OF assms(3) q(4)] in \<open>auto simp: not_None_eq [symmetric] simp del: not_None_eq\<close>)
qed

lemma enqueue_spec:
  assumes "ring_inv (cn_write_buf c)" "payload_ok p"
  obtains ok c' s' where "reactor_enqueue_response (Some c) (Some p) s = Some (ok, Some c', s')"
    "queued c p s ok c' s'"
    "unlimited s \<longrightarrow>
       (ok \<longleftrightarrow> length (ring_contents (cn_write_buf c)) + 12 + unat (hdr_payload_len (pkt_header p)) \<le> 65536)"
proof -
  let ?psz = "ucast sizeof_vr_packet_header_t + ucast (hdr_payload_len (pkt_header p)) :: size_t"
  have psz: "unat ?psz = 12 + unat (hdr_payload_len (pkt_header p))" by (rule packet_size_nat)
  have small: "\<not> UINT32_MAX < ?psz" "unat (ucast ?psz :: uint32) = unat ?psz"
    using psz unat16_less [of "hdr_payload_len (pkt_header p)"]
    by (simp_all add: word_less_nat_alt UINT32_MAX_def unat_ucast_64_32 del: unat16_less)
  from reserve_spec [OF assms(1)] obtain r wb s1 where
    v: "vr_conn_ring_buf_reserve (cn_write_buf c) (ucast ?psz) s = Some (r, wb, s1)" "ring_inv wb"
      "ring_contents wb = ring_contents (cn_write_buf c)" "heap_frame s s1"
      "r = VR_SUCCESS \<and> wb \<noteq> ring_zero \<and>
         length (ring_contents (cn_write_buf c)) + unat (ucast ?psz :: uint32) \<le> unat (rb_capacity wb) \<or> r = VR_ERROR"
      "blocks s1 = blocks s + of_bool (cn_write_buf c = ring_zero \<and> wb \<noteq> ring_zero)"
      "unat (rb_capacity (cn_write_buf c)) \<le> unat (rb_capacity wb)"
    by (rule reserve_spec [OF assms(1)])
  let ?c = "c\<lparr>cn_write_buf := wb\<rparr>"
  have bl: "blocks s1 = blocks s + (of_bool (rb_data wb \<noteq> None) - of_bool (rb_data (cn_write_buf c) \<noteq> None))"
      "rb_data wb = None \<longrightarrow> rb_data (cn_write_buf c) = None"
    using v(5,6,7) ring_data_None_iff [OF assms(1)] ring_data_None_iff [OF v(2)]
      ring_capacity_zero_iff [OF assms(1)] ring_capacity_zero_iff [OF v(2)]
    by (auto simp: ring_zero_def unat_eq_0)
  have fits: "r = VR_SUCCESS \<longleftrightarrow>
      length (ring_contents (cn_write_buf c)) + 12 + unat (hdr_payload_len (pkt_header p)) \<le> 65536" if "unlimited s"
    using reserve_fits [OF assms(1) unlimited_plenty [OF that], of "ucast ?psz"] v(1) small(2) psz by simp
  show thesis
  proof (cases "r = VR_ERROR")
    case True
    have "queued c p s False ?c (free_response p s1)"
      by (rule queued_fail) (use v bl in auto)
    moreover have "reactor_enqueue_response (Some c) (Some p) s = Some (False, Some ?c, free_response p s1)"
      using small(1) v(1) True by (simp add: reactor_enqueue_response_def Let_def)
    ultimately show thesis using that fits True by blast
  next
    case False
    then have w: "r = VR_SUCCESS" "wb \<noteq> ring_zero"
        "length (ring_contents wb) + unat ?psz \<le> unat (rb_capacity wb)"
      using v(3,5) small(2) by auto
    show thesis
    proof (rule enqueue_paths [OF v(2) assms(2) w(2) psz w(3), of c s1])
      fix m off ok c' s'
      assume e: "vr_conn_ring_buf_contiguous_write wb None = (m, Some off)" "m \<noteq> 0"
        "(if ?psz \<le> ucast m then enqueue_contiguous ?c p ?psz off s1
          else enqueue_wrapped ?c p ?psz m off s1) = Some (ok, c', s')"
        "queued ?c p s1 ok c' s'" "plenty 1 s1 \<longrightarrow> ok"
      have "reactor_enqueue_response (Some c) (Some p) s = Some (ok, Some c', s')"
        using small(1) v(1) w(1) e(1-3) by (simp add: reactor_enqueue_response_def Let_def)
      moreover have "queued c p s ok c' s'"
        by (rule queued_reserved [OF e(4) v(3,4)])
          (use bl w(2) ring_data_None_iff [OF v(2)] in auto)
      moreover have "unlimited s \<longrightarrow> ok"
        using e(5) heap_frame_unlimited [OF v(4)] unlimited_plenty by blast
      ultimately show thesis using that fits w(1) by blast
    qed
  qed
qed

end
