(* ===== verification/Velora_Drain_Spec.thy ===== *)
theory Velora_Drain_Spec
  imports Velora_Reactor Velora_Enqueue_Spec Velora_Parser_Spec
begin

text \<open>
  The loops that move bytes between the sockets, the rings and the protocol: each of them ends, touches
  no memory outside its blocks, and neither loses nor invents a byte.
\<close>

section \<open>What a loop leaves alone\<close>

definition io_frame :: "sys \<Rightarrow> sys \<Rightarrow> bool" where
  "io_frame s s' \<longleftrightarrow> accepts s' = accepts s \<and> waits s' = waits s \<and> interest s' = interest s \<and>
     closed s' = closed s \<and> set (allocs s') \<subseteq> set (allocs s) \<and> set (callocs s') \<subseteq> set (callocs s)"

lemma io_frame_refl [simp]: "io_frame s s"
  by (simp add: io_frame_def)

lemma io_frame_trans [trans]: "io_frame s t \<Longrightarrow> io_frame t u \<Longrightarrow> io_frame s u"
  by (auto simp: io_frame_def)

lemma heap_io_frame: "heap_frame s s' \<Longrightarrow> io_frame s s'"
  using heap_frame_fields [of s s'] by (simp add: io_frame_def heap_frame_def)

lemma io_frame_replies: "io_frame s s' \<Longrightarrow> replies_ok s \<Longrightarrow> replies_ok s'"
  by (auto simp: io_frame_def replies_ok_def)

lemma io_frame_unlimited: "io_frame s s' \<Longrightarrow> unlimited s \<Longrightarrow> unlimited s'"
  using io_frame_replies [of s s'] by (auto simp: io_frame_def unlimited_def)

lemma io_frame_errno [simp]: "io_frame s (s\<lparr>errno := e\<rparr>)"
  by (simp add: io_frame_def)

lemma send_call_frame:
  "send_call fd xs s = (n, s') \<Longrightarrow> io_frame s s' \<and> blocks s' = blocks s \<and> rcvd s' = rcvd s"
  by (auto simp: send_call_def io_frame_def Let_def split: list.splits send_answer.splits)

lemma recv_call_frame:
  "recv_call fd n s = (r, s') \<Longrightarrow> io_frame s s' \<and> blocks s' = blocks s \<and> sent s' = sent s"
  by (auto simp: recv_call_def io_frame_def split: list.splits recv_answer.splits if_splits)

text \<open>\<open>traffic fd s xs ys s'\<close>: from \<open>s\<close> to \<open>s'\<close> the bytes \<open>xs\<close> were received and \<open>ys\<close> sent on \<open>fd\<close>, and nothing
  on the other descriptors.\<close>

definition traffic :: "int \<Rightarrow> sys \<Rightarrow> bytes \<Rightarrow> bytes \<Rightarrow> sys \<Rightarrow> bool" where
  "traffic fd s xs ys s' \<longleftrightarrow> (\<forall>f. bytes_on f (rcvd s') = bytes_on f (rcvd s) @ (if f = fd then xs else []) \<and>
     bytes_on f (sent s') = bytes_on f (sent s) @ (if f = fd then ys else []))"

lemma traffic_none: "rcvd s' = rcvd s \<Longrightarrow> sent s' = sent s \<Longrightarrow> traffic fd s [] [] s'"
  by (simp add: traffic_def)

lemma traffic_refl [simp]: "traffic fd s [] [] s" "traffic fd s [] [] (s\<lparr>errno := e\<rparr>)"
  by (simp_all add: traffic_none)

lemma traffic_trans: "traffic fd s xs ys s1 \<Longrightarrow> traffic fd s1 xs' ys' s2 \<Longrightarrow> traffic fd s (xs @ xs') (ys @ ys') s2"
  by (simp add: traffic_def)

lemma heap_frame_traffic: "heap_frame s s' \<Longrightarrow> traffic fd s [] [] s'"
  using heap_frame_fields(9,11) [of s s'] by (simp add: traffic_none)

lemma traffic_sent: "rcvd s' = rcvd s \<Longrightarrow> sent s' = sent s @ map (Pair fd) yss \<Longrightarrow> traffic fd s [] (concat yss) s'"
  by (simp add: traffic_def)

lemma recv_call_traffic:
  "recv_call fd n s = (r, s') \<Longrightarrow> traffic fd s (case r of None \<Rightarrow> [] | Some bs \<Rightarrow> bs) [] s'"
  by (auto simp: recv_call_def traffic_def bytes_on_def split: list.splits recv_answer.splits if_splits)

section \<open>Writing\<close>

lemma ring_empty_iff: "ring_inv b \<Longrightarrow> vr_conn_ring_buf_empty b \<longleftrightarrow> ring_contents b = []"
  using length_ring_contents [of b] by (auto simp: vr_conn_ring_buf_empty_def unat_eq_zero)

text \<open>The answers of \<open>send\<close> after which the connection is given up.\<close>

definition send_fatal :: "send_answer \<Rightarrow> bool" where
  "send_fatal a = (case a of Send_upto n \<Rightarrow> n = 0 | Send_error e \<Rightarrow> e \<noteq> EAGAIN)"

lemma send_call_answer:
  assumes "send_call fd xs s = (k, s')" "xs \<noteq> []"
  shows "set (sends s') \<subseteq> set (sends s)"
    "k = 0 \<Longrightarrow> \<exists>a\<in>set (sends s). send_fatal a" "k < 0 \<Longrightarrow> errno s' = EAGAIN \<or> (\<exists>a\<in>set (sends s). send_fatal a)"
  using assms by (auto simp: send_call_def send_fatal_def Let_def min_def split: list.splits send_answer.splits if_splits)

text \<open>Why writing ended with the ring \<open>wb'\<close>: all is sent, the socket is full, or \<open>send\<close> failed.\<close>

definition writes_ended :: "sys \<Rightarrow> bool \<Rightarrow> vr_connection_ring_buf_t \<Rightarrow> sys \<Rightarrow> bool" where
  "writes_ended s failed wb' s' \<longleftrightarrow>
     (if failed then ring_contents wb' \<noteq> [] \<and> (\<exists>a\<in>set (sends s). send_fatal a)
      else ring_contents wb' = [] \<or> errno s' = EAGAIN)"

text \<open>One call of \<open>send\<close>, with the bytes up to the end of the block.\<close>

lemma drain_writes_send:
  assumes "ring_inv wb" "ring_contents wb \<noteq> []"
  obtains n :: "32 word" and k s1 where "0 < unat n" "unat n \<le> length (ring_contents wb)"
    "send_call fd (take (unat n) (ring_contents wb)) s = (k, s1)"
    "drain_writes_loop fd wb s =
      (if k > 0 then do {
         (r, wb) \<leftarrow> vr_conn_ring_buf_consume wb (of_int k);
         if r = VR_ERROR then Some (True, wb, s1) else drain_writes_loop fd wb s1
       }
       else if k = -1 \<and> (errno s1 = EAGAIN \<or> errno s1 = EWOULDBLOCK) then Some (False, wb, s1)
       else Some (True, wb, s1))"
proof -
  obtain n off where r: "vr_conn_ring_buf_contiguous_read wb None = (n, Some off)" "0 < unat n"
      "unat n \<le> length (ring_contents wb)"
      "mem_read (rb_data wb) off (unat n) = Some (take (unat n) (ring_contents wb))"
    by (rule contiguous_read_span [OF assms, of None]) blast
  have nz: "n \<noteq> 0" using r(2) by auto
  obtain k s1 where sc: "send_call fd (take (unat n) (ring_contents wb)) s = (k, s1)" by fastforce
  show thesis
    by (rule that [OF r(2,3) sc], subst drain_writes_loop.simps)
      (use assms(2) r nz sc ring_empty_iff [OF assms(1)] in \<open>simp add: vr_socket_send_def\<close>)
qed

text \<open>One round of the loop: it stops with the ring as it is, or goes on with some bytes less.\<close>

lemma drain_writes_step:
  assumes "ring_inv wb"
  obtains (stop) failed s' yss where "drain_writes_loop fd wb s = Some (failed, wb, s')" "concat yss = []"
      "sent s' = sent s @ map (Pair fd) yss" "io_frame s s'" "blocks s' = blocks s" "rcvd s' = rcvd s"
      "writes_ended s failed wb s'"
  | (more) xs wb1 s1 where "drain_writes_loop fd wb s = drain_writes_loop fd wb1 s1" "xs \<noteq> []"
      "ring_contents wb = xs @ ring_contents wb1" "ring_inv wb1" "rb_data wb1 = None \<longleftrightarrow> rb_data wb = None"
      "sent s1 = sent s @ [(fd, xs)]" "io_frame s s1" "blocks s1 = blocks s" "rcvd s1 = rcvd s"
      "set (sends s1) \<subseteq> set (sends s)"
proof (cases "ring_contents wb = []")
  case True
  then have "drain_writes_loop fd wb s = Some (False, wb, s)"
    using ring_empty_iff [OF assms] by (subst drain_writes_loop.simps) simp
  then show thesis by (rule stop [where yss = "[]"]) (auto simp: writes_ended_def True)
next
  case False
  obtain n :: "32 word" and k s1 where r: "0 < unat n" "unat n \<le> length (ring_contents wb)"
      and sc: "send_call fd (take (unat n) (ring_contents wb)) s = (k, s1)"
      and run: "drain_writes_loop fd wb s =
        (if k > 0 then do {
           (r, wb) \<leftarrow> vr_conn_ring_buf_consume wb (of_int k);
           if r = VR_ERROR then Some (True, wb, s1) else drain_writes_loop fd wb s1
         }
         else if k = -1 \<and> (errno s1 = EAGAIN \<or> errno s1 = EWOULDBLOCK) then Some (False, wb, s1)
         else Some (True, wb, s1))"
    by (rule drain_writes_send [OF assms False])
  have nz: "wb \<noteq> ring_zero" using False by auto
  have fr: "io_frame s s1" "blocks s1 = blocks s" "rcvd s1 = rcvd s" using send_call_frame [OF sc] by auto
  have "take (unat n) (ring_contents wb) \<noteq> []" using r(1) False by auto
  note an = send_call_answer [OF sc this]
  show thesis
  proof (cases rule: send_call_cases [of fd "take (unat n) (ring_contents wb)" s])
    case (error s')
    then have e: "drain_writes_loop fd wb s = Some (\<not> (errno s1 = EAGAIN \<or> errno s1 = EWOULDBLOCK), wb, s1)"
        "sent s1 = sent s"
      using run sc by auto
    have k: "k < 0" using error sc by simp
    show thesis
      by (rule stop [OF e(1), where yss = "[]"])
        (use e fr an(3) [OF k] False in \<open>auto simp: writes_ended_def EWOULDBLOCK_def\<close>)
  next
    case (taken j s')
    let ?xs = "take j (ring_contents wb)"
    have j: "k = int j" "j \<le> unat n" and st: "sent s1 = sent s @ [(fd, ?xs)]"
      using taken sc by (auto simp: min_def split: if_splits)
    show thesis
    proof (cases "j = 0")
      case True
      have "writes_ended s True wb s1" using an(2) j True False by (simp add: writes_ended_def)
      moreover have "drain_writes_loop fd wb s = Some (True, wb, s1)" using run j True by simp
      ultimately show thesis by (intro stop [where yss = "[[]]"]) (use st fr True in auto)
    next
      case False
      have uj: "unat (of_int k :: uint32) = j"
        using j unat32_less [of n] by (simp add: unat_of_nat del: unat32_less)
      obtain wb1 where c: "vr_conn_ring_buf_consume wb (of_int k) = Some (VR_SUCCESS, wb1)" "ring_inv wb1"
          "ring_contents wb1 = drop j (ring_contents wb)" "rb_capacity wb1 = rb_capacity wb"
        by (rule consume_ok [OF assms nz, of "of_int k"]) (use uj j(2) r(2) in auto)
      note sub = an(1)
      have "rb_data wb1 = None \<longleftrightarrow> rb_data wb = None"
        using c(2,4) assms ring_data_None_iff ring_capacity_zero_iff by metis
      moreover have "?xs \<noteq> []" using False r by auto
      ultimately show thesis using run c j False st fr sub by (intro more [of wb1 s1 ?xs]) auto
    qed
  qed
qed

lemma drain_writes_loop_spec:
  assumes "ring_inv wb"
  shows "\<exists>failed wb' s' yss. drain_writes_loop fd wb s = Some (failed, wb', s') \<and> ring_inv wb' \<and>
    (rb_data wb' = None \<longleftrightarrow> rb_data wb = None) \<and> ring_contents wb = concat yss @ ring_contents wb' \<and>
    sent s' = sent s @ map (Pair fd) yss \<and> io_frame s s' \<and> blocks s' = blocks s \<and>
    rcvd s' = rcvd s \<and> writes_ended s failed wb' s'"
  using assms
proof (induction "length (ring_contents wb)" arbitrary: wb s rule: less_induct)
  case less
  show ?case
  proof (cases rule: drain_writes_step [OF less.prems, of fd s])
    case (1 failed s' yss)
    then show ?thesis using less.prems by auto
  next
    case (2 xs wb1 s1)
    then have "length (ring_contents wb1) < length (ring_contents wb)" by simp
    from less.hyps [OF this 2(4), of s1] obtain failed wb' s' yss where
      ih: "drain_writes_loop fd wb1 s1 = Some (failed, wb', s')" "ring_inv wb'"
        "rb_data wb' = None \<longleftrightarrow> rb_data wb1 = None" "ring_contents wb1 = concat yss @ ring_contents wb'"
        "sent s' = sent s1 @ map (Pair fd) yss" "io_frame s1 s'" "blocks s' = blocks s1" "rcvd s' = rcvd s1"
        "writes_ended s1 failed wb' s'" by auto
    have "writes_ended s failed wb' s'" using ih(9) 2(10) by (auto simp: writes_ended_def split: if_splits)
    moreover have "ring_contents wb = concat (xs # yss) @ ring_contents wb'"
        "sent s' = sent s @ map (Pair fd) (xs # yss)" using ih 2 by simp_all
    ultimately show ?thesis using 2 ih io_frame_trans [OF 2(7) ih(6)] by metis
  qed
qed

section \<open>Reading\<close>

text \<open>The bytes the peer will still send.\<close>

definition incoming :: "sys \<Rightarrow> bytes" where
  "incoming s = concat (map (\<lambda>r. case r of Recv_bytes bs \<Rightarrow> bs | Recv_error e \<Rightarrow> []) (recvs s))"

lemma recv_call_incoming:
  "recv_call fd n s = (r, s') \<Longrightarrow> incoming s = (case r of None \<Rightarrow> [] | Some bs \<Rightarrow> bs) @ incoming s'"
  by (auto simp: recv_call_def incoming_def split: list.splits recv_answer.splits if_splits)

definition recv_left :: "sys \<Rightarrow> nat" where
  "recv_left s = length (incoming s) + length (recvs s)"

lemma recv_call_left:
  "recv_call fd n s = (Some bs, s') \<Longrightarrow> bs \<noteq> [] \<Longrightarrow> recv_left s' < recv_left s"
  by (auto simp: recv_call_def recv_left_def incoming_def split: list.splits recv_answer.splits if_splits)

lemma recv_call_left_le: "recv_call fd n s = (r, s') \<Longrightarrow> recv_left s' \<le> recv_left s"
  by (auto simp: recv_call_def recv_left_def incoming_def split: list.splits recv_answer.splits if_splits)

text \<open>One round of the loop: it stops, or has received some bytes or grown the ring.\<close>

definition read_measure :: "(vr_connection_ring_buf_t \<times> sys) rel" where
  "read_measure = inv_image (less_than <*lex*> less_than) (\<lambda>(rb, s). (recv_left s, 2 ^ 32 - unat (rb_capacity rb)))"

lemma wf_read_measure: "wf read_measure"
  unfolding read_measure_def by (intro wf_inv_image wf_lex_prod wf_less_than)

text \<open>The answers of \<open>recv\<close> after which the connection is given up: the peer's shutdown and the errors that the
  loop does not know.\<close>

definition recv_fatal :: "recv_answer \<Rightarrow> bool" where
  "recv_fatal a = (case a of Recv_bytes bs \<Rightarrow> bs = [] | Recv_error e \<Rightarrow> e \<noteq> EAGAIN \<and> e \<noteq> ENOBUFS)"

lemma recv_fatal_simps [simp]:
  "recv_fatal (Recv_bytes bs) \<longleftrightarrow> bs = []" "recv_fatal (Recv_error e) \<longleftrightarrow> e \<noteq> EAGAIN \<and> e \<noteq> ENOBUFS"
  by (simp_all add: recv_fatal_def)

definition recv_hopeless :: "sys \<Rightarrow> bool" where
  "recv_hopeless s \<longleftrightarrow> (\<exists>a\<in>set (recvs s). recv_fatal a)"

lemma recv_call_answer:
  assumes "recv_call fd n s = (r, s')" "0 < n"
  shows "recv_hopeless s' \<Longrightarrow> recv_hopeless s" "r = Some [] \<Longrightarrow> recv_hopeless s"
    "r = None \<Longrightarrow> errno s' = EAGAIN \<or> errno s' = ENOBUFS \<or> recv_hopeless s"
  using assms by (auto simp: recv_call_def recv_hopeless_def split: list.splits recv_answer.splits if_splits)

text \<open>Why reading ended: the peer is gone or failed; or the socket is drained, or the ring has its maximal capacity.\<close>

definition reads_ended :: "sys \<Rightarrow> bool \<Rightarrow> vr_connection_ring_buf_t \<Rightarrow> sys \<Rightarrow> bool" where
  "reads_ended s failed rb' s' \<longleftrightarrow>
     (if failed then recv_hopeless s
      else errno s' = EAGAIN \<or> (unlimited s \<longrightarrow> unat (rb_capacity rb') = 65536))"

text \<open>What reading has done to the ring and the system.\<close>

definition read_more :: "int \<Rightarrow> vr_connection_ring_buf_t \<Rightarrow> sys \<Rightarrow> vr_connection_ring_buf_t \<Rightarrow> sys \<Rightarrow> bool" where
  "read_more fd rb s rb' s' \<longleftrightarrow> ring_inv rb' \<and> (rb_data rb' = None \<longrightarrow> rb_data rb = None) \<and>
     (\<exists>xs. ring_contents rb' = ring_contents rb @ xs \<and> incoming s = xs @ incoming s' \<and> traffic fd s xs [] s') \<and>
     sent s' = sent s \<and> io_frame s s' \<and> (recv_hopeless s' \<longrightarrow> recv_hopeless s) \<and>
     blocks s' = blocks s + (of_bool (rb_data rb' \<noteq> None) - of_bool (rb_data rb \<noteq> None))"

lemma read_more_refl: "ring_inv rb \<Longrightarrow> read_more fd rb s rb s"
  by (simp add: read_more_def)

lemma read_more_trans: "read_more fd rb s rb1 s1 \<Longrightarrow> read_more fd rb1 s1 rb2 s2 \<Longrightarrow> read_more fd rb s rb2 s2"
  unfolding read_more_def using traffic_trans by (fastforce intro: io_frame_trans)

lemma heap_frame_incoming:
  "heap_frame s s' \<Longrightarrow> incoming s' = incoming s \<and> recv_left s' = recv_left s \<and> recv_hopeless s' = recv_hopeless s"
  using heap_frame_fields(1) [of s s'] by (simp add: incoming_def recv_left_def recv_hopeless_def)

lemma read_grown:
  assumes "ring_inv rb" "ring_inv rb'" "ring_contents rb' = ring_contents rb" "heap_frame s s'"
    and "blocks s' = blocks s + of_bool (rb = ring_zero \<and> rb' \<noteq> ring_zero)"
    and "rb' = rb \<or> unat (rb_capacity rb) < unat (rb_capacity rb')"
  shows "read_more fd rb s rb' s'"
    "rb' \<noteq> rb \<Longrightarrow> recv_left s \<le> recv_left s0 \<Longrightarrow> ((rb', s'), (rb, s0)) \<in> read_measure"
proof -
  have z: "rb_data rb = None \<longleftrightarrow> rb = ring_zero" "rb_data rb' = None \<longleftrightarrow> rb' = ring_zero"
    using ring_data_None_iff assms(1,2) by auto
  have "rb' = ring_zero \<longrightarrow> rb = ring_zero" using assms(6) by (auto simp: ring_zero_def)
  then show "read_more fd rb s rb' s'"
    unfolding read_more_def
    using assms(2,3,5) z heap_io_frame [OF assms(4)] heap_frame_incoming [OF assms(4)] heap_frame_fields(9) [OF assms(4)]
      heap_frame_traffic [OF assms(4)]
    by (cases "rb = ring_zero"; cases "rb' = ring_zero") (simp_all del: not_None_eq)
  show "((rb', s'), (rb, s0)) \<in> read_measure" if "rb' \<noteq> rb" "recv_left s \<le> recv_left s0"
    using that assms(6) heap_frame_incoming [OF assms(4)] unat32_less [of "rb_capacity rb'"]
    by (auto simp: read_measure_def diff_less_mono2 simp del: unat32_less)
qed

lemma recv_outcomes:
  assumes "ring_inv rb"
  obtains (error) s1 where "vr_socket_recv_ring_buf fd rb s = Some (-1, rb, s1)" "read_more fd rb s rb s1"
      "recv_left s1 \<le> recv_left s" "errno s1 = EAGAIN \<or> errno s1 = ENOBUFS \<or> recv_hopeless s"
  | (data) n rb1 s1 where "vr_socket_recv_ring_buf fd rb s = Some (int n, rb1, s1)" "read_more fd rb s rb1 s1"
      "n \<noteq> 0 \<Longrightarrow> recv_left s1 < recv_left s" "n = 0 \<Longrightarrow> recv_hopeless s"
proof (cases "rb_count rb = rb_capacity rb")
  case True
  then show thesis using recv_ring_buf_full [OF True, of fd s] assms
    by (intro error [of "s\<lparr>errno := ENOBUFS\<rparr>"]) (auto simp: read_more_def incoming_def recv_left_def recv_hopeless_def)
next
  case False
  let ?n = "unat (rb_capacity rb) - length (ring_contents rb)"
  have rc: "received fd ?n rb s (vr_socket_recv_ring_buf fd rb s)" by (rule recv_ring_buf_spec [OF assms False])
  have live: "rb_data rb \<noteq> None" using False ring_data_None_iff [OF assms] by (auto simp: ring_zero_def)
  obtain r s1 where c: "recv_call fd ?n s = (r, s1)" by fastforce
  have "unat (rb_count rb) \<noteq> unat (rb_capacity rb)" using False by (simp add: word_unat_eq_iff)
  then have pos: "0 < ?n" using ring_count_le [OF assms] length_ring_contents [OF assms] by linarith
  note an = recv_call_answer [OF c pos]
  note f = recv_call_frame [OF c] recv_call_incoming [OF c] recv_call_left_le [OF c] an(1) recv_call_traffic [OF c]
  show thesis
  proof (cases r)
    case None
    then show thesis using rc c f assms an(3) by (intro error [of s1]) (auto simp: received_def read_more_def)
  next
    case (Some bs)
    then obtain b' where b': "vr_socket_recv_ring_buf fd rb s = Some (int (length bs), b', s1)" "ring_inv b'"
        "rb_data b' \<noteq> None" "ring_contents b' = ring_contents rb @ bs"
      using rc c by (auto simp: received_def)
    have "read_more fd rb s b' s1" using b'(2-4) f live Some by (simp add: read_more_def del: not_None_eq)
    moreover have "recv_left s1 < recv_left s" if "length bs \<noteq> 0"
      using recv_call_left [of fd ?n s bs s1] c Some that by auto
    ultimately show thesis using b'(1) an(2) Some by (intro data [of "length bs" b' s1]) auto
  qed
qed

lemma read_room:
  assumes "ring_inv rb"
  obtains r rb' s' where "(if rb_state rb = VR_CONN_RING_BUF_UNALLOC then Some (vr_conn_ring_buf_init rb s)
      else vr_conn_ring_buf_grow rb s) = Some (r, rb', s')"
    "ring_inv rb'" "ring_contents rb' = ring_contents rb" "heap_frame s s'"
    "r = VR_ERROR \<and> rb' = rb \<or> r = VR_SUCCESS \<and> unat (rb_capacity rb) < unat (rb_capacity rb')"
    "blocks s' = blocks s + of_bool (rb = ring_zero \<and> rb' \<noteq> ring_zero)"
    "r = VR_ERROR \<Longrightarrow> plenty 1 s \<Longrightarrow> unat (rb_capacity rb') = 65536"
proof (cases "rb_state rb = VR_CONN_RING_BUF_UNALLOC")
  case True
  then have z: "rb = ring_zero" using ring_state_iff [OF assms] by simp
  obtain r rb' s' where i: "vr_conn_ring_buf_init rb s = (r, rb', s')" "ring_inv rb'"
      "ring_contents rb' = ring_contents rb"
      "r = VR_ERROR \<and> rb' = rb \<or> r = VR_SUCCESS \<and> rb = ring_zero \<and> unat (rb_capacity rb') = 4096"
      "blocks s' = blocks s + of_bool (r = VR_SUCCESS)" "heap_frame s s'"
      "\<forall>n. plenty (Suc n) s \<longrightarrow> plenty n s' \<and> (rb = ring_zero \<longrightarrow> r = VR_SUCCESS)"
    by (rule init_spec [OF assms])
  have r: "r = VR_ERROR \<and> rb' = rb \<or> r = VR_SUCCESS \<and> unat (rb_capacity rb) < unat (rb_capacity rb')"
    using i(4) z by (auto simp: ring_zero_def)
  then have "r = VR_SUCCESS \<longleftrightarrow> rb' \<noteq> ring_zero" using z by auto
  moreover have "r = VR_ERROR \<Longrightarrow> plenty 1 s \<Longrightarrow> unat (rb_capacity rb') = 65536"
    using i(7) z by (metis One_nat_def vr_result_t.distinct)
  ultimately show thesis using that [OF _ i(2,3,6) r] i(1,5) True z by simp
next
  case False
  obtain r rb' s' where g: "vr_conn_ring_buf_grow rb s = Some (r, rb', s')" "ring_inv rb'"
    "ring_contents rb' = ring_contents rb"
    "r = VR_ERROR \<and> rb' = rb \<or> r = VR_SUCCESS \<and> unat (rb_capacity rb) < unat (rb_capacity rb')"
    "blocks s' = blocks s + of_bool (rb = ring_zero \<and> rb' \<noteq> ring_zero)" "heap_frame s s'"
    "\<forall>n. plenty (Suc n) s \<longrightarrow> plenty n s' \<and> (unat (rb_capacity rb) < 65536 \<longrightarrow> r = VR_SUCCESS)"
    by (rule grow_spec [OF assms])
  have "unat (rb_capacity rb') = 65536" if "r = VR_ERROR" "plenty 1 s"
    using g(4,7) that ring_capacity_le [OF assms] by (auto dest: spec [of _ 0])
  then show thesis using that [OF _ g(2,3,6,4,5)] g(1) False by simp
qed

lemma drain_reads_step:
  assumes "ring_inv rb"
  obtains (stop) failed rb1 s1 where "drain_reads_loop fd rb s = Some (failed, rb1, s1)" "read_more fd rb s rb1 s1"
      "reads_ended s failed rb1 s1"
  | (more) rb1 s1 where "drain_reads_loop fd rb s = drain_reads_loop fd rb1 s1" "read_more fd rb s rb1 s1"
      "((rb1, s1), (rb, s)) \<in> read_measure"
proof (cases rule: recv_outcomes [OF assms, of fd s])
  case (2 n rb1 s1)
  show thesis
  proof (cases "n = 0")
    case True
    then have "drain_reads_loop fd rb s = Some (True, rb1, s1)"
      using 2(1) by (subst drain_reads_loop.simps) simp
    then show thesis using stop 2(2) 2(4) [OF True] by (auto simp: reads_ended_def)
  next
    case False
    then have "drain_reads_loop fd rb s = drain_reads_loop fd rb1 s1"
      using 2(1) by (subst drain_reads_loop.simps) simp
    then show thesis using more 2(2) 2(3) [OF False] by (simp add: read_measure_def)
  qed
next
  case (1 s1)
  show thesis
  proof (cases "errno s1 = ENOBUFS")
    case False
    then have "drain_reads_loop fd rb s = Some (errno s1 \<noteq> EAGAIN, rb, s1)"
      using 1(1) by (subst drain_reads_loop.simps) (simp add: EWOULDBLOCK_def)
    then show thesis using stop 1(2,4) False by (auto simp: reads_ended_def)
  next
    case True
    then have e: "errno s1 \<noteq> EAGAIN" "errno s1 \<noteq> EWOULDBLOCK" by (simp_all add: errno_defs)
    obtain r rb2 s2 where g: "(if rb_state rb = VR_CONN_RING_BUF_UNALLOC then Some (vr_conn_ring_buf_init rb s1)
          else vr_conn_ring_buf_grow rb s1) = Some (r, rb2, s2)"
        "ring_inv rb2" "ring_contents rb2 = ring_contents rb" "heap_frame s1 s2"
        "r = VR_ERROR \<and> rb2 = rb \<or> r = VR_SUCCESS \<and> unat (rb_capacity rb) < unat (rb_capacity rb2)"
        "blocks s2 = blocks s1 + of_bool (rb = ring_zero \<and> rb2 \<noteq> ring_zero)"
        "r = VR_ERROR \<longrightarrow> plenty 1 s1 \<longrightarrow> unat (rb_capacity rb2) = 65536"
      by (rule read_room [OF assms]) blast
    have run: "drain_reads_loop fd rb s = (if r = VR_ERROR then Some (False, rb2, s2) else drain_reads_loop fd rb2 s2)"
      using g(1) 1(1) True e by (subst drain_reads_loop.simps) (simp split: if_splits)
    have grown: "rb2 = rb \<or> unat (rb_capacity rb) < unat (rb_capacity rb2)" using g(5) by blast
    note rg = read_grown [OF assms g(2,3,4,6) grown]
    have rm: "read_more fd rb s rb2 s2" by (rule read_more_trans [OF 1(2) rg(1)])
    show thesis
    proof (cases "r = VR_ERROR")
      case True
      have "io_frame s s1" using 1(2) by (simp add: read_more_def)
      then have "reads_ended s False rb2 s2"
        using g(7) True io_frame_unlimited unlimited_plenty by (auto simp: reads_ended_def)
      then show thesis using run True by (intro stop [of False, OF _ rm]) simp_all
    next
      case False
      then have "rb2 \<noteq> rb" using g(5) by auto
      then show thesis by (intro more [OF _ rm rg(2) [OF _ 1(3)]]) (simp_all add: run False)
    qed
  qed
qed

lemma drain_reads_loop_spec:
  assumes "ring_inv rb"
  shows "\<exists>failed rb' s'. drain_reads_loop fd rb s = Some (failed, rb', s') \<and> read_more fd rb s rb' s' \<and>
    reads_ended s failed rb' s'"
  using assms
proof (induction "(rb, s)" arbitrary: rb s rule: wf_induct_rule [OF wf_read_measure])
  case (1 rb s)
  show ?case
  proof (cases rule: drain_reads_step [OF 1(2), of fd s])
    case (2 rb1 s1)
    have "ring_inv rb1" using 2(2) by (simp add: read_more_def)
    from 1(1) [OF 2(3) this] obtain failed rb' s' where
      ih: "drain_reads_loop fd rb1 s1 = Some (failed, rb', s')" "read_more fd rb1 s1 rb' s'" "reads_ended s1 failed rb' s'"
      by blast
    have "reads_ended s failed rb' s'"
      using ih(3) 2(2) io_frame_unlimited [of s s1] by (auto simp: reads_ended_def read_more_def split: if_splits)
    then show ?thesis using 2(1) ih(1) read_more_trans [OF 2(2) ih(2)] by auto
  qed blast
qed

section \<open>Processing packets\<close>

text \<open>What a handler leaves alone in a connection, the balance of blocks, and the bytes that it receives and sends.\<close>

definition conn_frame :: "vr_connection_t \<Rightarrow> sys \<Rightarrow> bytes \<Rightarrow> bytes \<Rightarrow> vr_connection_t \<Rightarrow> sys \<Rightarrow> bool" where
  "conn_frame c s xs ys c' s' \<longleftrightarrow> conn_inv c' \<and> cn_net_conn c' = cn_net_conn c \<and> cn_type c' = cn_type c \<and>
     cn_slot c' = cn_slot c \<and> io_frame s s' \<and> blocks s' - conn_blocks c' = blocks s - conn_blocks c \<and>
     traffic (nc_fd (cn_net_conn c)) s xs ys s'"

lemma conn_frame_trans:
  "conn_frame c s xs ys c1 s1 \<Longrightarrow> conn_frame c1 s1 xs' ys' c2 s2 \<Longrightarrow> conn_frame c s (xs @ xs') (ys @ ys') c2 s2"
  unfolding conn_frame_def using io_frame_trans traffic_trans by auto

lemma payload_ok_reply [simp]: "payload_ok (reply_packet x)"
  by (simp add: payload_ok_def reply_packet_def split: prod.split)

lemma packet_blocks_reply [simp]: "packet_blocks (reply_packet x) = 1"
  by (simp add: packet_blocks_def reply_packet_def split: prod.split)

lemma conn_inv_bitmap: "conn_inv c \<Longrightarrow> bitmap_ok c"
  by (simp add: conn_inv_def bitmap_ok_def)

lemma proto_frame_fields:
  assumes "proto_frame c c'"
  shows "cn_net_conn c' = cn_net_conn c" "cn_type c' = cn_type c" "cn_slot c' = cn_slot c"
    "cn_read_buf c' = cn_read_buf c" "cn_write_buf c' = cn_write_buf c" "cn_parser c' = cn_parser c"
  using assms by (cases c; cases c'; simp add: proto_frame_def)+

lemma payload_blocks:
  assumes "parse_payload_ref h xs packet_zero s = (r, p', rest, out, s')"
  shows "heap_frame s s' \<and> blocks s' = blocks s + of_bool (r = VR_SUCCESS \<and> pkt_payload out \<noteq> None)"
  using assms by (cases rule: malloc_bytes_cases [of "unat (hdr_payload_len h)" s])
    (auto simp: parse_payload_ref_def Let_def split: if_splits)

lemma poll_blocks:
  assumes "parse_ref p bs packet_zero s = (r, p', rest, out, s')"
  shows "heap_frame s s' \<and> blocks s' = blocks s + of_bool (r = VR_SUCCESS \<and> pkt_payload out \<noteq> None)"
  using assms
  by (auto simp: parse_ref_def Let_def packet_zero_def dest!: payload_blocks [unfolded packet_zero_def]
      split: vr_parser_state_t.splits if_splits)

end
