(* ===== verification/Velora_Pipeline_Spec.thy ===== *)
theory Velora_Pipeline_Spec
  imports Velora_Drain_Spec
begin

text \<open>
  Parser, protocol and write path composed: processing a connection's read ring is a run of the reference
  parser, of the protocol's transition function over its packets, and of the serializer over the replies.
\<close>

section \<open>The reference\<close>

fun proto_run :: "proto_abs \<Rightarrow> vr_packet_t list \<Rightarrow> proto_abs \<times> (vr_packet_type_t \<times> uint8) list" where
  "proto_run a [] = (a, [])"
| "proto_run a (p # ps) =
     (case proto_spec a (hdr_type (pkt_header p)) (hdr_stream_id (pkt_header p)) of (a', r) \<Rightarrow>
        (case proto_run a' ps of (a'', rs) \<Rightarrow> (a'', (case r of None \<Rightarrow> rs | Some x \<Rightarrow> x # rs))))"

text \<open>The bytes queued for a list of replies: for each reply its eight bytes and four more.\<close>

fun wire_of :: "(vr_packet_type_t \<times> uint8) list \<Rightarrow> bytes \<Rightarrow> bool" where
  "wire_of [] bs \<longleftrightarrow> bs = []"
| "wire_of (r # rs) bs \<longleftrightarrow>
     12 \<le> length bs \<and> take 8 bs = packet_bytes (reply_packet r) \<and> wire_of rs (drop 12 bs)"

lemma length_reply [simp]: "length (packet_bytes (reply_packet r)) = 8"
  using length_packet_bytes [OF payload_ok_reply, of r] by (simp add: reply_packet_def split: prod.splits)

lemma wire_of_Cons:
  "length pad = 4 \<Longrightarrow> wire_of rs ws \<Longrightarrow> wire_of (r # rs) (packet_bytes (reply_packet r) @ pad @ ws)"
  by simp

lemma proto_run_append:
  "proto_run a (ps @ qs) = (case proto_run a ps of (a1, rs) \<Rightarrow> case proto_run a1 qs of (a2, rs') \<Rightarrow> (a2, rs @ rs'))"
  by (induction ps arbitrary: a) (auto split: prod.splits option.splits)

lemma wire_of_length: "wire_of rs bs \<Longrightarrow> length bs = 12 * length rs"
  by (induction rs bs rule: wire_of.induct) auto

section \<open>The allocator does not matter while it has memory\<close>

lemma parse_payload_ref_unlimited:
  assumes "unlimited s" "parse_payload_ref h bs out s = (r, p', rest, out', s')"
  shows "unlimited s'" "unlimited t \<Longrightarrow> \<exists>t'. parse_payload_ref h bs out t = (r, p', rest, out', t') \<and> unlimited t'"
proof -
  have ok: "\<exists>d u'. malloc_bytes n u = (Some d, u') \<and> unlimited u'" if "unlimited u" for n u
    using that by (cases rule: malloc_bytes_cases [of n u])
      (auto dest: heap_frame_unlimited simp: unlimited_plenty)
  show "unlimited s'"
    using assms ok [OF assms(1), of "unat (hdr_payload_len h)"]
    by (auto simp: parse_payload_ref_def Let_def split: if_splits)
  show "\<exists>t'. parse_payload_ref h bs out t = (r, p', rest, out', t') \<and> unlimited t'" if "unlimited t"
    using assms ok [OF assms(1), of "unat (hdr_payload_len h)"] ok [OF that, of "unat (hdr_payload_len h)"] that
    by (auto simp: parse_payload_ref_def Let_def split: if_splits)
qed

lemma parse_ref_unlimited:
  assumes "unlimited s" "parse_ref p bs out s = (r, p', rest, out', s')"
  shows "unlimited s'" "unlimited t \<Longrightarrow> \<exists>t'. parse_ref p bs out t = (r, p', rest, out', t') \<and> unlimited t'"
  using assms parse_payload_ref_unlimited(1) [OF assms(1)]
  by (auto simp: parse_ref_def Let_def split: if_splits vr_parser_state_t.splits
      dest: parse_payload_ref_unlimited(2) [OF assms(1)])

lemma parse_ref_result: "parse_ref p bs out s = (r, p', rest, out', s') \<Longrightarrow> r \<noteq> VR_INTERRUPTED"
  by (auto simp: parse_ref_def parse_payload_ref_def Let_def
      split: if_splits vr_parser_state_t.splits option.splits prod.splits)

text \<open>The packets of a byte sequence, with the last result, the parser's state and the bytes left.\<close>

definition parse_bytes ::
  "vr_parser_t \<Rightarrow> bytes \<Rightarrow> vr_packet_t list \<times> vr_result_t \<times> vr_parser_t \<times> bytes" where
  "parse_bytes p bs = (case parse_run p bs (sys_with 0) of (ps, r, p', rest, _) \<Rightarrow> (ps, r, p', rest))"

lemma parse_run_unlimited:
  assumes "unlimited s" "unlimited t" "parse_run p bs s = (ps, r, p', rest, s')"
  shows "\<exists>t'. parse_run p bs t = (ps, r, p', rest, t')"
  using assms
proof (induction p bs s arbitrary: t ps rule: parse_run.induct)
  case (1 p bs s)
  obtain r1 p1 rest1 out s1 where e: "parse_ref p bs packet_zero s = (r1, p1, rest1, out, s1)"
    by (metis prod_cases5)
  obtain t1 where t1: "parse_ref p bs packet_zero t = (r1, p1, rest1, out, t1)" "unlimited t1"
    using parse_ref_unlimited(2) [OF 1(2) e 1(3)] by blast
  have s1: "unlimited s1" by (rule parse_ref_unlimited(1) [OF 1(2) e])
  show ?case
  proof (cases "r1 = VR_SUCCESS")
    case True
    obtain qs where qs: "ps = out # qs" "parse_run p1 rest1 s1 = (qs, r, p', rest, s')"
      using 1(4) e True by (subst (asm) parse_run.simps) (auto split: prod.splits)
    obtain t' where "parse_run p1 rest1 t1 = (qs, r, p', rest, t')"
      using 1(1) [OF e [symmetric] refl refl refl True s1 t1(2) qs(2)] by blast
    then show ?thesis using qs(1) t1(1) True by (subst parse_run.simps) simp
  next
    case False
    then show ?thesis using 1(4) e t1(1) by (subst (asm) parse_run.simps) (subst parse_run.simps, simp)
  qed
qed

lemma parse_bytes_step:
  assumes "unlimited s" "parse_ref p bs packet_zero s = (r, p', rest, out, s')"
  shows "r = VR_SUCCESS \<Longrightarrow> parse_bytes p bs = (case parse_bytes p' rest of (ps, x) \<Rightarrow> (out # ps, x))"
    "r \<noteq> VR_SUCCESS \<Longrightarrow> parse_bytes p bs = ([], r, p', rest)"
proof -
  obtain t where t: "parse_ref p bs packet_zero (sys_with 0) = (r, p', rest, out, t)" "unlimited t"
    using parse_ref_unlimited(2) [OF assms unlimited_sys_with(1)] by blast
  obtain ps r2 p2 rest2 t2 where e: "parse_run p' rest t = (ps, r2, p2, rest2, t2)" by (metis prod_cases5)
  then obtain t3 where "parse_run p' rest (sys_with 0) = (ps, r2, p2, rest2, t3)"
    using parse_run_unlimited [OF t(2) unlimited_sys_with(1)] by blast
  then show "r = VR_SUCCESS \<Longrightarrow> parse_bytes p bs = (case parse_bytes p' rest of (ps, x) \<Rightarrow> (out # ps, x))"
    using t(1) e by (simp add: parse_bytes_def parse_run.simps [of p bs])
  show "r \<noteq> VR_SUCCESS \<Longrightarrow> parse_bytes p bs = ([], r, p', rest)"
    using t(1) by (simp add: parse_bytes_def parse_run.simps [of p bs])
qed

section \<open>One packet\<close>

lemma consume_block: "vr_conn_ring_buf_consume b n = Some (r, b') \<Longrightarrow> rb_data b' = rb_data b"
  by (cases "advance (rb_read_pos b) n (rb_capacity b)"; cases "n > rb_count b")
    (simp_all add: vr_conn_ring_buf_consume_def Let_def, clarsimp)

lemma header_wait_block:
  "parser_header_wait c out = Some (r, c', out') \<Longrightarrow> rb_data (cn_read_buf c') = rb_data (cn_read_buf c)"
  by (cases "parser_read_header (cn_read_buf c)";
      cases "vr_conn_ring_buf_consume (cn_read_buf c) sizeof_vr_packet_header_t")
    (simp_all add: parser_header_wait_def split: option.splits prod.splits if_splits,
     auto simp: Let_def dest: consume_block split: if_splits)

lemma payload_wait_block:
  assumes "parser_payload_wait c out s = Some (r, c', out', s')"
  shows "rb_data (cn_read_buf c') = rb_data (cn_read_buf c)"
proof -
  let ?n = "ucast (hdr_payload_len (ps_current_header (cn_parser c))) :: uint32"
  obtain m s1 where m: "malloc_bytes (unat ?n) s = (m, s1)" by fastforce
  show ?thesis
    by (cases m; cases "parser_read_payload (cn_read_buf c) ?n (the m)";
        cases "vr_conn_ring_buf_consume (cn_read_buf c) ?n")
      (use assms m in \<open>simp_all add: parser_payload_wait_def Let_def split: option.splits prod.splits if_splits\<close>,
       auto dest: consume_block split: if_splits)
qed

lemma poll_block:
  assumes "vr_parser_poll c out s = Some (r, c', out', s')"
  shows "rb_data (cn_read_buf c') = rb_data (cn_read_buf c)"
proof (cases "ps_state (cn_parser c)")
  case VR_PARSER_PAYLOAD_WAIT
  then show ?thesis using assms payload_wait_block by (simp add: vr_parser_poll_def)
next
  case VR_PARSER_HEADER_WAIT
  then obtain ret c1 out1 where h: "parser_header_wait c out = Some (ret, c1, out1)"
    using assms by (cases "parser_header_wait c out") (auto simp: vr_parser_poll_def)
  then show ?thesis
    using assms VR_PARSER_HEADER_WAIT header_wait_block [OF h] payload_wait_block [of c1 out1 s]
    by (auto simp: vr_parser_poll_def split: option.splits if_splits)
qed

lemma process_polled:
  assumes "conn_inv c" "parse_ref (cn_parser c) (ring_contents (cn_read_buf c)) packet_zero s = (r, p', rest, out, s1)"
  obtains c1 where "vr_parser_poll c packet_zero s = Some (r, c1, out, s1)" "conn_inv c1"
    "ring_contents (cn_read_buf c1) = rest" "cn_parser c1 = p'" "cn_write_buf c1 = cn_write_buf c"
    "proto_abs c1 = proto_abs c" "cn_net_conn c1 = cn_net_conn c" "cn_type c1 = cn_type c" "cn_slot c1 = cn_slot c"
    "conn_blocks c1 = conn_blocks c"
proof -
  obtain rb where rb: "vr_parser_poll c packet_zero s = Some (r, c\<lparr>cn_read_buf := rb, cn_parser := p'\<rparr>, out, s1)"
      "ring_inv rb" "ring_contents rb = rest" "parser_inv p'"
    using poll_refines_ref [OF assms(1), of packet_zero s] assms(2) by (auto simp: poll_refines_def)
  have "rb_data rb = rb_data (cn_read_buf c)" using poll_block [OF rb(1)] by simp
  then show thesis
    using rb assms(1)
    by (intro that [of "c\<lparr>cn_read_buf := rb, cn_parser := p'\<rparr>"])
      (auto simp: conn_inv_def proto_abs_def open_streams_def conn_blocks_def)
qed

text \<open>The end of a run: no whole packet is left, or the bytes are not one.\<close>

lemma process_end:
  assumes "conn_inv c" "parse_ref (cn_parser c) (ring_contents (cn_read_buf c)) packet_zero s = (r, p', rest, out, s1)"
    and "r \<noteq> VR_SUCCESS"
  obtains c1 where "process_packets_loop c s = Some (r = VR_ERROR, c1, s1)" "conn_frame c s [] [] c1 s1"
    "ring_contents (cn_read_buf c1) = rest" "cn_parser c1 = p'" "cn_write_buf c1 = cn_write_buf c"
    "proto_abs c1 = proto_abs c"
proof -
  have r: "r = VR_EMPTY \<or> r = VR_ERROR" using assms(3) parse_ref_result [OF assms(2)] by (cases r) auto
  show thesis
  proof (rule process_polled [OF assms(1,2)])
    fix c1
    assume c1: "vr_parser_poll c packet_zero s = Some (r, c1, out, s1)" "conn_inv c1"
      "ring_contents (cn_read_buf c1) = rest" "cn_parser c1 = p'" "cn_write_buf c1 = cn_write_buf c"
      "proto_abs c1 = proto_abs c" "cn_net_conn c1 = cn_net_conn c" "cn_type c1 = cn_type c" "cn_slot c1 = cn_slot c"
      "conn_blocks c1 = conn_blocks c"
    have "process_packets_loop c s = Some (r = VR_ERROR, c1, s1)"
      using c1(1) r by (subst process_packets_loop.simps) auto
    moreover have "conn_frame c s [] [] c1 s1"
      using c1 poll_blocks [OF assms(2)] assms(3) heap_io_frame heap_frame_traffic by (auto simp: conn_frame_def)
    ultimately show thesis using that c1 by blast
  qed
qed

text \<open>Queueing the reply of a connection.\<close>

lemma reply_queued:
  assumes "conn_inv c"
  obtains ok c' s' pad where "reactor_enqueue_response (Some c) (Some (reply_packet x)) s = Some (ok, Some c', s')"
    "conn_inv c'" "heap_frame s s'" "blocks s' - conn_blocks c' = blocks s - 1 - conn_blocks c" "length pad = 4"
    "ring_contents (cn_write_buf c') = ring_contents (cn_write_buf c) @ (if ok then packet_bytes (reply_packet x) @ pad else [])"
    "\<exists>wb. c' = c\<lparr>cn_write_buf := wb\<rparr>"
    "unlimited s \<longrightarrow> (ok \<longleftrightarrow> length (ring_contents (cn_write_buf c)) + 12 \<le> 65536)"
proof -
  have wi: "ring_inv (cn_write_buf c)" using assms by (simp add: conn_inv_def)
  obtain ok c' s' where e: "reactor_enqueue_response (Some c) (Some (reply_packet x)) s = Some (ok, Some c', s')"
      "queued c (reply_packet x) s ok c' s'"
      "unlimited s \<longrightarrow> (ok \<longleftrightarrow> length (ring_contents (cn_write_buf c)) + 12 +
         unat (hdr_payload_len (pkt_header (reply_packet x))) \<le> 65536)"
    by (rule enqueue_spec [OF wi payload_ok_reply])
  obtain wb pad where q: "c' = c\<lparr>cn_write_buf := wb\<rparr>" "ring_inv wb" "heap_frame s s'"
      "blocks s' = blocks s - 1 + (of_bool (rb_data wb \<noteq> None) - of_bool (rb_data (cn_write_buf c) \<noteq> None))"
      "ring_contents wb = ring_contents (cn_write_buf c) @ (if ok then packet_bytes (reply_packet x) @ pad else [])"
      "length pad = 4"
    using e(2) by (auto simp: queued_def)
  have "conn_inv c'" "blocks s' - conn_blocks c' = blocks s - 1 - conn_blocks c"
    using assms q by (simp_all add: conn_inv_def conn_blocks_def)
  moreover have "hdr_payload_len (pkt_header (reply_packet x)) = 0" by (simp add: reply_packet_def split: prod.splits)
  ultimately show thesis using e(3) q(1,5,6) by (intro that [OF e(1) _ q(3), of pad]) auto
qed

text \<open>A packet: the protocol's step, and its reply queued or, when the ring cannot take it, dropped.\<close>

lemma process_packet:
  assumes "conn_inv c" "replies_ok s"
    and "parse_ref (cn_parser c) (ring_contents (cn_read_buf c)) packet_zero s = (VR_SUCCESS, p', rest, out, s1)"
    and "proto_spec (proto_abs c) (hdr_type (pkt_header out)) (hdr_stream_id (pkt_header out)) = (a', reply)"
  obtains (handled) c2 s2 where "process_packets_loop c s = process_packets_loop c2 s2" "conn_frame c s [] [] c2 s2"
      "ring_contents (cn_read_buf c2) = rest" "cn_parser c2 = p'" "proto_abs c2 = a'"
      "\<exists>pad. length pad = 4 \<and> ring_contents (cn_write_buf c2) = ring_contents (cn_write_buf c) @
         (case reply of None \<Rightarrow> [] | Some x \<Rightarrow> packet_bytes (reply_packet x) @ pad)"
  | (dropped) c2 s2 where "process_packets_loop c s = Some (False, c2, s2)" "conn_frame c s [] [] c2 s2"
      "ring_contents (cn_read_buf c2) = rest" "cn_parser c2 = p'" "proto_abs c2 = a'"
      "ring_contents (cn_write_buf c2) = ring_contents (cn_write_buf c)" "reply \<noteq> None"
      "unlimited s \<longrightarrow> 65536 < length (ring_contents (cn_write_buf c2)) + 12"
proof (rule process_polled [OF assms(1,3)])
  fix c1
  assume c1: "vr_parser_poll c packet_zero s = Some (VR_SUCCESS, c1, out, s1)" "conn_inv c1"
    "ring_contents (cn_read_buf c1) = rest" "cn_parser c1 = p'" "cn_write_buf c1 = cn_write_buf c"
    "proto_abs c1 = proto_abs c" "cn_net_conn c1 = cn_net_conn c" "cn_type c1 = cn_type c" "cn_slot c1 = cn_slot c"
    "conn_blocks c1 = conn_blocks c"
  have s1: "heap_frame s s1" "blocks s1 = blocks s + of_bool (pkt_payload out \<noteq> None)" "replies_ok s1"
    using poll_blocks [OF assms(3)] heap_frame_replies [OF _ assms(2)] by auto
  obtain c2 s2 where h: "vr_protocol_handle_packet (Some c1) (Some out) s1 = Some (map_option reply_packet reply, Some c2, s2)"
      "proto_abs c2 = a'" "bitmap_ok c2" "proto_frame c1 c2" "heap_frame s1 s2" "blocks s2 = blocks s1 + of_bool (reply \<noteq> None)"
    by (rule handle_refines [OF conn_inv_bitmap [OF c1(2)] s1(3), of out]) (use assms(4) c1(6) in auto)
  note f = proto_frame_fields [OF h(4)]
  let ?s3 = "c_free (pkt_payload out) s2"
  have inv2: "conn_inv c2" "conn_blocks c2 = conn_blocks c"
    using c1(2,10) h(3) f by (simp_all add: conn_inv_def bitmap_ok_def conn_blocks_def)
  have hf: "heap_frame s ?s3" using s1(1) h(5) by (meson heap_frame_free heap_frame_trans)
  have b3: "blocks ?s3 = blocks s + of_bool (reply \<noteq> None)" using s1(2) h(6) by (simp add: blocks_free)
  show thesis
  proof (cases reply)
    case None
    then have "process_packets_loop c s = process_packets_loop c2 ?s3"
      using c1(1) h(1) by (subst process_packets_loop.simps) simp
    moreover have "conn_frame c s [] [] c2 ?s3"
      using inv2 c1 f b3 None heap_io_frame [OF hf] heap_frame_traffic [OF hf] by (simp add: conn_frame_def)
    ultimately show thesis
      by (rule handled) (use c1 f h(2) None in \<open>auto intro: exI [of _ "[0, 0, 0, 0]"]\<close>)
  next
    case (Some x)
    obtain ok c3 s4 pad where e: "reactor_enqueue_response (Some c2) (Some (reply_packet x)) ?s3 = Some (ok, Some c3, s4)"
        "conn_inv c3" "heap_frame ?s3 s4" "blocks s4 - conn_blocks c3 = blocks ?s3 - 1 - conn_blocks c2" "length pad = 4"
        "ring_contents (cn_write_buf c3) = ring_contents (cn_write_buf c2) @ (if ok then packet_bytes (reply_packet x) @ pad else [])"
        "\<exists>wb. c3 = c2\<lparr>cn_write_buf := wb\<rparr>"
        "unlimited ?s3 \<longrightarrow> (ok \<longleftrightarrow> length (ring_contents (cn_write_buf c2)) + 12 \<le> 65536)"
      by (rule reply_queued [OF inv2(1)])
    obtain wb where q: "c3 = c2\<lparr>cn_write_buf := wb\<rparr>" using e(7) by blast
    have run: "process_packets_loop c s = (if ok then process_packets_loop c3 s4 else Some (False, c3, s4))"
      using c1(1) h(1) e(1) Some by (subst process_packets_loop.simps) simp
    note hf4 = heap_frame_trans [OF hf e(3)]
    have fr: "conn_frame c s [] [] c3 s4"
      using c1(7-9) f q e(2,4) inv2(2) b3 Some heap_io_frame [OF hf4] heap_frame_traffic [OF hf4] by (simp add: conn_frame_def)
    have c3: "ring_contents (cn_read_buf c3) = rest" "cn_parser c3 = p'" "proto_abs c3 = a'"
      using c1(3,4) f q h(2) by (simp_all add: proto_abs_def open_streams_def)
    show thesis
    proof (cases ok)
      case True
      then show thesis using run fr c3 e(5,6) f c1(5) Some by (intro handled [of c3 s4]) auto
    next
      case False
      then have "unlimited s \<longrightarrow> 65536 < length (ring_contents (cn_write_buf c3)) + 12"
        using e(6,8) heap_frame_unlimited [OF hf] by auto
      then show thesis using run fr c3 e(6) f c1(5) Some False by (intro dropped [of c3 s4]) auto
    qed
  qed
qed

section \<open>A whole run\<close>

text \<open>\<open>processed c violation c'\<close>: every packet in the read ring went through the protocol and its reply is
  queued, or a reply found no room in a ring of 65536 bytes: it is dropped and the packets after it wait in the
  read ring.\<close>

definition processed :: "vr_connection_t \<Rightarrow> bool \<Rightarrow> vr_connection_t \<Rightarrow> bool" where
  "processed c violation c' \<longleftrightarrow>
     (case parse_bytes (cn_parser c) (ring_contents (cn_read_buf c)) of (ps, r, p', rest) \<Rightarrow>
        (\<exists>reps wire. proto_run (proto_abs c) ps = (proto_abs c', reps) \<and> wire_of reps wire \<and>
           ring_contents (cn_write_buf c') = ring_contents (cn_write_buf c) @ wire \<and>
           violation = (r = VR_ERROR) \<and> cn_parser c' = p' \<and> ring_contents (cn_read_buf c') = rest) \<or>
        (\<exists>k reps last wire. k < length ps \<and> proto_run (proto_abs c) (take (Suc k) ps) = (proto_abs c', reps @ [last]) \<and>
           wire_of reps wire \<and> ring_contents (cn_write_buf c') = ring_contents (cn_write_buf c) @ wire \<and>
           \<not> violation \<and> 65536 < length (ring_contents (cn_write_buf c')) + 12 \<and>
           parse_bytes (cn_parser c') (ring_contents (cn_read_buf c')) = (drop (Suc k) ps, r, p', rest)))"

lemma processed_step:
  assumes "parse_bytes (cn_parser c) (ring_contents (cn_read_buf c)) = (out # qs, r, p', rest)"
    and "parse_bytes (cn_parser c2) (ring_contents (cn_read_buf c2)) = (qs, r, p', rest)"
    and "proto_spec (proto_abs c) (hdr_type (pkt_header out)) (hdr_stream_id (pkt_header out)) = (proto_abs c2, reply)"
    and "ring_contents (cn_write_buf c2) = ring_contents (cn_write_buf c) @
         (case reply of None \<Rightarrow> [] | Some x \<Rightarrow> packet_bytes (reply_packet x) @ pad)" "length pad = 4"
    and "processed c2 violation c'"
  shows "processed c violation c'"
proof -
  let ?more = "\<lambda>rs. case reply of None \<Rightarrow> rs | Some x \<Rightarrow> x # rs"
  let ?w = "case reply of None \<Rightarrow> [] | Some x \<Rightarrow> packet_bytes (reply_packet x) @ pad"
  have run: "proto_run (proto_abs c) (out # ps) = (a, ?more rs)" if "proto_run (proto_abs c2) ps = (a, rs)" for ps a rs
    using that assms(3) by simp
  have wire: "wire_of (?more rs) (?w @ ws)" if "wire_of rs ws" for rs ws
    using that assms(5) wire_of_Cons by (cases reply) auto
  from assms(6,2) consider
    (all) reps ws where "proto_run (proto_abs c2) qs = (proto_abs c', reps)" "wire_of reps ws"
        "ring_contents (cn_write_buf c') = ring_contents (cn_write_buf c2) @ ws" "violation = (r = VR_ERROR)"
        "cn_parser c' = p'" "ring_contents (cn_read_buf c') = rest"
  | (some) k reps last ws where "k < length qs" "proto_run (proto_abs c2) (take (Suc k) qs) = (proto_abs c', reps @ [last])"
        "wire_of reps ws" "ring_contents (cn_write_buf c') = ring_contents (cn_write_buf c2) @ ws" "\<not> violation"
        "65536 < length (ring_contents (cn_write_buf c')) + 12"
        "parse_bytes (cn_parser c') (ring_contents (cn_read_buf c')) = (drop (Suc k) qs, r, p', rest)"
    by (auto simp: processed_def)
  then show ?thesis
  proof cases
    case all
    then show ?thesis unfolding processed_def assms(1) using run [OF all(1)] wire [OF all(2)] assms(4) by auto
  next
    case some
    have "?more (reps @ [last]) = ?more reps @ [last]" by (cases reply) auto
    then have "proto_run (proto_abs c) (take (Suc (Suc k)) (out # qs)) = (proto_abs c', ?more reps @ [last])"
      using run [OF some(2)] by simp
    then have "\<exists>k reps last wire. k < length (out # qs) \<and>
        proto_run (proto_abs c) (take (Suc k) (out # qs)) = (proto_abs c', reps @ [last]) \<and>
        wire_of reps wire \<and> ring_contents (cn_write_buf c') = ring_contents (cn_write_buf c) @ wire \<and> \<not> violation \<and>
        65536 < length (ring_contents (cn_write_buf c')) + 12 \<and>
        parse_bytes (cn_parser c') (ring_contents (cn_read_buf c')) = (drop (Suc k) (out # qs), r, p', rest)"
      using some wire [OF some(3)] assms(4)
      by (intro exI [of _ "Suc k"] exI [of _ "?more reps"] exI [of _ last] exI [of _ "?w @ ws"]) simp
    then show ?thesis unfolding processed_def assms(1) by simp
  qed
qed

text \<open>The loop returns as long as the replies can be allocated; with memory for everything else too, it computes the
  reference.\<close>

lemma process_packets_spec:
  assumes "conn_inv c" "replies_ok s"
  shows "\<exists>violation c' s'. process_packets_loop c s = Some (violation, c', s') \<and> conn_frame c s [] [] c' s' \<and>
    (unlimited s \<longrightarrow> processed c violation c')"
  using assms
proof (induction "2 * length (ring_contents (cn_read_buf c)) + of_bool (ps_state (cn_parser c) = VR_PARSER_PAYLOAD_WAIT)"
    arbitrary: c s rule: less_induct)
  case less
  obtain r p' rest out s1 where e: "parse_ref (cn_parser c) (ring_contents (cn_read_buf c)) packet_zero s = (r, p', rest, out, s1)"
    by (metis prod_cases5)
  show ?case
  proof (cases "r = VR_SUCCESS")
    case False
    obtain c1 where c1: "process_packets_loop c s = Some (r = VR_ERROR, c1, s1)" "conn_frame c s [] [] c1 s1"
        "ring_contents (cn_read_buf c1) = rest" "cn_parser c1 = p'" "cn_write_buf c1 = cn_write_buf c"
        "proto_abs c1 = proto_abs c"
      by (rule process_end [OF less.prems(1) e False])
    have "processed c (r = VR_ERROR) c1" if "unlimited s"
      using parse_bytes_step(2) [OF that e False] c1 by (auto simp: processed_def)
    then show ?thesis using c1(1,2) by blast
  next
    case True
    obtain a' reply where a': "proto_spec (proto_abs c) (hdr_type (pkt_header out)) (hdr_stream_id (pkt_header out)) = (a', reply)"
      by fastforce
    note e' = e [unfolded True]
    obtain qs r2 p2 rest2 where qs: "parse_bytes p' rest = (qs, r2, p2, rest2)" by (metis prod_cases4)
    have ps: "parse_bytes (cn_parser c) (ring_contents (cn_read_buf c)) = (out # qs, r2, p2, rest2)" if "unlimited s"
      using parse_bytes_step(1) [OF that e True] qs by simp
    show ?thesis
    proof (cases rule: process_packet [OF less.prems e' a'])
      case (1 c2 s2)
      have sh: "2 * length (ring_contents (cn_read_buf c2)) + of_bool (ps_state (cn_parser c2) = VR_PARSER_PAYLOAD_WAIT)
          < 2 * length (ring_contents (cn_read_buf c)) + of_bool (ps_state (cn_parser c) = VR_PARSER_PAYLOAD_WAIT)"
        using parse_ref_progress [OF e'] 1(3,4) by simp
      have inv: "conn_inv c2" "replies_ok s2" "unlimited s \<longrightarrow> unlimited s2"
        using 1(2) io_frame_replies io_frame_unlimited less.prems(2) by (auto simp: conn_frame_def)
      from less.hyps [OF sh inv(1,2)] obtain violation c' s' where
        ih: "process_packets_loop c2 s2 = Some (violation, c', s')" "conn_frame c2 s2 [] [] c' s'"
          "unlimited s2 \<longrightarrow> processed c2 violation c'" by blast
      obtain pad where pad: "length pad = 4" "ring_contents (cn_write_buf c2) = ring_contents (cn_write_buf c) @
         (case reply of None \<Rightarrow> [] | Some x \<Rightarrow> packet_bytes (reply_packet x) @ pad)" using 1(6) by blast
      have "processed c violation c'" if u: "unlimited s"
      proof -
        have "processed c2 violation c'" using ih(3) inv(3) u by blast
        then show ?thesis using processed_step [OF ps [OF u], of c2 reply pad violation c'] qs a' 1(3-5) pad by simp
      qed
      then show ?thesis using 1(1) ih(1) conn_frame_trans [OF 1(2) ih(2)] by auto
    next
      case (2 c2 s2)
      then obtain x where x: "reply = Some x" by blast
      have "processed c False c2" if u: "unlimited s"
        unfolding processed_def ps [OF u] using a' x 2 u qs by (auto intro!: exI [of _ 0])
      then show ?thesis using 2 by auto
    qed
  qed
qed

end
