(* ===== verification/Velora_Conversation_Spec.thy ===== *)
theory Velora_Conversation_Spec
  imports Velora_Pipeline_Spec "HOL-Library.Sublist"
begin

text \<open>
  A connection over its whole life: whatever the cuts between reads and between writes, its state and the bytes it has
  sent are those of the reference parser and the abstract protocol on the bytes it has received.
\<close>

section \<open>Parsing more bytes\<close>

lemma parse_run_memory:
  assumes "unlimited s" "parse_run p bs s = (ps, r, p', rest, s')"
  shows "unlimited s' \<and> (r = VR_EMPTY \<or> r = VR_ERROR)"
  using assms
proof (induction p bs s arbitrary: ps rule: parse_run.induct)
  case (1 p bs s)
  obtain r1 p1 rest1 out s1 where e: "parse_ref p bs packet_zero s = (r1, p1, rest1, out, s1)"
    by (metis prod_cases5)
  have s1: "unlimited s1" by (rule parse_ref_unlimited(1) [OF 1(2) e])
  show ?case
  proof (cases "r1 = VR_SUCCESS")
    case True
    obtain qs where "parse_run p1 rest1 s1 = (qs, r, p', rest, s')"
      using 1(3) e True by (subst (asm) parse_run.simps) (auto split: prod.splits)
    then show ?thesis using 1(1) [OF e [symmetric] refl refl refl True s1] by blast
  next
    case False
    then have "r = r1" "s' = s1" using 1(3) e by (subst (asm) parse_run.simps, simp)+
    then show ?thesis using False s1 parse_ref_result [OF e] by (cases r) auto
  qed
qed

lemma parse_run_append_error:
  assumes "parse_run p xs s = (ps, r, p', rest, s')" "r \<noteq> VR_EMPTY"
  shows "parse_run p (xs @ ys) s = (ps, r, p', rest @ ys, s')"
  using assms
proof (induction p xs s arbitrary: ps rule: parse_run.induct)
  case (1 p xs s)
  obtain r1 p1 rest1 out s1 where e: "parse_ref p xs packet_zero s = (r1, p1, rest1, out, s1)"
    by (metis prod_cases5)
  show ?case
  proof (cases "r1 = VR_SUCCESS")
    case True
    obtain qs where qs: "ps = out # qs" "parse_run p1 rest1 s1 = (qs, r, p', rest, s')"
      using 1(2) e True by (subst (asm) parse_run.simps) (auto split: prod.splits)
    have "parse_run p1 (rest1 @ ys) s1 = (qs, r, p', rest @ ys, s')"
      using 1(1) [OF e [symmetric] refl refl refl True qs(2) 1(3)] .
    then show ?thesis using parse_ref_append [OF e, of ys] True qs(1) by (subst parse_run.simps) simp
  next
    case False
    then have "ps = []" "r1 = r" "p1 = p'" "rest1 = rest" "s1 = s'"
      using 1(2) e by (subst (asm) parse_run.simps, simp)+
    then show ?thesis using parse_ref_append [OF e, of ys] 1(3) False by (subst parse_run.simps) simp
  qed
qed

lemma parse_bytes_append:
  assumes "parse_bytes p bs = (ps, r, p', rest)"
  shows "parse_bytes p (bs @ ys) =
    (if r = VR_EMPTY then case parse_bytes p' (rest @ ys) of (qs, x) \<Rightarrow> (ps @ qs, x) else (ps, r, p', rest @ ys))"
proof -
  obtain s' where e: "parse_run p bs (sys_with 0) = (ps, r, p', rest, s')"
    using assms by (auto simp: parse_bytes_def split: prod.splits)
  show ?thesis
  proof (cases "r = VR_EMPTY")
    case False
    then show ?thesis using parse_run_append_error [OF e False, of ys] by (simp add: parse_bytes_def)
  next
    case True
    obtain qs r2 p2 rest2 t where f: "parse_run p' (rest @ ys) s' = (qs, r2, p2, rest2, t)" by (metis prod_cases5)
    have "unlimited s'" using parse_run_memory [OF unlimited_sys_with(1) e] by blast
    then obtain t' where "parse_run p' (rest @ ys) (sys_with 0) = (qs, r2, p2, rest2, t')"
      using parse_run_unlimited [OF _ unlimited_sys_with(1) f] by blast
    then show ?thesis using True f parse_run_append [OF e [unfolded True], of ys] by (simp add: parse_bytes_def)
  qed
qed

lemma parse_bytes_rest:
  assumes "parse_bytes p bs = (ps, r, p', rest)" "r \<noteq> VR_ERROR"
  shows "parse_bytes p' rest = ([], r, p', rest)"
proof -
  obtain s' where e: "parse_run p bs (sys_with 0) = (ps, r, p', rest, s')"
    using assms(1) by (auto simp: parse_bytes_def split: prod.splits)
  then have r: "r = VR_EMPTY" using parse_run_memory [OF unlimited_sys_with(1) e] assms(2) by blast
  have "(ps, r, p', rest) = (case parse_bytes p' rest of (qs, x) \<Rightarrow> (ps @ qs, x))"
    using parse_bytes_append [OF assms(1), of "[]"] assms(1) r by simp
  then show ?thesis by (cases "parse_bytes p' rest") auto
qed

text \<open>Two parsers that are in step stay in step when both are given more bytes.\<close>

lemma parse_bytes_in_step:
  assumes "parse_bytes p bs = (ps @ qs, r, p', rest)" "parse_bytes p1 bs1 = (qs, r, p', rest)"
  obtains qs' r' p2 rest' where "parse_bytes p (bs @ ys) = (ps @ qs', r', p2, rest')"
    "parse_bytes p1 (bs1 @ ys) = (qs', r', p2, rest')"
proof (cases "parse_bytes p' (rest @ ys)")
  case (fields ps2 r2 p2 rest2)
  then show thesis
    using parse_bytes_append [OF assms(1), of ys] parse_bytes_append [OF assms(2), of ys]
    by (intro that [of "if r = VR_EMPTY then qs @ ps2 else qs" "if r = VR_EMPTY then r2 else r"
          "if r = VR_EMPTY then p2 else p'" "if r = VR_EMPTY then rest2 else rest @ ys"]) auto
qed

section \<open>The reference of a conversation\<close>

text \<open>\<open>transduced c R S\<close>: a connection that has received \<open>R\<close> and sent \<open>S\<close>. Of the packets of \<open>R\<close> a first part went
  through the protocol and the others wait in the read ring; the bytes sent and the bytes in the write ring are the
  replies in order, all of them as long as they amount to 65536 bytes at most.\<close>

definition transduced :: "vr_connection_t \<Rightarrow> bytes \<Rightarrow> bytes \<Rightarrow> bool" where
  "transduced c R S \<longleftrightarrow> (\<exists>ps qs r p' rest reps queued.
     parse_bytes parser_zero R = (ps @ qs, r, p', rest) \<and>
     parse_bytes (cn_parser c) (ring_contents (cn_read_buf c)) = (qs, r, p', rest) \<and>
     proto_run (VR_PROTO_INIT, {}, 0) ps = (proto_abs c, reps) \<and>
     subseq queued reps \<and> (queued = reps \<or> 65536 < 12 * length reps) \<and>
     wire_of queued (S @ ring_contents (cn_write_buf c)))"

lemma parse_nothing: "parse_bytes parser_zero [] = ([], VR_EMPTY, parser_zero, [])"
  by (simp add: parse_bytes_def parse_run.simps parse_ref_def parser_zero_def)

lemma transduced_new:
  assumes "cn_parser c = parser_zero" "cn_read_buf c = ring_zero" "cn_write_buf c = ring_zero"
    "proto_abs c = (VR_PROTO_INIT, {}, 0)"
  shows "transduced c [] []"
  unfolding transduced_def using assms parse_nothing by simp

lemma wire_of_append: "wire_of rs ws \<Longrightarrow> wire_of rs' ws' \<Longrightarrow> wire_of (rs @ rs') (ws @ ws')"
  by (induction rs ws rule: wire_of.induct) (auto simp: wire_of_length)

lemma transduced_reads:
  assumes "transduced c R S" "ring_contents rb = ring_contents (cn_read_buf c) @ xs"
  shows "transduced (c\<lparr>cn_read_buf := rb\<rparr>) (R @ xs) S"
proof -
  obtain ps qs r p' rest reps queued where t: "parse_bytes parser_zero R = (ps @ qs, r, p', rest)"
      "parse_bytes (cn_parser c) (ring_contents (cn_read_buf c)) = (qs, r, p', rest)"
      "proto_run (VR_PROTO_INIT, {}, 0) ps = (proto_abs c, reps)"
      "subseq queued reps" "queued = reps \<or> 65536 < 12 * length reps" "wire_of queued (S @ ring_contents (cn_write_buf c))"
    using assms(1) unfolding transduced_def by blast
  obtain qs' r' p2 rest' where "parse_bytes parser_zero (R @ xs) = (ps @ qs', r', p2, rest')"
      "parse_bytes (cn_parser c) (ring_contents (cn_read_buf c) @ xs) = (qs', r', p2, rest')"
    by (rule parse_bytes_in_step [OF t(1,2)])
  moreover have "proto_abs (c\<lparr>cn_read_buf := rb\<rparr>) = proto_abs c" by (simp add: proto_abs_def open_streams_def)
  ultimately show ?thesis unfolding transduced_def using t(3-6) assms(2)
    by (intro exI [of _ ps] exI [of _ qs'] exI [of _ r'] exI [of _ p2] exI [of _ rest'] exI [of _ reps] exI [of _ queued]) simp
qed

lemma transduced_writes:
  assumes "transduced c R S" "ring_contents (cn_write_buf c) = ys @ ring_contents wb"
  shows "transduced (c\<lparr>cn_write_buf := wb\<rparr>) R (S @ ys)"
proof -
  have "proto_abs (c\<lparr>cn_write_buf := wb\<rparr>) = proto_abs c" by (simp add: proto_abs_def open_streams_def)
  then show ?thesis using assms unfolding transduced_def by simp
qed

lemma transduced_processed:
  assumes "transduced c R S" "processed c False c'"
  shows "transduced c' R S"
proof -
  obtain ps qs r p' rest reps queued where t: "parse_bytes parser_zero R = (ps @ qs, r, p', rest)"
      "parse_bytes (cn_parser c) (ring_contents (cn_read_buf c)) = (qs, r, p', rest)"
      "proto_run (VR_PROTO_INIT, {}, 0) ps = (proto_abs c, reps)"
      "subseq queued reps" "queued = reps \<or> 65536 < 12 * length reps" "wire_of queued (S @ ring_contents (cn_write_buf c))"
    using assms(1) unfolding transduced_def by blast
  have run: "proto_run (VR_PROTO_INIT, {}, 0) (ps @ ps') = (a, reps @ rs)" if "proto_run (proto_abs c) ps' = (a, rs)" for ps' a rs
    using that t(3) by (simp add: proto_run_append)
  have wire: "wire_of (queued @ rs) (S @ ring_contents (cn_write_buf c'))"
    if "wire_of rs ws" "ring_contents (cn_write_buf c') = ring_contents (cn_write_buf c) @ ws" for rs ws
    using wire_of_append [OF t(6) that(1)] that(2) by simp
  from assms(2) t(2) consider
    (all) rs ws where "proto_run (proto_abs c) qs = (proto_abs c', rs)" "wire_of rs ws"
        "ring_contents (cn_write_buf c') = ring_contents (cn_write_buf c) @ ws" "r \<noteq> VR_ERROR"
        "cn_parser c' = p'" "ring_contents (cn_read_buf c') = rest"
  | (some) k rs x ws where "proto_run (proto_abs c) (take (Suc k) qs) = (proto_abs c', rs @ [x])"
        "wire_of rs ws" "ring_contents (cn_write_buf c') = ring_contents (cn_write_buf c) @ ws"
        "65536 < length (ring_contents (cn_write_buf c')) + 12"
        "parse_bytes (cn_parser c') (ring_contents (cn_read_buf c')) = (drop (Suc k) qs, r, p', rest)"
    by (auto simp: processed_def)
  then show ?thesis
  proof cases
    case all
    have "subseq (queued @ rs) (reps @ rs)" "queued @ rs = reps @ rs \<or> 65536 < 12 * length (reps @ rs)"
      using t(4,5) by auto
    then show ?thesis unfolding transduced_def
      using t(1) run [OF all(1)] wire [OF all(2,3)] parse_bytes_rest [OF t(2) all(4)] all(5,6)
      by (intro exI [of _ "ps @ qs"] exI [of _ "[]"] exI [of _ r] exI [of _ p'] exI [of _ rest]
          exI [of _ "reps @ rs"] exI [of _ "queued @ rs"]) simp
  next
    case some
    have sub: "subseq (queued @ rs) (reps @ rs @ [x])" using t(4) by (intro list_emb_append_mono) auto
    have "length queued \<le> length reps" using t(4) by (rule list_emb_length)
    then have "65536 < 12 * length (reps @ rs @ [x])"
      using some(4) wire_of_length [OF wire [OF some(2,3)]] by simp
    then show ?thesis unfolding transduced_def
      using t(1) run [OF some(1)] wire [OF some(2,3)] some(5) sub
      by (intro exI [of _ "ps @ take (Suc k) qs"] exI [of _ "drop (Suc k) qs"] exI [of _ r] exI [of _ p']
          exI [of _ rest] exI [of _ "reps @ rs @ [x]"] exI [of _ "queued @ rs"]) simp
  qed
qed

text \<open>Slots do not matter.\<close>

lemma transduced_core: "conn_core c' = conn_core c \<Longrightarrow> transduced c R S \<Longrightarrow> transduced c' R S"
  by (cases c; cases c') (simp add: conn_core_def transduced_def proto_abs_def open_streams_def)

section \<open>A conversation on a descriptor\<close>

text \<open>\<open>conversation ins outs s c\<close>: what the descriptor of \<open>c\<close> has carried since it had carried \<open>ins\<close> and \<open>outs\<close> (the traffic
  of earlier connections with the same number).\<close>

definition conversation :: "bytes \<Rightarrow> bytes \<Rightarrow> sys \<Rightarrow> vr_connection_t \<Rightarrow> bool" where
  "conversation ins outs s c \<longleftrightarrow> (\<exists>R S. bytes_on (nc_fd (cn_net_conn c)) (rcvd s) = ins @ R \<and>
     bytes_on (nc_fd (cn_net_conn c)) (sent s) = outs @ S \<and> transduced c R S)"

lemma conversation_traffic:
  assumes "conversation ins outs s c" "traffic (nc_fd (cn_net_conn c)) s xs ys s'" "cn_net_conn c' = cn_net_conn c"
    and "\<And>R S. transduced c R S \<Longrightarrow> transduced c' (R @ xs) (S @ ys)"
  shows "conversation ins outs s' c'"
proof -
  obtain R S where "bytes_on (nc_fd (cn_net_conn c)) (rcvd s) = ins @ R" "bytes_on (nc_fd (cn_net_conn c)) (sent s) = outs @ S"
    and t: "transduced c R S" using assms(1) by (auto simp: conversation_def)
  then have "bytes_on (nc_fd (cn_net_conn c')) (rcvd s') = ins @ (R @ xs)" "bytes_on (nc_fd (cn_net_conn c')) (sent s') = outs @ (S @ ys)"
    using assms(2,3) by (simp_all add: traffic_def)
  then show ?thesis using assms(4) [OF t] unfolding conversation_def by blast
qed

end
