(* ===== verification/Velora_World_Spec.thy ===== *)
theory Velora_World_Spec
  imports Velora_Conversation_Spec
begin

text \<open>
  The invariant of the running server, across the manager, the heap of connections, the epoll interest list
  and the allocator, and the client side of the event loop: every handler keeps it, so no event ever reaches a
  freed connection and no heap block is lost.
\<close>

section \<open>The invariant\<close>

abbreviation conn_fd :: "vr_connection_t \<Rightarrow> int" where
  "conn_fd c \<equiv> nc_fd (cn_net_conn c)"

text \<open>A client is registered with \<open>epoll\<close> under its own address.\<close>

definition client_ok :: "sys \<Rightarrow> conn_ptr \<Rightarrow> vr_connection_t \<Rightarrow> bool" where
  "client_ok s p c \<longleftrightarrow> conn_inv c \<and> cn_type c = VR_CONN_CLIENT \<and> 0 \<le> conn_fd c \<and> conn_fd c < 2 ^ 31 \<and>
     (\<exists>ev. interest s (conn_fd c) = Some (p, ev))"

text \<open>\<open>interest_ok h s\<close>: the interest list names live connections only, under their own descriptors.\<close>

definition interest_ok :: "conn_heap \<Rightarrow> sys \<Rightarrow> bool" where
  "interest_ok h s \<longleftrightarrow> (\<forall>fd p ev. interest s fd = Some (p, ev) \<longrightarrow> (\<exists>c. h p = Some c \<and> conn_fd c = fd))"

text \<open>\<open>world_inv lp base w\<close>: \<open>lp\<close> is the listener, \<open>base\<close> the number of blocks that are not part of a
  connection.\<close>

definition world_inv :: "conn_ptr \<Rightarrow> int \<Rightarrow> world \<Rightarrow> bool" where
  "world_inv lp base w \<longleftrightarrow> mgr_inv (w_mgr w) (w_heap w) \<and> unat (mgr_capacity (w_mgr w)) \<le> 2 ^ 32 \<and>
     dom (w_heap w) = insert lp (set (managed (w_mgr w))) \<and> lp \<notin> set (managed (w_mgr w)) \<and> w_heap w 0 = None \<and>
     (\<exists>lc. w_heap w lp = Some lc \<and> cn_type lc = VR_CONN_LISTENER \<and> conn_blocks lc = 1) \<and>
     (\<forall>p\<in>set (managed (w_mgr w)). \<exists>c. w_heap w p = Some c \<and> client_ok (w_sys w) p c) \<and>
     interest_ok (w_heap w) (w_sys w) \<and> blocks (w_sys w) = base + heap_blocks (w_heap w) \<and> replies_ok (w_sys w)"

lemma world_invD:
  assumes "world_inv lp base w"
  shows "mgr_inv (w_mgr w) (w_heap w)" "unat (mgr_capacity (w_mgr w)) \<le> 2 ^ 32"
    "dom (w_heap w) = insert lp (set (managed (w_mgr w)))" "lp \<notin> set (managed (w_mgr w))" "w_heap w 0 = None"
    "\<exists>lc. w_heap w lp = Some lc \<and> cn_type lc = VR_CONN_LISTENER \<and> conn_blocks lc = 1"
    "interest_ok (w_heap w) (w_sys w)" "blocks (w_sys w) = base + heap_blocks (w_heap w)" "replies_ok (w_sys w)"
    "finite (dom (w_heap w))"
  using assms by (auto simp: world_inv_def)

lemma world_inv_client:
  assumes "world_inv lp base w" "p \<in> set (managed (w_mgr w))"
  obtains c where "w_heap w p = Some c" "client_ok (w_sys w) p c" "p \<noteq> 0" "p \<noteq> lp"
  using assms by (fastforce simp: world_inv_def)

text \<open>Distinct clients have distinct descriptors, which bounds their number.\<close>

lemma card_bounded_int:
  assumes "inj_on f P" "\<And>p. p \<in> P \<Longrightarrow> 0 \<le> f p \<and> f p < (N :: int)"
  shows "card P \<le> nat N"
proof -
  have "card P = card (f ` P)" using assms(1) by (simp add: card_image)
  also have "\<dots> \<le> card {0 ..< N}" using assms(2) by (intro card_mono) auto
  finally show ?thesis by simp
qed

lemma managed_bound:
  assumes "world_inv lp base w"
  shows "unat (mgr_count (w_mgr w)) \<le> 2 ^ 31"
proof -
  let ?P = "set (managed (w_mgr w))" and ?fd = "\<lambda>p. conn_fd (the (w_heap w p))"
  have ok: "0 \<le> ?fd p \<and> ?fd p < 2 ^ 31" "\<exists>ev. interest (w_sys w) (?fd p) = Some (p, ev)" if p: "p \<in> ?P" for p
    by (rule world_inv_client [OF assms p], simp add: client_ok_def)+
  have inj: "inj_on ?fd ?P"
  proof (rule inj_onI)
    fix p q
    assume pq: "p \<in> ?P" "q \<in> ?P" "?fd p = ?fd q"
    obtain a b where ab: "interest (w_sys w) (?fd p) = Some (p, a)" "interest (w_sys w) (?fd q) = Some (q, b)"
      using ok(2) [OF pq(1)] ok(2) [OF pq(2)] by blast
    have "Some (p, a) = Some (q, b)" by (rule trans [OF ab(1) [symmetric, unfolded pq(3)] ab(2)])
    then show "p = q" by simp
  qed
  have "card ?P \<le> nat (2 ^ 31)" by (rule card_bounded_int [of ?fd ?P "2 ^ 31", OF inj ok(1)])
  moreover have "nat (2 ^ 31) = (2 ^ 31 :: nat)" by (simp add: nat_power_eq)
  moreover have "card ?P = length (managed (w_mgr w))"
    using world_invD(1) [OF assms] by (simp add: mgr_inv_def distinct_card)
  ultimately show ?thesis unfolding length_managed [OF world_invD(1) [OF assms]] by argo
qed

section \<open>Steps of the event loop\<close>

text \<open>What belongs to one connection: its data but for the slot, and for a client its registration and the traffic on its
  descriptor.\<close>

definition view :: "world \<Rightarrow> conn_ptr \<Rightarrow> (vr_connection_t \<times> (nat \<times> uint32) option \<times> bytes \<times> bytes) option" where
  "view w q = map_option (\<lambda>c. (conn_core c,
     if cn_type c = VR_CONN_CLIENT
     then (interest (w_sys w) (conn_fd c), bytes_on (conn_fd c) (rcvd (w_sys w)), bytes_on (conn_fd c) (sent (w_sys w)))
     else (None, [], []))) (w_heap w q)"

lemma view_None [simp]: "view w q = None \<longleftrightarrow> w_heap w q = None"
  by (simp add: view_def)

lemma view_same:
  assumes "w_heap w q = Some d" "w_heap w' q = Some d'" "conn_core d' = conn_core d"
    and "cn_type d = VR_CONN_CLIENT \<Longrightarrow> interest (w_sys w') (conn_fd d) = interest (w_sys w) (conn_fd d) \<and>
      bytes_on (conn_fd d) (rcvd (w_sys w')) = bytes_on (conn_fd d) (rcvd (w_sys w)) \<and>
      bytes_on (conn_fd d) (sent (w_sys w')) = bytes_on (conn_fd d) (sent (w_sys w))"
  shows "view w' q = view w q"
  using assms conn_core_fields(1,2) [OF assms(3)] by (simp add: view_def)

text \<open>\<open>talking ins outs w p\<close>: if \<open>p\<close> is a client, its state and output are explained by its input.\<close>

definition talking :: "bytes \<Rightarrow> bytes \<Rightarrow> world \<Rightarrow> conn_ptr \<Rightarrow> bool" where
  "talking ins outs w p \<longleftrightarrow>
     (\<forall>c. w_heap w p = Some c \<longrightarrow> cn_type c = VR_CONN_CLIENT \<longrightarrow> conversation ins outs (w_sys w) c)"

lemma talking_gone: "w_heap w p = None \<Longrightarrow> talking ins outs w p"
  by (simp add: talking_def)

lemma talking_view:
  assumes "view w' q = view w q" "talking ins outs w q"
  shows "talking ins outs w' q"
proof (cases "w_heap w' q")
  case (Some d')
  then obtain d where d: "w_heap w q = Some d" "conn_core d' = conn_core d"
    using assms(1) by (cases "w_heap w q") (auto simp: view_def)
  note f = conn_core_fields(1,2) [OF d(2)]
  have "conversation ins outs (w_sys w') d'" if "cn_type d = VR_CONN_CLIENT"
    using assms d f that Some transduced_core [OF d(2)]
    by (auto simp: talking_def conversation_def view_def)
  then show ?thesis using Some f by (simp add: talking_def)
qed (rule talking_gone)

text \<open>\<open>stepped lp base p w w'\<close>: the invariant holds after the step, of the connections only \<open>p\<close> may have changed or be
  gone, and new ones have just begun to talk.\<close>

definition stepped :: "conn_ptr \<Rightarrow> int \<Rightarrow> conn_ptr \<Rightarrow> world \<Rightarrow> world \<Rightarrow> bool" where
  "stepped lp base p w w' \<longleftrightarrow> world_inv lp base w' \<and> w_reactor w' = w_reactor w \<and> w_status w' = w_status w \<and>
     waits (w_sys w') = waits (w_sys w) \<and> (unlimited (w_sys w) \<longrightarrow> unlimited (w_sys w')) \<and>
     (\<forall>q. q \<noteq> p \<longrightarrow> (if w_heap w q = None then \<exists>ins outs. talking ins outs w' q else view w' q = view w q))"

lemma steppedD:
  assumes "stepped lp base p w w'"
  shows "world_inv lp base w'" "w_reactor w' = w_reactor w" "w_status w' = w_status w" "waits (w_sys w') = waits (w_sys w)"
    "unlimited (w_sys w) \<Longrightarrow> unlimited (w_sys w')" "q \<noteq> p \<Longrightarrow> w_heap w q \<noteq> None \<Longrightarrow> view w' q = view w q"
    "q \<noteq> p \<Longrightarrow> w_heap w q = None \<Longrightarrow> \<exists>ins outs. talking ins outs w' q"
  using assms unfolding stepped_def by presburger+

lemma steppedI:
  assumes "world_inv lp base w'" "w_reactor w' = w_reactor w" "w_status w' = w_status w"
    "waits (w_sys w') = waits (w_sys w)" "unlimited (w_sys w) \<Longrightarrow> unlimited (w_sys w')"
    "\<And>q d. q \<noteq> p \<Longrightarrow> w_heap w q = Some d \<Longrightarrow> view w' q = view w q"
    "\<And>q. q \<noteq> p \<Longrightarrow> w_heap w q = None \<Longrightarrow> \<exists>ins outs. talking ins outs w' q"
  shows "stepped lp base p w w'"
proof -
  have "if w_heap w q = None then \<exists>ins outs. talking ins outs w' q else view w' q = view w q" if "q \<noteq> p" for q
    using assms(6,7) [OF that] by (cases "w_heap w q") simp_all
  then show ?thesis using assms(1-5) unfolding stepped_def by blast
qed

lemma stepped_live:
  assumes "stepped lp base p w w'" "q \<noteq> p" "w_heap w q \<noteq> None"
  shows "w_heap w' q \<noteq> None"
proof -
  have "view w' q \<noteq> None" using steppedD(6) [OF assms] assms(3) by (simp del: not_None_eq)
  then show ?thesis by (simp del: not_None_eq)
qed

lemma stepped_dom: "stepped lp base p w w' \<Longrightarrow> dom (w_heap w) - {p} \<subseteq> dom (w_heap w')"
  using stepped_live by (simp add: subset_iff domIff del: not_None_eq)

lemma stepped_refl: "world_inv lp base w \<Longrightarrow> stepped lp base p w w"
  by (rule steppedI) (auto simp: talking_gone)

lemma stepped_trans:
  assumes "stepped lp base p w w1" "stepped lp base p w1 w2"
  shows "stepped lp base p w w2"
proof (rule steppedI)
  fix q d
  assume q: "q \<noteq> p" "w_heap w q = Some d"
  then have v: "view w1 q = view w q" using steppedD(6) [OF assms(1)] by simp
  have "w_heap w1 q \<noteq> None" by (rule stepped_live [OF assms(1) q(1)]) (simp add: q(2))
  then show "view w2 q = view w q" using steppedD(6) [OF assms(2) q(1)] v by simp
next
  fix q
  assume q: "q \<noteq> p" "w_heap w q = None"
  then obtain ins outs where t: "talking ins outs w1 q" using steppedD(7) [OF assms(1)] by blast
  show "\<exists>ins outs. talking ins outs w2 q"
  proof (cases "w_heap w1 q = None")
    case True
    then show ?thesis using steppedD(7) [OF assms(2) q(1)] by blast
  next
    case False
    from talking_view [OF steppedD(6) [OF assms(2) q(1) False] t] show ?thesis by blast
  qed
qed (use steppedD(1-5) [OF assms(1)] steppedD(1-5) [OF assms(2)] in auto)

text \<open>\<open>talks p w w'\<close>: a conversation of \<open>p\<close> goes on.\<close>

definition talks :: "conn_ptr \<Rightarrow> world \<Rightarrow> world \<Rightarrow> bool" where
  "talks p w w' \<longleftrightarrow> (unlimited (w_sys w) \<longrightarrow> (\<forall>ins outs. talking ins outs w p \<longrightarrow> talking ins outs w' p))"

lemma talks_refl [simp]: "talks p w w"
  by (simp add: talks_def)

lemma talks_gone: "w_heap w' p = None \<Longrightarrow> talks p w w'"
  by (simp add: talks_def talking_gone)

lemma talks_trans: "stepped lp base p w w1 \<Longrightarrow> talks p w w1 \<Longrightarrow> talks p w1 w2 \<Longrightarrow> talks p w w2"
  using steppedD(5) [of lp base p w w1] by (simp add: talks_def)

text \<open>Working on one client's data.\<close>

lemma other_fd:
  assumes "world_inv lp base w" "p \<in> set (managed (w_mgr w))" "w_heap w p = Some c"
    and "q \<noteq> p" "w_heap w q = Some d" "cn_type d = VR_CONN_CLIENT"
  shows "conn_fd d \<noteq> conn_fd c"
proof -
  have "q \<noteq> lp" using world_invD(6) [OF assms(1)] assms(5,6) by auto
  then have q: "q \<in> set (managed (w_mgr w))" using world_invD(3) [OF assms(1)] assms(5) by auto
  have "client_ok (w_sys w) p c" by (rule world_inv_client [OF assms(1,2)]) (use assms(3) in simp)
  moreover have "client_ok (w_sys w) q d" by (rule world_inv_client [OF assms(1) q]) (use assms(5) in simp)
  ultimately show ?thesis using assms(4) by (auto simp: client_ok_def)
qed

lemma world_update:
  assumes "world_inv lp base w" "p \<in> set (managed (w_mgr w))" "w_heap w p = Some c"
    and "conn_frame c (w_sys w) xs ys c' s'"
  shows "stepped lp base p w (w\<lparr>w_heap := (w_heap w)(p \<mapsto> c'), w_sys := s'\<rparr>)"
proof -
  let ?h = "w_heap w" and ?h' = "(w_heap w)(p \<mapsto> c')" and ?s = "w_sys w"
  have c': "conn_inv c'" "cn_net_conn c' = cn_net_conn c" "cn_type c' = cn_type c" "cn_slot c' = cn_slot c"
      "interest s' = interest ?s" "waits s' = waits ?s" "io_frame ?s s'"
      "blocks s' - conn_blocks c' = blocks ?s - conn_blocks c" "traffic (conn_fd c) ?s xs ys s'"
    using assms(4) by (auto simp: conn_frame_def io_frame_def)
  have "mgr_inv (w_mgr w) ?h'"
    by (rule mgr_inv_update [OF world_invD(1) [OF assms(1)]]) (use assms(3) c'(4) in auto)
  moreover have "interest_ok ?h' s'"
    using world_invD(7) [OF assms(1)] assms(3) c'(2,5) by (fastforce simp: interest_ok_def)
  moreover have "\<exists>d. ?h' q = Some d \<and> client_ok s' q d" if q: "q \<in> set (managed (w_mgr w))" for q
    by (rule world_inv_client [OF assms(1) q]) (use assms(3) c' in \<open>auto simp: client_ok_def\<close>)
  moreover have "p \<noteq> 0" by (rule world_inv_client [OF assms(1,2)])
  ultimately have inv: "world_inv lp base (w\<lparr>w_heap := ?h', w_sys := s'\<rparr>)"
    using assms(1,2) heap_blocks_update [OF world_invD(10) [OF assms(1)] assms(3), of c'] c'(8)
      io_frame_replies [OF c'(7)]
    by (auto simp: world_inv_def)
  have "view (w\<lparr>w_heap := ?h', w_sys := s'\<rparr>) q = view w q" if "q \<noteq> p" "?h q = Some d" for q d
    by (rule view_same [of _ _ d _ d]) (use that c'(5,9) other_fd [OF assms(1-3) that] in \<open>simp_all add: traffic_def\<close>)
  then show ?thesis using inv c'(6) io_frame_unlimited [OF c'(7)] by (intro steppedI) (simp_all add: talking_gone)
qed

lemma talks_update:
  assumes "w_heap w p = Some c" "conn_frame c (w_sys w) xs ys c' s'"
    and "\<And>R S. unlimited (w_sys w) \<Longrightarrow> transduced c R S \<Longrightarrow> transduced c' (R @ xs) (S @ ys)"
  shows "talks p w (w\<lparr>w_heap := (w_heap w)(p \<mapsto> c'), w_sys := s'\<rparr>)"
proof -
  have f: "cn_net_conn c' = cn_net_conn c" "cn_type c' = cn_type c" "traffic (conn_fd c) (w_sys w) xs ys s'"
    using assms(2) by (simp_all add: conn_frame_def)
  show ?thesis
    using conversation_traffic [OF _ f(3,1)] assms(1,3) f(2) by (simp add: talks_def talking_def)
qed

section \<open>epoll\<close>

lemma epoll_ctl_frame:
  assumes "epoll_ctl_call op fd q ev s = (r, s')"
  shows "blocks s' = blocks s" "allocs s' = allocs s" "waits s' = waits s" "accepts s' = accepts s"
    "closed s' = closed s" "r = 0 \<or> r = -1" "callocs s' = callocs s" "rcvd s' = rcvd s" "sent s' = sent s"
  using assms
  by (auto simp: epoll_ctl_call_def Let_def split: list.splits option.splits epoll_op.splits if_splits)

lemma epoll_mod_interest:
  assumes "epoll_ctl_call EPOLL_CTL_MOD fd q ev s = (r, s')"
  shows "interest s' = interest s \<or> interest s fd \<noteq> None \<and> interest s' = (interest s)(fd \<mapsto> (q, ev))"
  using assms by (auto simp: epoll_ctl_call_def Let_def split: list.splits option.splits if_splits)

lemma epoll_del_interest:
  assumes "epoll_ctl_call EPOLL_CTL_DEL fd q ev s = (r, s')"
  shows "(interest s')(fd := None) = (interest s)(fd := None)"
  using assms by (auto simp: epoll_ctl_call_def Let_def split: list.splits option.splits if_splits)

lemma epoll_add_interest:
  assumes "epoll_ctl_call EPOLL_CTL_ADD fd q ev s = (r, s')"
  shows "r = 0 \<and> interest s fd = None \<and> interest s' = (interest s)(fd \<mapsto> (q, ev)) \<or> r = -1 \<and> interest s' = interest s"
  using assms by (cases "interest s fd") (auto simp: epoll_ctl_call_def Let_def split: list.splits option.splits if_splits)

lemma replies_callocs: "callocs s' = callocs s \<Longrightarrow> replies_ok s \<Longrightarrow> replies_ok s'"
  by (simp add: replies_ok_def)

lemma unlimited_same: "allocs s' = allocs s \<Longrightarrow> callocs s' = callocs s \<Longrightarrow> unlimited s' = unlimited s"
  by (simp add: unlimited_def replies_ok_def)

lemma reactor_modify_spec:
  assumes "world_inv lp base w" "p \<in> set (managed (w_mgr w))"
  obtains r s' where "vr_reactor_modify (Some (w_reactor w)) p ev (w_heap w) (w_sys w) = Some (r, s')"
    "stepped lp base p w (w\<lparr>w_sys := s'\<rparr>)" "talks p w (w\<lparr>w_sys := s'\<rparr>)"
proof (rule world_inv_client [OF assms])
  fix c
  assume c: "w_heap w p = Some c" "client_ok (w_sys w) p c" "p \<noteq> 0"
  obtain r s' where e: "epoll_ctl_call EPOLL_CTL_MOD (conn_fd c) p ev (w_sys w) = (r, s')" by fastforce
  note f = epoll_ctl_frame [OF e]
  have int: "interest s' = interest (w_sys w) \<or> interest s' = (interest (w_sys w))(conn_fd c \<mapsto> (p, ev))"
    using epoll_mod_interest [OF e] by blast
  have "interest_ok (w_heap w) s'"
    using world_invD(7) [OF assms(1)] int c(1) by (auto simp: interest_ok_def split: if_splits)
  moreover have "\<exists>d. w_heap w q = Some d \<and> client_ok s' q d" if q: "q \<in> set (managed (w_mgr w))" for q
  proof (rule world_inv_client [OF assms(1) q])
    fix d
    assume d: "w_heap w q = Some d" "client_ok (w_sys w) q d"
    have "q = p" if "conn_fd d = conn_fd c" using c(2) d(2) that by (auto simp: client_ok_def)
    then show ?thesis using int d by (auto simp: client_ok_def)
  qed
  ultimately have "world_inv lp base (w\<lparr>w_sys := s'\<rparr>)"
    using assms(1) f replies_callocs [OF f(7)] by (simp add: world_inv_def)
  moreover have "view (w\<lparr>w_sys := s'\<rparr>) q = view w q" if "q \<noteq> p" "w_heap w q = Some d" for q d
    by (rule view_same [of _ _ d _ d]) (use that int f(8,9) other_fd [OF assms c(1) that] in auto)
  ultimately have "stepped lp base p w (w\<lparr>w_sys := s'\<rparr>)"
    using f(3) unlimited_same [OF f(2,7)] by (intro steppedI) (simp_all add: talking_gone)
  moreover have "talks p w (w\<lparr>w_sys := s'\<rparr>)"
    using f(8,9) by (simp add: talks_def talking_def conversation_def)
  moreover have "\<exists>r. vr_reactor_modify (Some (w_reactor w)) p ev (w_heap w) (w_sys w) = Some (r, s')"
    using c e by (simp add: vr_reactor_modify_def)
  ultimately show thesis using that by blast
qed

section \<open>Closing a connection\<close>

lemma destroyed_world:
  assumes "world_inv lp base w" "p \<in> set (managed (w_mgr w))" "w_heap w p = Some c"
    and "destroyed (w_mgr w) (w_heap w) p c m' h'"
    and "blocks s' = blocks (w_sys w) - conn_blocks c" "replies_ok s'"
    and "interest s' = (interest (w_sys w))(conn_fd c := None)"
  shows "world_inv lp base (w\<lparr>w_mgr := m', w_heap := h', w_sys := s'\<rparr>)"
proof -
  let ?m = "w_mgr w" and ?h = "w_heap w" and ?s = "w_sys w"
  note I = world_invD [OF assms(1)]
  have ms: "set (managed m') = set (managed ?m) - {p}" by (rule destroyed_members [OF I(1) assms(2-4)])
  have dm: "dom h' = dom ?h - {p}" by (rule destroyed_dom [OF assms(3,4)])
  have bl: "heap_blocks h' = heap_blocks ?h - conn_blocks c" by (rule destroyed_blocks [OF assms(3,4) I(10)])
  have d: "mgr_inv m' h'" "mgr_capacity m' = mgr_capacity ?m" "h' lp = ?h lp"
    using assms(4) I(4) by (auto simp: destroyed_def)
  have pc: "client_ok ?s p c" "p \<noteq> lp" using world_inv_client [OF assms(1,2)] assms(3) by (metis option.inject)+
  have "interest_ok h' s'"
    unfolding interest_ok_def
  proof (intro allI impI)
    fix fd q ev
    assume "interest s' fd = Some (q, ev)"
    then have i: "interest ?s fd = Some (q, ev)" "fd \<noteq> conn_fd c" using assms(7) by (auto split: if_splits)
    then obtain e where e: "?h q = Some e" "conn_fd e = fd" using I(7) by (auto simp: interest_ok_def)
    then have "q \<noteq> p" using i(2) assms(3) by auto
    then obtain e' where e': "h' q = Some e'" "conn_core e' = conn_core e" by (rule destroyed_core [OF assms(4) _ e(1)])
    then show "\<exists>c. h' q = Some c \<and> conn_fd c = fd" using conn_core_fields(1) [OF e'(2)] e(2) by simp
  qed
  moreover have "\<exists>d. h' q = Some d \<and> client_ok s' q d" if q: "q \<in> set (managed m')" for q
  proof -
    have q': "q \<in> set (managed ?m)" "q \<noteq> p" using q ms by auto
    obtain e where e: "?h q = Some e" "client_ok ?s q e" by (rule world_inv_client [OF assms(1) q'(1)])
    obtain e' where e': "h' q = Some e'" "conn_core e' = conn_core e" by (rule destroyed_core [OF assms(4) q'(2) e(1)])
    have "conn_fd e \<noteq> conn_fd c" using e(2) pc(1) q'(2) by (auto simp: client_ok_def)
    then have "client_ok s' q e'"
      using e(2) assms(7) conn_core_fields(1,2) [OF e'(2)] conn_core_inv(1) [OF e'(2)] by (simp add: client_ok_def)
    then show ?thesis using e'(1) by blast
  qed
  moreover have "dom h' = insert lp (set (managed m'))" using dm ms I(3) pc(2) by auto
  moreover have "h' 0 = None" using I(5) dm by (metis Diff_iff domIff)
  ultimately show ?thesis
    using d I(2,6,8) ms I(4) assms(5,6) bl by (simp add: world_inv_def)
qed

lemma close_call_fields [simp]:
  "blocks (close_call fd s) = blocks s" "allocs (close_call fd s) = allocs s" "waits (close_call fd s) = waits s"
  "accepts (close_call fd s) = accepts s" "interest (close_call fd s) = (interest s)(fd := None)"
  "callocs (close_call fd s) = callocs s" "rcvd (close_call fd s) = rcvd s" "sent (close_call fd s) = sent s"
  by (simp_all add: close_call_def)

text \<open>\<open>gone p fd w\<close>: the connection is freed and its descriptor was closed.\<close>

definition gone :: "conn_ptr \<Rightarrow> int \<Rightarrow> world \<Rightarrow> bool" where
  "gone p fd w \<longleftrightarrow> w_heap w p = None \<and> fd \<in> set (closed (w_sys w))"

lemma close_connection_spec:
  assumes "world_inv lp base w" "p \<in> set (managed (w_mgr w))"
  obtains w' where "reactor_close_connection p w = Some w'" "stepped lp base p w w'"
    "gone p (conn_fd (the (w_heap w p))) w'"
proof (rule world_inv_client [OF assms])
  fix c
  assume c: "w_heap w p = Some c" "client_ok (w_sys w) p c" "p \<noteq> 0"
  obtain r s1 where e: "epoll_ctl_call EPOLL_CTL_DEL (conn_fd c) 0 0 (w_sys w) = (r, s1)" by fastforce
  note f = epoll_ctl_frame [OF e]
  let ?s2 = "close_call (conn_fd c) s1"
  obtain m' h' s' where d: "vr_connection_destroy (Some (w_mgr w)) p (w_heap w) ?s2 = Some (VR_SUCCESS, Some m', h', s')"
      "destroyed (w_mgr w) (w_heap w) p c m' h'" "heap_frame ?s2 s'" "blocks s' = blocks ?s2 - conn_blocks c"
    by (rule connection_destroy_spec [OF world_invD(1) [OF assms(1)] assms(2) c(1,3)])
  let ?w' = "w\<lparr>w_mgr := m', w_heap := h', w_sys := s'\<rparr>"
  have int: "interest s' = (interest (w_sys w))(conn_fd c := None)"
    using heap_frame_fields(8) [OF d(3)] epoll_del_interest [OF e] by simp
  have un: "replies_ok s'"
    using heap_frame_replies [OF d(3)] world_invD(9) [OF assms(1)] f(7) by (simp add: replies_ok_def)
  have "world_inv lp base ?w'"
    by (rule destroyed_world [OF assms c(1) d(2) _ un int]) (use d(4) f(1) in simp)
  moreover have "waits s' = waits (w_sys w)" using heap_frame_fields(7) [OF d(3)] f(3) by simp
  moreover have "unlimited s'" if "unlimited (w_sys w)"
    using heap_frame_unlimited [OF d(3)] unlimited_same [of ?s2 "w_sys w"] f(2,7) that by simp
  moreover have "view ?w' q = view w q" if q: "q \<noteq> p" "w_heap w q = Some e" for q e
  proof -
    obtain e' where e': "h' q = Some e'" "conn_core e' = conn_core e" by (rule destroyed_core [OF d(2) q])
    show ?thesis
      by (rule view_same [OF q(2) _ e'(2)])
        (use e'(1) int f(8,9) heap_frame_fields(9,11) [OF d(3)] other_fd [OF assms c(1) q] in simp_all)
  qed
  moreover have "h' q = None" if "w_heap w q = None" for q using destroyed_dom [OF c(1) d(2)] that by (metis Diff_iff domIff)
  ultimately have "stepped lp base p w ?w'" by (intro steppedI) (simp_all add: talking_gone)
  moreover have "\<exists>r'. vr_reactor_remove (Some (w_reactor w)) p (w_heap w) (w_sys w) = Some (r', s1)"
    using c(1) e by (simp add: vr_reactor_remove_def)
  then have "reactor_close_connection p w = Some ?w'"
    using c(1) d(1) by (auto simp: reactor_close_connection_def)
  moreover have "gone p (conn_fd (the (w_heap w p))) ?w'"
    using d(2) heap_frame_fields(10) [OF d(3)] c(1) by (simp add: destroyed_def gone_def close_call_def)
  ultimately show thesis using that [of ?w'] by simp
qed

section \<open>Client events\<close>

text \<open>\<open>client_step lp base p w res\<close>: a handler of \<open>p\<close> returns, with a flag that says whether it closed \<open>p\<close>.\<close>

definition client_step :: "conn_ptr \<Rightarrow> int \<Rightarrow> conn_ptr \<Rightarrow> world \<Rightarrow> (bool \<times> world) option \<Rightarrow> bool" where
  "client_step lp base p w res \<longleftrightarrow> (\<exists>gone w'. res = Some (gone, w') \<and> stepped lp base p w w' \<and>
     talks p w w' \<and> (gone \<longleftrightarrow> w_heap w' p = None) \<and> (\<not> gone \<longrightarrow> p \<in> set (managed (w_mgr w'))))"

lemma client_close:
  assumes "world_inv lp base w" "p \<in> set (managed (w_mgr w))" "stepped lp base p w0 w"
  shows "client_step lp base p w0 (do { w \<leftarrow> reactor_close_connection p w; Some (True, w) })"
  by (rule close_connection_spec [OF assms(1,2)])
    (use stepped_trans [OF assms(3)] in \<open>auto simp: client_step_def gone_def talks_gone\<close>)

lemma client_modify:
  assumes "world_inv lp base w" "p \<in> set (managed (w_mgr w))" "stepped lp base p w0 w" "talks p w0 w"
  shows "client_step lp base p w0 (do {
    (_, s) \<leftarrow> vr_reactor_modify (Some (w_reactor w)) p ev (w_heap w) (w_sys w);
    Some (False, w\<lparr>w_sys := s\<rparr>) })"
proof (rule reactor_modify_spec [OF assms(1,2), of ev])
  fix r s'
  assume "vr_reactor_modify (Some (w_reactor w)) p ev (w_heap w) (w_sys w) = Some (r, s')"
    and st: "stepped lp base p w (w\<lparr>w_sys := s'\<rparr>)" and tk: "talks p w (w\<lparr>w_sys := s'\<rparr>)"
  moreover have "w_heap w p \<noteq> None" by (rule world_inv_client [OF assms(1,2)]) simp
  ultimately show ?thesis
    using stepped_trans [OF assms(3) st] talks_trans [OF assms(3,4) tk] assms(2) by (simp add: client_step_def)
qed

lemma client_stay:
  assumes "p \<in> set (managed (w_mgr w))" "stepped lp base p w0 w" "talks p w0 w"
  shows "client_step lp base p w0 (Some (False, w))"
proof -
  have "world_inv lp base w" by (rule steppedD(1) [OF assms(2)])
  then have "w_heap w p \<noteq> None" by (rule world_inv_client [OF _ assms(1)]) simp
  then show ?thesis using assms by (simp add: client_step_def)
qed

lemma conn_frame_writes:
  assumes "conn_inv c" "ring_inv wb" "rb_data wb = None \<longleftrightarrow> rb_data (cn_write_buf c) = None" "io_frame s s'" "blocks s' = blocks s"
    and "traffic (conn_fd c) s [] ys s'"
  shows "conn_frame c s [] ys (c\<lparr>cn_write_buf := wb\<rparr>) s'"
  using assms by (simp add: conn_frame_def conn_inv_def conn_blocks_def del: not_None_eq)

lemma conn_frame_reads:
  assumes "conn_inv c" "read_more (conn_fd c) (cn_read_buf c) s rb s'" "traffic (conn_fd c) s xs [] s'"
  shows "conn_frame c s xs [] (c\<lparr>cn_read_buf := rb\<rparr>) s'"
  using assms by (simp add: conn_frame_def conn_inv_def conn_blocks_def read_more_def del: not_None_eq)

lemma drain_writes_world:
  assumes "world_inv lp base w" "p \<in> set (managed (w_mgr w))"
  shows "client_step lp base p w (reactor_drain_writes p w)"
proof (rule world_inv_client [OF assms])
  fix c
  assume c: "w_heap w p = Some c" "client_ok (w_sys w) p c"
  then have inv: "conn_inv c" "ring_inv (cn_write_buf c)" by (auto simp: client_ok_def conn_inv_def)
  from drain_writes_loop_spec [OF inv(2), of "conn_fd c" "w_sys w"] obtain failed wb s' yss where
    d: "drain_writes_loop (conn_fd c) (cn_write_buf c) (w_sys w) = Some (failed, wb, s')" "ring_inv wb"
      "rb_data wb = None \<longleftrightarrow> rb_data (cn_write_buf c) = None" "io_frame (w_sys w) s'" "blocks s' = blocks (w_sys w)"
      "sent s' = sent (w_sys w) @ map (Pair (conn_fd c)) yss" "rcvd s' = rcvd (w_sys w)"
      "ring_contents (cn_write_buf c) = concat yss @ ring_contents wb"
    by metis
  let ?w = "w\<lparr>w_heap := (w_heap w)(p \<mapsto> c\<lparr>cn_write_buf := wb\<rparr>), w_sys := s'\<rparr>"
  note fr = conn_frame_writes [OF inv(1) d(2-5) traffic_sent [OF d(7,6)]]
  have st: "stepped lp base p w ?w" by (rule world_update [OF assms c(1) fr])
  have tk: "talks p w ?w" by (rule talks_update [OF c(1) fr]) (use transduced_writes [OF _ d(8)] in simp)
  have wi: "world_inv lp base ?w" by (rule steppedD(1) [OF st])
  have mp: "p \<in> set (managed (w_mgr ?w))" using assms(2) by simp
  have "reactor_drain_writes p w =
    (if failed then do { w \<leftarrow> reactor_close_connection p ?w; Some (True, w) }
     else if vr_conn_ring_buf_empty wb then do {
       (_, s) \<leftarrow> vr_reactor_modify (Some (w_reactor ?w)) p (EPOLLIN OR EPOLLET) (w_heap ?w) (w_sys ?w);
       Some (False, ?w\<lparr>w_sys := s\<rparr>) }
     else Some (False, ?w))"
    using c(1) d(1) by (simp add: reactor_drain_writes_def Let_def)
  then show ?thesis
    using client_close [OF wi mp st] client_modify [OF wi mp st tk, of "EPOLLIN OR EPOLLET"] client_stay [OF mp st tk]
    by presburger
qed

text \<open>What the two handlers of a readable client do to it, beside keeping the invariant.\<close>

lemma drain_reads_client:
  assumes "world_inv lp base w" "p \<in> set (managed (w_mgr w))" "w_heap w p = Some c"
  obtains failed rb s1 w1 where "reactor_drain_reads p w = Some (failed, w1)" "stepped lp base p w w1" "talks p w w1"
    "read_more (conn_fd c) (cn_read_buf c) (w_sys w) rb s1" "reads_ended (w_sys w) failed rb s1"
    "if failed then gone p (conn_fd c) w1
     else w1 = w\<lparr>w_heap := (w_heap w)(p \<mapsto> c\<lparr>cn_read_buf := rb\<rparr>), w_sys := s1\<rparr>"
proof -
  have "client_ok (w_sys w) p c" by (rule world_inv_client [OF assms(1,2)]) (use assms(3) in simp)
  then have inv: "conn_inv c" "ring_inv (cn_read_buf c)" by (auto simp: client_ok_def conn_inv_def)
  from drain_reads_loop_spec [OF inv(2), of "conn_fd c" "w_sys w"] obtain failed rb s1 where
    d: "drain_reads_loop (conn_fd c) (cn_read_buf c) (w_sys w) = Some (failed, rb, s1)"
      "read_more (conn_fd c) (cn_read_buf c) (w_sys w) rb s1" "reads_ended (w_sys w) failed rb s1" by blast
  obtain xs where xs: "ring_contents rb = ring_contents (cn_read_buf c) @ xs" "traffic (conn_fd c) (w_sys w) xs [] s1"
    using d(2) by (auto simp: read_more_def)
  let ?w = "w\<lparr>w_heap := (w_heap w)(p \<mapsto> c\<lparr>cn_read_buf := rb\<rparr>), w_sys := s1\<rparr>"
  note fr = conn_frame_reads [OF inv(1) d(2) xs(2)]
  have st: "stepped lp base p w ?w" by (rule world_update [OF assms fr])
  have tk: "talks p w ?w" by (rule talks_update [OF assms(3) fr]) (use transduced_reads [OF _ xs(1)] in simp)
  have wi: "world_inv lp base ?w" by (rule steppedD(1) [OF st])
  have mp: "p \<in> set (managed (w_mgr ?w))" using assms(2) by simp
  have run: "reactor_drain_reads p w =
    (if failed then do { w \<leftarrow> reactor_close_connection p ?w; Some (True, w) } else Some (False, ?w))"
    using assms(3) d(1) by (simp add: reactor_drain_reads_def Let_def)
  show thesis
  proof (cases failed)
    case False
    then show thesis using run by (intro that [of failed ?w, OF _ st tk d(2,3)]) simp_all
  next
    case True
    obtain w1 where w1: "reactor_close_connection p ?w = Some w1" "stepped lp base p ?w w1"
        "gone p (conn_fd (the (w_heap ?w p))) w1"
      by (rule close_connection_spec [OF wi mp])
    then have "talks p w w1" by (simp add: gone_def talks_gone)
    then show thesis using run True w1
      by (intro that [of failed w1, OF _ stepped_trans [OF st w1(2)] _ d(2,3)]) simp_all
  qed
qed

lemma drain_reads_world:
  assumes "world_inv lp base w" "p \<in> set (managed (w_mgr w))"
  shows "client_step lp base p w (reactor_drain_reads p w)"
proof (rule world_inv_client [OF assms])
  fix c
  assume c: "w_heap w p = Some c"
  show ?thesis
    by (rule drain_reads_client [OF assms c])
      (use assms(2) in \<open>auto simp: client_step_def gone_def split: if_splits\<close>)
qed

lemma process_packets_client:
  assumes "world_inv lp base w" "p \<in> set (managed (w_mgr w))" "w_heap w p = Some c"
  obtains violation c' w1 where "reactor_process_packets p w = Some (violation, w1)" "stepped lp base p w w1" "talks p w w1"
    "unlimited (w_sys w) \<longrightarrow> processed c violation c'"
    "if violation then gone p (conn_fd c) w1 else w_heap w1 p = Some c' \<and> p \<in> set (managed (w_mgr w1))"
proof -
  have "client_ok (w_sys w) p c" by (rule world_inv_client [OF assms(1,2)]) (use assms(3) in simp)
  then have inv: "conn_inv c" by (simp add: client_ok_def)
  from process_packets_spec [OF inv world_invD(9) [OF assms(1)]] obtain violation c' s' where
    d: "process_packets_loop c (w_sys w) = Some (violation, c', s')" "conn_frame c (w_sys w) [] [] c' s'"
      "unlimited (w_sys w) \<longrightarrow> processed c violation c'" by blast
  let ?w = "w\<lparr>w_heap := (w_heap w)(p \<mapsto> c'), w_sys := s'\<rparr>" and ?ev = "EPOLLIN OR EPOLLOUT OR EPOLLET"
  have st: "stepped lp base p w ?w" by (rule world_update [OF assms d(2)])
  have tk: "talks p w ?w" if "\<not> violation"
    by (rule talks_update [OF assms(3) d(2)]) (use d(3) that transduced_processed in simp)
  have wi: "world_inv lp base ?w" by (rule steppedD(1) [OF st])
  have mp: "p \<in> set (managed (w_mgr ?w))" using assms(2) by simp
  have fd: "conn_fd c' = conn_fd c" using d(2) by (simp add: conn_frame_def)
  have run: "reactor_process_packets p w =
    (if violation then do { w \<leftarrow> reactor_close_connection p ?w; Some (True, w) }
     else if \<not> vr_conn_ring_buf_empty (cn_write_buf c') then do {
       (_, s) \<leftarrow> vr_reactor_modify (Some (w_reactor ?w)) p ?ev (w_heap ?w) (w_sys ?w);
       Some (False, ?w\<lparr>w_sys := s\<rparr>) }
     else Some (False, ?w))"
    using assms(3) d(1) by (simp add: reactor_process_packets_def Let_def)
  obtain r s2 where m: "vr_reactor_modify (Some (w_reactor ?w)) p ?ev (w_heap ?w) (w_sys ?w) = Some (r, s2)"
      "stepped lp base p ?w (?w\<lparr>w_sys := s2\<rparr>)" "talks p ?w (?w\<lparr>w_sys := s2\<rparr>)"
    by (rule reactor_modify_spec [OF wi mp])
  obtain w1 where w1: "reactor_close_connection p ?w = Some w1" "stepped lp base p ?w w1"
      "gone p (conn_fd (the (w_heap ?w p))) w1"
    by (rule close_connection_spec [OF wi mp])
  consider "violation" | "\<not> violation" "vr_conn_ring_buf_empty (cn_write_buf c')"
    | "\<not> violation" "\<not> vr_conn_ring_buf_empty (cn_write_buf c')" by blast
  then show thesis
  proof cases
    case 1
    then show thesis using run w1 fd
      by (intro that [of violation w1, OF _ stepped_trans [OF st w1(2)] talks_gone d(3)]) (simp_all add: gone_def)
  next
    case 2
    then show thesis using run mp by (intro that [of violation ?w, OF _ st tk d(3)]) simp_all
  next
    case 3
    then show thesis
      using run m mp talks_trans [OF st tk m(3)]
      by (intro that [of violation "?w\<lparr>w_sys := s2\<rparr>", OF _ stepped_trans [OF st m(2)] _ d(3)]) simp_all
  qed
qed

lemma process_packets_world:
  assumes "world_inv lp base w" "p \<in> set (managed (w_mgr w))"
  shows "client_step lp base p w (reactor_process_packets p w)"
proof (rule world_inv_client [OF assms])
  fix c
  assume c: "w_heap w p = Some c"
  show ?thesis
    by (rule process_packets_client [OF assms c]) (auto simp: client_step_def gone_def split: if_splits)
qed

text \<open>Handlers of one client in sequence: the next one runs only when the client is still there.\<close>

lemma client_stepE:
  assumes "client_step lp base p w res"
  obtains gone w' where "res = Some (gone, w')" "stepped lp base p w w'" "world_inv lp base w'"
    "\<not> gone \<longrightarrow> p \<in> set (managed (w_mgr w'))" "talks p w w'"
proof -
  from assms obtain gone w' where *: "res = Some (gone, w')" "stepped lp base p w w'" "talks p w w'"
      "\<not> gone \<longrightarrow> p \<in> set (managed (w_mgr w'))" unfolding client_step_def by blast
  show thesis by (rule that [OF *(1,2) steppedD(1) [OF *(2)] *(4,3)])
qed

lemma client_event_world:
  assumes "world_inv lp base w" "p \<in> set (managed (w_mgr w))"
  shows "\<exists>w'. reactor_handle_client_event p events w = Some w' \<and> stepped lp base p w w' \<and> talks p w w'"
proof -
  let ?r1 = "if events AND EPOLLOUT \<noteq> 0 then reactor_drain_writes p w else Some (False, w)"
  have "client_step lp base p w ?r1"
    using drain_writes_world [OF assms] client_stay [OF assms(2) stepped_refl [OF assms(1)]] by simp
  then obtain g1 w1 where 1: "?r1 = Some (g1, w1)" "stepped lp base p w w1" "world_inv lp base w1"
      "\<not> g1 \<longrightarrow> p \<in> set (managed (w_mgr w1))" "talks p w w1" by (rule client_stepE)
  let ?r2 = "if \<not> g1 \<and> events AND EPOLLIN \<noteq> 0 then reactor_drain_reads p w1 else Some (g1, w1)"
  have "\<exists>g2 w2. ?r2 = Some (g2, w2) \<and> stepped lp base p w1 w2 \<and> talks p w1 w2 \<and> (\<not> g2 \<longrightarrow> p \<in> set (managed (w_mgr w2)))"
    using 1(4) drain_reads_world [OF 1(3), of p] stepped_refl [OF 1(3), of p]
    by (cases "\<not> g1 \<and> events AND EPOLLIN \<noteq> 0") (auto simp: client_step_def)
  then obtain g2 w2 where 2: "?r2 = Some (g2, w2)" "stepped lp base p w1 w2"
      "\<not> g2 \<longrightarrow> p \<in> set (managed (w_mgr w2))" "talks p w1 w2" by blast
  have wi: "world_inv lp base w2" by (rule steppedD(1) [OF 2(2)])
  let ?r3 = "if \<not> g2 then reactor_process_packets p w2 else Some (g2, w2)"
  have "\<exists>g3 w3. ?r3 = Some (g3, w3) \<and> stepped lp base p w2 w3 \<and> talks p w2 w3"
    using 2(3) process_packets_world [OF wi, of p] stepped_refl [OF wi, of p]
    by (cases g2) (auto simp: client_step_def)
  then obtain g3 w3 where 3: "?r3 = Some (g3, w3)" "stepped lp base p w2 w3" "talks p w2 w3" by blast
  have "reactor_handle_client_event p events w = Some w3"
    unfolding reactor_handle_client_event_def using 1(1) 2(1) 3(1) by simp
  moreover have "stepped lp base p w w3" by (rule stepped_trans [OF 1(2) stepped_trans [OF 2(2) 3(2)]])
  moreover have "talks p w w3" by (rule talks_trans [OF 1(2,5) talks_trans [OF 2(2,4) 3(3)]])
  ultimately show ?thesis by blast
qed

end
