(* ===== verification/Velora_Loop_Spec.thy ===== *)
theory Velora_Loop_Spec
  imports Velora_World_Spec
begin

text \<open>
  The listener, the event loop, start-up and shutdown: the invariant from the first connection to the last,
  and the end of every loop.
\<close>

section \<open>System calls that leave the connections alone\<close>

definition quiet :: "sys \<Rightarrow> sys \<Rightarrow> bool" where
  "quiet s s' \<longleftrightarrow> blocks s' = blocks s \<and> allocs s' = allocs s \<and> callocs s' = callocs s \<and> waits s' = waits s \<and>
     interest s' = interest s \<and> rcvd s' = rcvd s \<and> sent s' = sent s"

lemma quiet_trans: "quiet s t \<Longrightarrow> quiet t u \<Longrightarrow> quiet s u"
  by (simp add: quiet_def)

lemma ret_call_quiet: "ret_call s = (r, s') \<Longrightarrow> quiet s s' \<and> accepts s' = accepts s \<and> closed s' = closed s"
  by (auto simp: ret_call_def quiet_def split: list.splits sum.splits)

lemma non_blocking_quiet: "vr_socket_set_non_blocking fd s = (r, s') \<Longrightarrow> quiet s s' \<and> accepts s' = accepts s \<and> closed s' = closed s"
  by (auto simp: vr_socket_set_non_blocking_def quiet_def split: prod.splits if_splits dest!: ret_call_quiet)

lemma close_fresh_quiet: "interest s fd = None \<Longrightarrow> quiet s (close_call fd s)"
  by (auto simp: quiet_def)

lemma quiet_world: "quiet (w_sys w) s' \<Longrightarrow> world_inv lp base w \<Longrightarrow> world_inv lp base (w\<lparr>w_sys := s'\<rparr>)"
  by (simp add: quiet_def world_inv_def client_ok_def interest_ok_def replies_ok_def)

lemma tcp_accept_cases:
  obtains (got) n s' where "vr_tcp_accept fd n0 s = (VR_SUCCESS, n, s')" "fresh_fd (nc_fd n) s'"
      "length (accepts s') < length (accepts s)" "quiet s s'"
  | (none) r n s' where "vr_tcp_accept fd n0 s = (r, n, s')" "r \<noteq> VR_SUCCESS" "quiet s s'"
proof (cases "accepts s")
  case Nil
  then show thesis using none by (simp add: vr_tcp_accept_def accept_call_def quiet_def)
next
  case (Cons a as)
  show thesis
  proof (cases a)
    case (Accept_error e)
    then show thesis using Cons
      by (intro none [of "if e = EAGAIN \<or> e = EWOULDBLOCK then VR_EMPTY else VR_ERROR" n0 "s\<lparr>errno := e, accepts := as\<rparr>"])
        (auto simp: vr_tcp_accept_def accept_call_def quiet_def)
  next
    case (Accept_conn cfd addr)
    show thesis
    proof (cases "fresh_fd cfd s")
      case False
      then show thesis using Cons Accept_conn
        by (intro none [of VR_ERROR n0 "s\<lparr>errno := EMFILE, accepts := as\<rparr>"])
          (auto simp: vr_tcp_accept_def accept_call_def quiet_def errno_defs)
    next
      case True
      obtain b s1 where n: "ntop_call (s\<lparr>accepts := as\<rparr>) = (b, s1)" by fastforce
      then have q: "quiet s s1" "accepts s1 = as" by (auto simp: ntop_call_def quiet_def split: list.splits)
      have fr: "fresh_fd cfd s1" using True q(1) by (simp add: fresh_fd_def quiet_def)
      show thesis
      proof (cases b)
        case True
        then show thesis using got [of "n0\<lparr>nc_fd := cfd, nc_addr := addr\<rparr>" s1] n q fr Cons Accept_conn \<open>fresh_fd cfd s\<close>
          by (simp add: vr_tcp_accept_def accept_call_def)
      next
        case False
        have "quiet s (close_call cfd s1)"
          using quiet_trans [OF q(1) close_fresh_quiet] fr by (simp add: fresh_fd_def)
        then show thesis using none False n Cons Accept_conn \<open>fresh_fd cfd s\<close>
          by (simp add: vr_tcp_accept_def accept_call_def)
      qed
    qed
  qed
qed

section \<open>A new connection\<close>

text \<open>\<open>calm s s'\<close>: no traffic, and memory as before.\<close>

definition calm :: "sys \<Rightarrow> sys \<Rightarrow> bool" where
  "calm s s' \<longleftrightarrow> waits s' = waits s \<and> rcvd s' = rcvd s \<and> sent s' = sent s \<and> (unlimited s \<longrightarrow> unlimited s')"

lemma calm_trans: "calm s t \<Longrightarrow> calm t u \<Longrightarrow> calm s u"
  by (simp add: calm_def)

lemma calm_intros:
  "quiet s s' \<Longrightarrow> calm s s'" "heap_frame s s' \<Longrightarrow> calm s s'" "calm s (close_call fd s)"
  "epoll_ctl_call op fd q ev s = (r, s') \<Longrightarrow> calm s s'"
  using heap_frame_fields(7,9,11) [of s s'] heap_frame_unlimited [of s s'] unlimited_same [of s' s]
    epoll_ctl_frame(2,3,7-9) [of op fd q ev s r s'] unlimited_same [of "close_call fd s" s]
  by (simp_all add: calm_def quiet_def)

text \<open>A step that leaves the connections and their registrations as they are, but for new ones.\<close>

lemma stepped_calm:
  assumes "world_inv lp base w'" "w_reactor w' = w_reactor w" "w_status w' = w_status w" "calm (w_sys w) (w_sys w')"
    and "\<And>q d. w_heap w q = Some d \<Longrightarrow> \<exists>d'. w_heap w' q = Some d' \<and> conn_core d' = conn_core d"
    and "\<And>q d. w_heap w q = Some d \<Longrightarrow> cn_type d = VR_CONN_CLIENT \<Longrightarrow>
      interest (w_sys w') (conn_fd d) = interest (w_sys w) (conn_fd d)"
    and "\<And>q. w_heap w q = None \<Longrightarrow> \<exists>ins outs. talking ins outs w' q"
  shows "stepped lp base p w w'"
proof (rule steppedI [OF assms(1-3)])
  fix q d
  assume q: "w_heap w q = Some d"
  obtain d' where "w_heap w' q = Some d'" "conn_core d' = conn_core d" using assms(5) [OF q] by blast
  then show "view w' q = view w q"
    by (rule view_same [OF q]) (use assms(4) assms(6) [OF q] in \<open>simp add: calm_def\<close>)
qed (use assms(4,7) in \<open>simp_all add: calm_def\<close>)

lemma stepped_quiet:
  assumes "quiet (w_sys w) s'" "world_inv lp base w"
  shows "stepped lp base p w (w\<lparr>w_sys := s'\<rparr>)"
  by (rule stepped_calm [OF quiet_world [OF assms]])
    (use assms(1) calm_intros(1) in \<open>simp_all add: talking_gone quiet_def\<close>)

lemma fresh_other_fd:
  assumes "world_inv lp base w" "fresh_fd fd (w_sys w)" "w_heap w q = Some d" "cn_type d = VR_CONN_CLIENT"
  shows "conn_fd d \<noteq> fd"
proof -
  have "q \<noteq> lp" using world_invD(6) [OF assms(1)] assms(3,4) by auto
  then have q: "q \<in> set (managed (w_mgr w))" using world_invD(3) [OF assms(1)] assms(3) by auto
  have "client_ok (w_sys w) q d" by (rule world_inv_client [OF assms(1) q]) (use assms(3) in simp)
  then show ?thesis using assms(2) by (auto simp: client_ok_def fresh_fd_def)
qed

lemma world_register:
  assumes "world_inv lp base w" "fresh_fd (conn_fd c) (w_sys w)" "p \<noteq> 0" "w_heap w p = None"
    and "mgr_inv m' ((w_heap w)(p \<mapsto> c))" "managed m' = managed (w_mgr w) @ [p]" "unat (mgr_capacity m') \<le> 2 ^ 32"
    and "conn_inv c" "cn_type c = VR_CONN_CLIENT" "conn_blocks c = 1"
    and "blocks s' = blocks (w_sys w) + 1" "replies_ok s'" "interest s' = (interest (w_sys w))(conn_fd c \<mapsto> (p, ev))"
  shows "world_inv lp base (w\<lparr>w_mgr := m', w_heap := (w_heap w)(p \<mapsto> c), w_sys := s'\<rparr>)"
proof -
  let ?h = "(w_heap w)(p \<mapsto> c)"
  note I = world_invD [OF assms(1)]
  have fr: "interest (w_sys w) (conn_fd c) = None" "0 \<le> conn_fd c" "conn_fd c < 2 ^ 31"
    using assms(2) by (auto simp: fresh_fd_def)
  have lp: "p \<noteq> lp" using I(6) assms(4) by auto
  have "interest_ok ?h s'"
    using I(7) assms(4,13) by (fastforce simp: interest_ok_def split: if_splits)
  moreover have "\<exists>d. ?h q = Some d \<and> client_ok s' q d" if q: "q \<in> set (managed m')" for q
  proof (cases "q = p")
    case True
    then show ?thesis using assms(8,9,13) fr by (simp add: client_ok_def)
  next
    case False
    then have "q \<in> set (managed (w_mgr w))" using q assms(6) by simp
    then obtain d where d: "w_heap w q = Some d" "client_ok (w_sys w) q d" by (rule world_inv_client [OF assms(1)])
    then have "conn_fd d \<noteq> conn_fd c" using fr(1) by (auto simp: client_ok_def)
    then show ?thesis using d False assms(13) by (simp add: client_ok_def)
  qed
  moreover have "heap_blocks ?h = heap_blocks (w_heap w) + 1"
    using heap_blocks_new [OF I(10) assms(4), of c] assms(10) by simp
  ultimately show ?thesis
    using I(3,4,5,6,8) assms(3,5,6,7,11,12) lp by (auto simp: world_inv_def)
qed

text \<open>Both ways of giving a new connection up again: \<open>close\<close> and \<open>vr_connection_destroy\<close>.\<close>

lemma world_withdraw:
  assumes "world_inv lp base w" "fresh_fd (conn_fd c) (w_sys w)" "p \<noteq> 0" "w_heap w p = None"
    and "mgr_inv m' ((w_heap w)(p \<mapsto> c))" "managed m' = managed (w_mgr w) @ [p]" "unat (mgr_capacity m') \<le> 2 ^ 32"
    and "conn_inv c" "cn_type c = VR_CONN_CLIENT" "conn_blocks c = 1"
    and "blocks s1 = blocks (w_sys w) + 1" "replies_ok s1" "interest s1 = interest (w_sys w)" "calm (w_sys w) s1"
  obtains m2 h2 s2 where
    "vr_connection_destroy (Some m') p ((w_heap w)(p \<mapsto> c)) (close_call (conn_fd c) s1) = Some (VR_SUCCESS, Some m2, h2, s2)"
    "stepped lp base lp w (w\<lparr>w_mgr := m2, w_heap := h2, w_sys := s2\<rparr>)" "heap_frame (close_call (conn_fd c) s1) s2"
    "dom h2 = dom (w_heap w)"
proof -
  let ?h = "(w_heap w)(p \<mapsto> c)" and ?ghost = "s1\<lparr>interest := (interest (w_sys w))(conn_fd c \<mapsto> (p, 0))\<rparr>"
  let ?s = "close_call (conn_fd c) s1"
  let ?gw = "w\<lparr>w_mgr := m', w_heap := ?h, w_sys := ?ghost\<rparr>"
  have w0: "world_inv lp base ?gw"
    by (rule world_register [OF assms(1-10), where ev = 0]) (use assms(11,12) in \<open>simp_all add: replies_ok_def\<close>)
  have pm: "p \<in> set (managed (w_mgr ?gw))" using assms(6) by simp
  have hp: "w_heap ?gw p = Some c" by simp
  have mi: "p \<in> set (managed m')" "?h p = Some c" using assms(6) by simp_all
  obtain m2 h2 s2 where d: "vr_connection_destroy (Some m') p ?h ?s = Some (VR_SUCCESS, Some m2, h2, s2)"
      "destroyed m' ?h p c m2 h2" "heap_frame ?s s2" "blocks s2 = blocks ?s - conn_blocks c"
    by (rule connection_destroy_spec [OF assms(5) mi assms(3)])
  have int: "interest (w_sys w) (conn_fd c) = None" using assms(2) by (simp add: fresh_fd_def)
  have "world_inv lp base (?gw\<lparr>w_mgr := m2, w_heap := h2, w_sys := s2\<rparr>)"
    by (rule destroyed_world [OF w0 pm hp])
      (use d heap_frame_fields(8) [OF d(3)] heap_frame_replies [OF d(3)] assms(11-13) int
        in \<open>auto simp: replies_ok_def\<close>)
  then have wi: "world_inv lp base (w\<lparr>w_mgr := m2, w_heap := h2, w_sys := s2\<rparr>)" by simp
  have "dom h2 = dom ?h - {p}" by (rule destroyed_dom [OF mi(2) d(2)])
  then have dm: "dom h2 = dom (w_heap w)" using assms(4) by auto
  have core: "\<exists>e'. h2 q = Some e' \<and> conn_core e' = conn_core e" if q: "w_heap w q = Some e" for q e
  proof -
    have "q \<noteq> p" "?h q = Some e" using q assms(4) by auto
    then show ?thesis using destroyed_core [OF d(2)] by metis
  qed
  have "interest s2 = (interest (w_sys w))(conn_fd c := None)" using heap_frame_fields(8) [OF d(3)] assms(13) by simp
  moreover have "h2 q = None" if "w_heap w q = None" for q using dm that by (metis domIff)
  ultimately have "stepped lp base lp w (w\<lparr>w_mgr := m2, w_heap := h2, w_sys := s2\<rparr>)"
    using core fresh_other_fd [OF assms(1,2)] calm_trans [OF calm_trans [OF assms(14) calm_intros(3)] calm_intros(2) [OF d(3)]]
    by (intro stepped_calm [OF wi]) (simp_all add: talking_gone)
  then show thesis using that [OF d(1) _ d(3) dm] by simp
qed

text \<open>The two ends of an accepted socket: it is a client, new, managed and registered, or it is closed again.\<close>

definition welcomed :: "vr_net_conn_t \<Rightarrow> world \<Rightarrow> world \<Rightarrow> bool" where
  "welcomed n w w' \<longleftrightarrow> (\<exists>p. p \<noteq> 0 \<and> w_heap w p = None \<and> managed (w_mgr w') = managed (w_mgr w) @ [p] \<and>
     w_heap w' = (w_heap w)(p \<mapsto> new_connection n (mgr_count (w_mgr w))\<lparr>cn_type := VR_CONN_CLIENT\<rparr>) \<and>
     interest (w_sys w') = (interest (w_sys w))(nc_fd n \<mapsto> (p, EPOLLIN OR EPOLLET)) \<and>
     closed (w_sys w') = closed (w_sys w))"

definition turned_away :: "vr_net_conn_t \<Rightarrow> world \<Rightarrow> world \<Rightarrow> bool" where
  "turned_away n w w' \<longleftrightarrow> dom (w_heap w') = dom (w_heap w) \<and> interest (w_sys w') = interest (w_sys w) \<and>
     closed (w_sys w') = closed (w_sys w) @ [nc_fd n]"

text \<open>\<open>joined lp base n w w'\<close>: the step of the listener for the socket \<open>n\<close>; nobody leaves.\<close>

definition joined :: "conn_ptr \<Rightarrow> int \<Rightarrow> vr_net_conn_t \<Rightarrow> world \<Rightarrow> world \<Rightarrow> bool" where
  "joined lp base n w w' \<longleftrightarrow> stepped lp base lp w w' \<and> accepts (w_sys w') = accepts (w_sys w) \<and>
     (welcomed n w w' \<or> turned_away n w w')"

lemma talking_new:
  assumes "c = new_connection n k\<lparr>cn_type := VR_CONN_CLIENT\<rparr>" "w_heap w p = Some c"
  shows "\<exists>ins outs. talking ins outs w p"
proof -
  have "transduced c [] []"
    by (rule transduced_new)
      (simp_all add: assms(1) new_connection_def connection_zero_def parser_zero_def proto_abs_def open_streams_def)
  then have "conversation (bytes_on (conn_fd c) (rcvd (w_sys w))) (bytes_on (conn_fd c) (sent (w_sys w))) (w_sys w) c"
    by (auto simp: conversation_def)
  then show ?thesis using assms(2) by (auto simp: talking_def)
qed

lemma capacity_stays:
  assumes "world_inv lp base w"
    and "unat (mgr_capacity m') \<le> max (unat (mgr_capacity (w_mgr w))) (max 16 (2 * unat (mgr_count (w_mgr w))))"
  shows "unat (mgr_capacity m') \<le> 2 ^ 32"
  using assms(2) world_invD(2) [OF assms(1)] managed_bound [OF assms(1)] by simp

lemma world_welcome:
  assumes "world_inv lp base w" "fresh_fd (conn_fd c) (w_sys w)" "p \<noteq> 0" "w_heap w p = None"
    and "mgr_inv m' ((w_heap w)(p \<mapsto> c))" "managed m' = managed (w_mgr w) @ [p]" "unat (mgr_capacity m') \<le> 2 ^ 32"
    and "c = new_connection n (mgr_count (w_mgr w))\<lparr>cn_type := VR_CONN_CLIENT\<rparr>" "conn_inv c" "conn_blocks c = 1"
    and "blocks s' = blocks (w_sys w) + 1" "replies_ok s'"
    and "interest s' = (interest (w_sys w))(conn_fd c \<mapsto> (p, EPOLLIN OR EPOLLET))"
    and "calm (w_sys w) s'" "closed s' = closed (w_sys w)"
  shows "stepped lp base lp w (w\<lparr>w_mgr := m', w_heap := (w_heap w)(p \<mapsto> c), w_sys := s'\<rparr>)" (is "stepped _ _ _ _ ?w'")
    "welcomed n w (w\<lparr>w_mgr := m', w_heap := (w_heap w)(p \<mapsto> c), w_sys := s'\<rparr>)"
proof -
  have c: "cn_type c = VR_CONN_CLIENT" "conn_fd c = nc_fd n" using assms(8) by (simp_all add: new_connection_def)
  have wi: "world_inv lp base ?w'" by (rule world_register [OF assms(1-7,9) c(1) assms(10-13)])
  have "\<exists>ins outs. talking ins outs ?w' q" if "w_heap w q = None" for q
    using talking_new [OF assms(8), of ?w' p] talking_gone [of ?w' q] that by (cases "q = p") auto
  then show "stepped lp base lp w ?w'"
    using assms(4,13,14) fresh_other_fd [OF assms(1,2)] by (intro stepped_calm [OF wi]) auto
  show "welcomed n w ?w'"
    unfolding welcomed_def by (rule exI [of _ p]) (use assms(3,4,6,13,15) c(2) in \<open>simp add: assms(8)\<close>)
qed

lemma listener_created:
  assumes "world_inv lp base w" "fresh_fd (nc_fd n) (w_sys w)" "p \<noteq> 0" "w_heap w p = None"
    and "c = new_connection n k\<lparr>cn_type := VR_CONN_CLIENT\<rparr>" "k = mgr_count (w_mgr w)"
    and "vr_connection_create (Some (w_mgr w)) n (w_heap w) (w_sys w) =
      Some (p, Some m', (w_heap w)(p \<mapsto> new_connection n k), s1)"
    and "mgr_inv m' ((w_heap w)(p \<mapsto> c))" "managed m' = managed (w_mgr w) @ [p]" "unat (mgr_capacity m') \<le> 2 ^ 32"
    and "heap_frame (w_sys w) s1" "blocks s1 = blocks (w_sys w) + 1"
  shows "\<exists>w'. listener_accepted n w = Some w' \<and> joined lp base n w w'"
proof -
  let ?h = "(w_heap w)(p \<mapsto> c)"
  have c: "conn_fd c = nc_fd n" "conn_inv c" "cn_type c = VR_CONN_CLIENT" "conn_blocks c = 1"
    using conn_inv_new [of n k] conn_blocks_new [of n k] assms(5)
    by (simp_all add: new_connection_def conn_inv_def conn_blocks_def)
  have fr: "fresh_fd (conn_fd c) (w_sys w)" using assms(2) c(1) by simp
  note hf = heap_frame_fields [OF assms(11)]
  have un: "replies_ok s1" using heap_frame_replies [OF assms(11)] world_invD(9) [OF assms(1)] by simp
  obtain r s2 where nb: "vr_socket_set_non_blocking (conn_fd c) s1 = (r, s2)" by fastforce
  note q = non_blocking_quiet [OF nb]
  have s2: "blocks s2 = blocks (w_sys w) + 1" "replies_ok s2" "interest s2 = interest (w_sys w)"
      "accepts s2 = accepts (w_sys w)" "closed s2 = closed (w_sys w)"
    using q assms(12) un hf unfolding replies_ok_def quiet_def by simp_all
  have calm2: "calm (w_sys w) s2" using calm_trans [OF calm_intros(2) [OF assms(11)] calm_intros(1)] q by blast
  obtain ra s3 where ct: "epoll_ctl_call EPOLL_CTL_ADD (conn_fd c) p (EPOLLIN OR EPOLLET) s2 = (ra, s3)" by fastforce
  note e = epoll_ctl_frame [OF ct] epoll_add_interest [OF ct]
  have calm3: "calm (w_sys w) s3" by (rule calm_trans [OF calm2 calm_intros(4) [OF ct]])
  note created = assms(1) fr assms(3,4,8,9,10) c(2-4)
  have new: "new_connection n k\<lparr>cn_type := VR_CONN_CLIENT\<rparr> = c" "conn_fd (new_connection n k) = conn_fd c"
    using assms(5) by simp_all
  show ?thesis
  proof (cases "r = VR_SUCCESS \<and> ra \<noteq> -1")
    case True
    have run: "listener_accepted n w = Some (w\<lparr>w_mgr := m', w_heap := ?h, w_sys := s3\<rparr>)"
      using assms(3,7) nb ct True by (simp add: listener_accepted_def vr_reactor_add_def new Let_def)
    have s3: "blocks s3 = blocks (w_sys w) + 1" "replies_ok s3"
        "interest s3 = (interest (w_sys w))(conn_fd c \<mapsto> (p, EPOLLIN OR EPOLLET))" "closed s3 = closed (w_sys w)"
      using e s2 True by (auto simp: replies_ok_def)
    note w = world_welcome [OF assms(1) fr assms(3,4,8,9,10,5) [unfolded assms(6)] c(2,4) s3(1-3) calm3 s3(4)]
    show ?thesis using run w e(4) s2(4) by (simp add: joined_def)
  next
    case False
    let ?s = "if r = VR_SUCCESS then s3 else s2"
    have "interest s3 = interest s2" if "r = VR_SUCCESS" using e(10) False that by auto
    then have s: "blocks ?s = blocks (w_sys w) + 1" "replies_ok ?s" "interest ?s = interest (w_sys w)" "calm (w_sys w) ?s"
        "accepts ?s = accepts (w_sys w)" "closed ?s = closed (w_sys w)"
      using s2 e(1-5,7) calm2 calm3 by (simp_all add: replies_ok_def)
    obtain m2 h2 s4 where d: "vr_connection_destroy (Some m') p ?h (close_call (conn_fd c) ?s) = Some (VR_SUCCESS, Some m2, h2, s4)"
        "stepped lp base lp w (w\<lparr>w_mgr := m2, w_heap := h2, w_sys := s4\<rparr>)" "heap_frame (close_call (conn_fd c) ?s) s4"
        "dom h2 = dom (w_heap w)"
      by (rule world_withdraw [OF created s(1-4)])
    then have run: "listener_accepted n w = Some (w\<lparr>w_mgr := m2, w_heap := h2, w_sys := s4\<rparr>)"
      using assms(3,7) nb ct False
      by (cases "r = VR_SUCCESS") (simp_all add: listener_accepted_def vr_reactor_add_def new Let_def)
    have "interest s4 = interest (w_sys w)" "closed s4 = closed (w_sys w) @ [nc_fd n]" "accepts s4 = accepts (w_sys w)"
      using heap_frame_fields(3,8,10) [OF d(3)] s(3,5,6) c(1) fr by (auto simp: close_call_def fresh_fd_def)
    then show ?thesis using run d(2,4) by (simp add: joined_def turned_away_def)
  qed
qed

lemma listener_accepted_world:
  assumes "world_inv lp base w" "fresh_fd (nc_fd n) (w_sys w)"
  shows "\<exists>w'. listener_accepted n w = Some w' \<and> joined lp base n w w'"
proof -
  note I = world_invD [OF assms(1)]
  have cap: "unat (mgr_capacity (w_mgr w)) < 2 ^ 59" using I(2) by simp
  show ?thesis
  proof (cases rule: connection_create_spec [OF I(1) cap, of n "w_sys w"])
    case (1 m' s')
    let ?w' = "w\<lparr>w_mgr := m', w_sys := close_call (nc_fd n) s'\<rparr>"
    note hf = heap_frame_fields [OF 1(5)]
    have int: "interest (close_call (nc_fd n) s') = interest (w_sys w)"
      using hf(8) assms(2) by (auto simp: fresh_fd_def)
    have wi: "world_inv lp base ?w'"
      using assms(1) 1(2,3,6) int capacity_stays [OF assms(1) 1(7)] heap_frame_replies [OF 1(5) I(9)]
      by (simp add: world_inv_def client_ok_def interest_ok_def replies_ok_def)
    have "stepped lp base lp w ?w'"
      using int calm_trans [OF calm_intros(2) [OF 1(5)] calm_intros(3)]
      by (intro stepped_calm [OF wi]) (simp_all add: talking_gone)
    moreover have "listener_accepted n w = Some ?w'" using 1(1) by (simp add: listener_accepted_def)
    ultimately show ?thesis using hf(3,10) int by (simp add: joined_def turned_away_def) (simp add: close_call_def)
  next
    case (2 p m' s')
    let ?c = "new_connection n (mgr_count (w_mgr w))\<lparr>cn_type := VR_CONN_CLIENT\<rparr>"
    have "mgr_inv m' ((w_heap w)(p \<mapsto> ?c))" by (rule mgr_inv_update [OF 2(4)]) auto
    from listener_created [OF assms 2(2,3) refl refl 2(1) this 2(5) capacity_stays [OF assms(1) 2(8)] 2(6,7)]
    show ?thesis .
  qed
qed

section \<open>The listener's loop\<close>

lemma accept_loop_world:
  assumes "world_inv lp base w"
  shows "\<exists>w'. accept_loop fd w = Some w' \<and> stepped lp base lp w w'"
  using assms
proof (induction "length (accepts (w_sys w))" arbitrary: w rule: less_induct)
  case less
  show ?case
  proof (cases rule: tcp_accept_cases [of fd net_conn_zero "w_sys w"])
    case (none r n s')
    then have "accept_loop fd w = Some (w\<lparr>w_sys := s'\<rparr>)" by (subst accept_loop.simps) simp
    then show ?thesis using stepped_quiet [OF none(3) less.prems] by simp
  next
    case (got n s')
    let ?w = "w\<lparr>w_sys := s'\<rparr>"
    have st: "stepped lp base lp w ?w" by (rule stepped_quiet [OF got(4) less.prems])
    obtain w1 where w1: "listener_accepted n ?w = Some w1" "joined lp base n ?w w1"
      using listener_accepted_world [OF steppedD(1) [OF st]] got(2) by auto
    have st1: "stepped lp base lp ?w w1" and sh: "length (accepts (w_sys w1)) < length (accepts (w_sys w))"
      using w1(2) got(3) by (simp_all add: joined_def)
    obtain w' where w': "accept_loop fd w1 = Some w'" "stepped lp base lp w1 w'"
      using less.hyps [OF sh steppedD(1) [OF st1]] by blast
    have "accept_loop fd w = Some w'" using got(1) w1(1) w'(1) by (subst accept_loop.simps) simp
    then show ?thesis using stepped_trans [OF st stepped_trans [OF st1 w'(2)]] by blast
  qed
qed

section \<open>Events\<close>

lemma talks_listener:
  assumes "world_inv lp base w'"
  shows "talks lp w w'"
  using world_invD(6) [OF assms] by (auto simp: talks_def talking_def)

lemma handle_event_world:
  assumes "world_inv lp base w" "p \<in> dom (w_heap w)"
  shows "\<exists>w'. handle_event (p, ev) w = Some w' \<and> stepped lp base p w w' \<and> talks p w w'"
proof (cases "p = lp")
  case True
  then obtain lc where lc: "w_heap w p = Some lc" "cn_type lc = VR_CONN_LISTENER" using world_invD(6) [OF assms(1)] by blast
  obtain w' where w': "accept_loop (conn_fd lc) w = Some w'" "stepped lp base lp w w'"
    using accept_loop_world [OF assms(1)] by blast
  have "handle_event (p, ev) w = Some w'" using lc w'(1) by (simp add: handle_event_def reactor_handle_listener_event_def)
  then show ?thesis using w'(2) talks_listener [OF steppedD(1) [OF w'(2)]] True by blast
next
  case False
  then have p: "p \<in> set (managed (w_mgr w))" using assms world_invD(3) [OF assms(1)] by auto
  obtain c where c: "w_heap w p = Some c" "client_ok (w_sys w) p c" by (rule world_inv_client [OF assms(1) p])
  then show ?thesis using client_event_world [OF assms(1) p, of ev] by (simp add: handle_event_def client_ok_def)
qed

text \<open>The contract between the dispatcher and the handlers: a handler of \<open>p\<close> takes nobody but \<open>p\<close> away and changes
  nothing that belongs to the others.\<close>

locale event_handlers =
  fixes ok :: "'w \<Rightarrow> bool" and live :: "'w \<Rightarrow> nat set" and handle :: "nat \<times> 'e \<Rightarrow> 'w \<Rightarrow> 'w option"
    and kept :: "'w \<Rightarrow> 'k" and own :: "'w \<Rightarrow> nat \<Rightarrow> 'o"
  assumes handler: "ok w \<Longrightarrow> p \<in> live w \<Longrightarrow>
    \<exists>w'. handle (p, e) w = Some w' \<and> ok w' \<and> kept w' = kept w \<and> (\<forall>q\<in>live w - {p}. q \<in> live w' \<and> own w' q = own w q)"

primrec handle_each :: "('e \<Rightarrow> 'w \<Rightarrow> 'w option) \<Rightarrow> 'e list \<Rightarrow> 'w \<Rightarrow> 'w option" where
  "handle_each f [] w = Some w"
| "handle_each f (e # es) w = do {
     w \<leftarrow> f e w;
     handle_each f es w
   }"

context event_handlers
begin

text \<open>A batch of events: every connection that has an event pending is still alive when its turn comes, and those
  without an event are untouched.\<close>

lemma batch:
  assumes "ok w" "distinct (map fst evs)" "fst ` set evs \<subseteq> live w"
  shows "\<exists>w'. handle_each handle evs w = Some w' \<and> ok w' \<and> kept w' = kept w \<and>
    (\<forall>q\<in>live w - fst ` set evs. q \<in> live w' \<and> own w' q = own w q)"
  using assms
proof (induction evs arbitrary: w)
  case Nil
  then show ?case by simp
next
  case (Cons x evs)
  obtain p e where x: "x = (p, e)" by fastforce
  have "p \<in> live w" using Cons.prems(3) x by auto
  then obtain w1 where w1: "handle (p, e) w = Some w1" "ok w1" "kept w1 = kept w"
      "\<forall>q\<in>live w - {p}. q \<in> live w1 \<and> own w1 q = own w q"
    using handler [OF Cons.prems(1)] by blast
  have sub: "fst ` set evs \<subseteq> live w1" using Cons.prems(2,3) x w1(4) by auto
  have dis: "distinct (map fst evs)" using Cons.prems(2) by simp
  obtain w' where w': "handle_each handle evs w1 = Some w'" "ok w'" "kept w' = kept w1"
      "\<forall>q\<in>live w1 - fst ` set evs. q \<in> live w' \<and> own w' q = own w1 q"
    using Cons.IH [OF w1(2) dis sub] by blast
  have "q \<in> live w' \<and> own w' q = own w q" if "q \<in> live w - fst ` set (x # evs)" for q
  proof -
    have "q \<in> live w - {p}" "q \<notin> fst ` set evs" using that x by auto
    then show ?thesis using w1(4) w'(4) by simp
  qed
  then show ?case using x w1(1,3) w'(1,2,3) by simp
qed

end

lemma handle_events_each: "handle_events evs w = handle_each handle_event evs w"
  by (induction evs arbitrary: w) simp_all

section \<open>Waiting\<close>

lemma ready_list_fds:
  assumes "p \<in> fst ` set (ready_list reg seen xs)"
  shows "\<exists>fd ev. fd \<notin> set seen \<and> reg fd = Some (p, ev)"
  using assms
proof (induction xs arbitrary: seen)
  case (Cons x xs)
  obtain fd ev where x: "x = (fd, ev)" by fastforce
  consider "p \<in> fst ` set (ready_list reg seen xs)"
    | e where "reg fd = Some (p, e)" "fd \<notin> set seen"
    | "p \<in> fst ` set (ready_list reg (fd # seen) xs)"
    using Cons.prems x by (cases "reg fd") (auto split: if_splits)
  then show ?case
  proof cases
    case 3
    then show ?thesis using Cons.IH [of "fd # seen"] by auto
  qed (use Cons.IH [of seen] in blast)+
qed simp

lemma ready_list_distinct:
  assumes "\<And>fd fd' p ev ev'. reg fd = Some (p, ev) \<Longrightarrow> reg fd' = Some (p, ev') \<Longrightarrow> fd = fd'"
  shows "distinct (map fst (ready_list reg seen xs))"
proof (induction xs arbitrary: seen)
  case (Cons x xs)
  obtain fd ev where x: "x = (fd, ev)" by fastforce
  have "p \<notin> fst ` set (ready_list reg (fd # seen) xs)" if "reg fd = Some (p, e)" for p e
    using ready_list_fds [of p reg "fd # seen" xs] assms [OF that] by auto
  then show ?case using Cons.IH x by (cases "reg fd") auto
qed simp

lemma wait_world:
  assumes "world_inv lp base w"
  obtains (failed) sig s' r' where "vr_reactor_wait (Some (w_reactor w)) (w_sys w) = (VR_ERROR, sig, Some r', s')"
      "quiet (w_sys w) (s'\<lparr>waits := waits (w_sys w)\<rparr>)"
  | (ready) sig evs s' r' where "vr_reactor_wait (Some (w_reactor w)) (w_sys w) = (VR_SUCCESS, sig, Some r', s')"
      "quiet (w_sys w) (s'\<lparr>waits := waits (w_sys w)\<rparr>)" "length (waits s') < length (waits (w_sys w))"
      "take (nat (re_ready_events r')) (re_events r') = evs"
      "distinct (map fst evs)" "fst ` set evs \<subseteq> dom (w_heap w)"
proof (cases "waits (w_sys w)")
  case Nil
  then show thesis
    by (intro failed [of True "w_reactor w" "w_sys w\<lparr>errno := EINTR\<rparr>"])
      (simp_all add: vr_reactor_wait_def epoll_wait_call_def quiet_def)
next
  case (Cons a ws)
  show thesis
  proof (cases a)
    case (Wait_error e sig)
    then show thesis using Cons
      by (intro failed [of sig "w_reactor w" "w_sys w\<lparr>errno := e, waits := ws\<rparr>"])
        (simp_all add: vr_reactor_wait_def epoll_wait_call_def quiet_def)
  next
    case (Wait_ready xs sig)
    let ?evs = "ready_list (interest (w_sys w)) [] xs" and ?s = "w_sys w\<lparr>waits := ws\<rparr>"
    let ?r = "w_reactor w\<lparr>re_events := take VR_REACTOR_MAX_EVENTS ?evs,
      re_ready_events := int (length (take VR_REACTOR_MAX_EVENTS ?evs))\<rparr>"
    have ok: "interest_ok (w_heap w) (w_sys w)" by (rule world_invD(7) [OF assms])
    have "distinct (map fst ?evs)"
    proof (rule ready_list_distinct)
      fix fd fd' p ev ev'
      assume "interest (w_sys w) fd = Some (p, ev)" "interest (w_sys w) fd' = Some (p, ev')"
      then show "fd = fd'" using ok unfolding interest_ok_def by (metis option.inject)
    qed
    then have di: "distinct (map fst (take VR_REACTOR_MAX_EVENTS ?evs))" by (simp add: take_map [symmetric])
    have "fst ` set ?evs \<subseteq> dom (w_heap w)"
    proof
      fix p
      assume "p \<in> fst ` set ?evs"
      then obtain fd ev where "interest (w_sys w) fd = Some (p, ev)" using ready_list_fds by blast
      then show "p \<in> dom (w_heap w)" using ok unfolding interest_ok_def by blast
    qed
    then have su: "fst ` set (take VR_REACTOR_MAX_EVENTS ?evs) \<subseteq> dom (w_heap w)"
      using image_mono [OF set_take_subset] by (rule subset_trans [rotated])
    show thesis
      by (rule ready [of sig ?r ?s, OF _ _ _ _ di su])
        (use Cons Wait_ready in \<open>simp_all add: vr_reactor_wait_def epoll_wait_call_def quiet_def min_def\<close>)
  qed
qed

section \<open>The event loop\<close>

text \<open>What has to be shown of a property of the server so that it holds as long as the loop runs: waiting keeps it, and so
  does the event of any one connection.\<close>

locale loop_invariant =
  fixes ok :: "world \<Rightarrow> bool" and lp :: conn_ptr and base :: int
  assumes server: "ok w \<Longrightarrow> world_inv lp base w"
    and idle: "ok w \<Longrightarrow> w_mgr w' = w_mgr w \<Longrightarrow> w_heap w' = w_heap w \<Longrightarrow>
      quiet (w_sys w) (w_sys w'\<lparr>waits := waits (w_sys w)\<rparr>) \<Longrightarrow> ok w'"
    and event: "ok w \<Longrightarrow> stepped lp base p w w' \<Longrightarrow> talks p w w' \<Longrightarrow> ok w'"

sublocale loop_invariant \<subseteq> events: event_handlers ok "\<lambda>w. dom (w_heap w)" handle_event
  "\<lambda>w. (w_reactor w, w_status w, waits (w_sys w))" view
proof
  fix w p e
  assume o: "ok w" and p: "p \<in> dom (w_heap w)"
  obtain w' where w': "handle_event (p, e) w = Some w'" "stepped lp base p w w'" "talks p w w'"
    using handle_event_world [OF server [OF o] p] by blast
  have "q \<in> dom (w_heap w') \<and> view w' q = view w q" if "q \<in> dom (w_heap w) - {p}" for q
    using stepped_dom [OF w'(2)] steppedD(6) [OF w'(2), of q] that by auto
  then show "\<exists>w'. handle_event (p, e) w = Some w' \<and> ok w' \<and>
      (w_reactor w', w_status w', waits (w_sys w')) = (w_reactor w, w_status w, waits (w_sys w)) \<and>
      (\<forall>q\<in>dom (w_heap w) - {p}. q \<in> dom (w_heap w') \<and> view w' q = view w q)"
    using w'(1) steppedD(2-4) [OF w'(2)] event [OF o w'(2,3)] by simp
qed

context loop_invariant
begin

lemma batch_kept:
  assumes "ok w" "distinct (map fst evs)" "fst ` set evs \<subseteq> dom (w_heap w)"
  obtains w' where "handle_events evs w = Some w'" "ok w'" "waits (w_sys w') = waits (w_sys w)"
    "\<forall>q\<in>dom (w_heap w) - fst ` set evs. view w' q = view w q"
proof -
  obtain w' where w': "handle_each handle_event evs w = Some w'" "ok w'"
      "(w_reactor w', w_status w', waits (w_sys w')) = (w_reactor w, w_status w, waits (w_sys w))"
      "\<forall>q\<in>dom (w_heap w) - fst ` set evs. q \<in> dom (w_heap w') \<and> view w' q = view w q"
    using events.batch [OF assms] by blast
  show thesis by (rule that [of w']) (use w' in \<open>simp_all add: handle_events_each\<close>)
qed

text \<open>Every run of the loop ends: here because the script of \<open>epoll_wait\<close> answers is finite and its end is a signal.\<close>

lemma loop_kept:
  assumes "ok w"
  shows "\<exists>w'. event_loop w = Some w' \<and> ok w'"
  using assms
proof (induction "length (waits (w_sys w))" arbitrary: w rule: less_induct)
  case less
  show ?case
  proof (cases "w_status w = RUNNING")
    case False
    then show ?thesis using less.prems by (subst event_loop.simps) simp
  next
    case True
    show ?thesis
    proof (cases rule: wait_world [OF server [OF less.prems]])
      case (1 sig s' r')
      let ?w = "w\<lparr>w_reactor := r', w_sys := s', w_status := (if sig then snd (handle_shutdown (w_status w)) else w_status w)\<rparr>"
      have "event_loop w = Some ?w" using 1(1) True by (subst event_loop.simps) simp
      moreover have "ok ?w" by (rule idle [OF less.prems]) (use 1(2) in simp_all)
      ultimately show ?thesis by blast
    next
      case (2 sig evs s' r')
      let ?w = "w\<lparr>w_reactor := r', w_sys := s', w_status := (if sig then snd (handle_shutdown (w_status w)) else w_status w)\<rparr>"
      have wi: "ok ?w" by (rule idle [OF less.prems]) (use 2(2) in simp_all)
      have ev: "distinct (map fst evs)" "fst ` set evs \<subseteq> dom (w_heap ?w)" using 2(5,6) by simp_all
      obtain w1 where w1: "handle_events evs ?w = Some w1" "ok w1" "waits (w_sys w1) = waits s'"
        by (rule batch_kept [OF wi ev]) simp
      let ?w1 = "w1\<lparr>w_reactor := (w_reactor w1)\<lparr>re_ready_events := 0\<rparr>\<rparr>"
      have sh: "length (waits (w_sys ?w1)) < length (waits (w_sys w))" using w1(3) 2(3) by simp
      have wi1: "ok ?w1" by (rule idle [OF w1(2)]) (simp_all add: quiet_def)
      have "event_loop w = event_loop ?w1"
        using 2(1,4) True w1(1) by (subst event_loop.simps) (simp add: Let_def)
      then show ?thesis using less.hyps [OF sh wi1] by simp
    qed
  qed
qed

end

text \<open>The first instance is the invariant itself.\<close>

lemma world_inv_fields:
  "world_inv lp base w \<Longrightarrow> w_mgr w' = w_mgr w \<Longrightarrow> w_heap w' = w_heap w \<Longrightarrow>
   quiet (w_sys w) (w_sys w'\<lparr>waits := waits (w_sys w)\<rparr>) \<Longrightarrow> world_inv lp base w'"
  by (simp add: quiet_def world_inv_def client_ok_def interest_ok_def replies_ok_def)

interpretation safety: loop_invariant "world_inv lp base" lp base for lp base
  by unfold_locales (simp_all add: world_inv_fields steppedD(1))

text \<open>The second: \<open>conversing lp base w\<close>: there is memory, and every client's state and output are explained by its input.\<close>

definition conversing :: "conn_ptr \<Rightarrow> int \<Rightarrow> world \<Rightarrow> bool" where
  "conversing lp base w \<longleftrightarrow> world_inv lp base w \<and> unlimited (w_sys w) \<and> (\<forall>p. \<exists>ins outs. talking ins outs w p)"

lemma conversing_step:
  assumes "conversing lp base w" "stepped lp base p w w'" "talks p w w'"
  shows "conversing lp base w'"
proof -
  have un: "unlimited (w_sys w)" using assms(1) by (simp add: conversing_def)
  have "\<exists>ins outs. talking ins outs w' q" for q
  proof -
    obtain ins outs where t: "talking ins outs w q" using assms(1) unfolding conversing_def by blast
    consider "q = p" | "q \<noteq> p" "w_heap w q = None" | "q \<noteq> p" "w_heap w q \<noteq> None" by blast
    then show ?thesis
    proof cases
      case 1
      then show ?thesis using assms(3) un t unfolding talks_def by blast
    next
      case 2
      then show ?thesis by (rule steppedD(7) [OF assms(2)])
    next
      case 3
      then show ?thesis using talking_view [OF steppedD(6) [OF assms(2) 3] t] by blast
    qed
  qed
  then show ?thesis using steppedD(1,5) [OF assms(2)] un unfolding conversing_def by blast
qed

lemma conversing_fields:
  assumes "conversing lp base w" "w_mgr w' = w_mgr w" "w_heap w' = w_heap w"
    and "quiet (w_sys w) (w_sys w'\<lparr>waits := waits (w_sys w)\<rparr>)"
  shows "conversing lp base w'"
proof -
  have s: "rcvd (w_sys w') = rcvd (w_sys w)" "sent (w_sys w') = sent (w_sys w)" "unlimited (w_sys w') = unlimited (w_sys w)"
    using assms(4) unlimited_same [of "w_sys w'" "w_sys w"] by (simp_all add: quiet_def)
  have "talking ins outs w' p = talking ins outs w p" for ins outs p
    using s(1,2) assms(3) by (simp add: talking_def conversation_def)
  then show ?thesis using assms(1) world_inv_fields [OF _ assms(2-4)] s(3) by (simp add: conversing_def)
qed

interpretation transducer: loop_invariant "conversing lp base" lp base for lp base
  by unfold_locales (simp add: conversing_def, erule (3) conversing_fields, erule (2) conversing_step)

section \<open>Shutdown\<close>

lemma shutdown_loop_spec:
  assumes "mgr_inv m h" "0 \<notin> set (managed m)" "finite (dom h)"
  shows "\<exists>m' h' s'. shutdown_loop m h s = Some (m', h', s') \<and> managed m' = [] \<and> dom h' = dom h - set (managed m) \<and>
    (\<forall>q. q \<notin> set (managed m) \<longrightarrow> h' q = h q) \<and> heap_frame s s' \<and> blocks s' - heap_blocks h' = blocks s - heap_blocks h"
  using assms
proof (induction "unat (mgr_count m)" arbitrary: m h s rule: less_induct)
  case less
  show ?case
  proof (cases "mgr_count m = 0")
    case True
    then have "managed m = []" using length_managed [OF less.prems(1)] by simp
    then show ?thesis using True by (subst shutdown_loop.simps) simp
  next
    case False
    then have pos: "0 < unat (mgr_count m)" by (simp add: unat_gt_0)
    have "mgr_slots m \<noteq> None" using less.prems(1) False by (cases "mgr_slots m") (auto simp: mgr_inv_def)
    then obtain xs where xs: "mgr_slots m = Some xs" "length xs = unat (mgr_capacity m)"
        "managed m = take (unat (mgr_count m)) xs" "unat (mgr_count m) \<le> unat (mgr_capacity m)"
      by (rule mgr_invD [OF less.prems(1)])
    let ?p = "xs ! 0"
    have get: "mem_get (mgr_slots m) 0 = Some ?p" using xs pos by (simp add: mem_get_def)
    have pm: "?p \<in> set (managed m)" using xs pos by (auto simp: in_set_conv_nth)
    then have p0: "?p \<noteq> 0" using less.prems(2) by metis
    obtain c where c: "h ?p = Some c" by (rule managed_live [OF less.prems(1) pm])
    obtain m1 h1 s1 where d: "vr_connection_destroy (Some m) ?p h s = Some (VR_SUCCESS, Some m1, h1, s1)"
        "destroyed m h ?p c m1 h1" "heap_frame s s1" "blocks s1 = blocks s - conn_blocks c"
      by (rule connection_destroy_spec [OF less.prems(1) pm c p0])
    have m1: "mgr_inv m1 h1" "mgr_count m1 = mgr_count m - 1" "\<forall>q. q \<notin> set (managed m) \<longrightarrow> h1 q = h q"
      using d(2) by (auto simp: destroyed_def)
    have sh: "unat (mgr_count m1) < unat (mgr_count m)" using m1(2) False pos by (simp add: unat_minus_one)
    have ms: "set (managed m1) = set (managed m) - {?p}" by (rule destroyed_members [OF less.prems(1) pm c d(2)])
    have dm: "dom h1 = dom h - {?p}" by (rule destroyed_dom [OF c d(2)])
    have bl: "heap_blocks h1 = heap_blocks h - conn_blocks c" by (rule destroyed_blocks [OF c d(2) less.prems(3)])
    obtain m' h' s' where ih: "shutdown_loop m1 h1 s1 = Some (m', h', s')" "managed m' = []"
        "dom h' = dom h1 - set (managed m1)" "\<forall>q. q \<notin> set (managed m1) \<longrightarrow> h' q = h1 q" "heap_frame s1 s'"
        "blocks s' - heap_blocks h' = blocks s1 - heap_blocks h1"
      using less.hyps [OF sh m1(1), of s1] less.prems(2,3) ms dm by auto
    have "shutdown_loop m h s = Some (m', h', s')"
      using get d(1) ih(1) False by (subst shutdown_loop.simps) (simp add: word_gt_0)
    moreover have "dom h' = dom h - set (managed m)" using ih(3) dm ms pm by auto
    moreover have "\<forall>q. q \<notin> set (managed m) \<longrightarrow> h' q = h q" using ih(4) m1(3) ms by auto
    ultimately show ?thesis using ih(2,6) d(4) bl heap_frame_trans [OF d(3) ih(5)] by auto
  qed
qed

lemma shutdown_world:
  assumes "world_inv lp base w"
  obtains w' where "reactor_shutdown lp fd w = Some w'" "w_heap w' = Map.empty" "managed (w_mgr w') = []"
    "blocks (w_sys w') = base"
    "\<exists>ep. closed (w_sys w') = closed (w_sys w) @ fd # ep \<and> set ep \<subseteq> {re_epoll_fd (w_reactor w)}"
proof -
  note I = world_invD [OF assms]
  have z: "0 \<notin> set (managed (w_mgr w))" using I(3,5) by (metis domIff insertI2)
  obtain m' h' s' where l: "shutdown_loop (w_mgr w) (w_heap w) (w_sys w) = Some (m', h', s')" "managed m' = []"
      "dom h' = dom (w_heap w) - set (managed (w_mgr w))" "\<forall>q. q \<notin> set (managed (w_mgr w)) \<longrightarrow> h' q = w_heap w q"
      "heap_frame (w_sys w) s'" "blocks s' - heap_blocks h' = blocks (w_sys w) - heap_blocks (w_heap w)"
    using shutdown_loop_spec [OF I(1) z I(10)] by blast
  obtain lc where lc: "w_heap w lp = Some lc" "conn_blocks lc = 1" using I(6) by blast
  have h': "h' lp = Some lc" "dom h' = {lp}" using l(3,4) I(3,4) lc(1) by auto
  then have he: "h'(lp := None) = Map.empty" by (auto simp: fun_eq_iff dom_def)
  have hb: "heap_blocks h' = 1" using h' lc(2) by (simp add: heap_blocks_def)
  obtain r1 s1 where ct: "epoll_ctl_call EPOLL_CTL_DEL (conn_fd lc) 0 0 s' = (r1, s1)" by fastforce
  note e = epoll_ctl_frame [OF ct]
  let ?s2 = "c_free (Some lp) (close_call fd s1)"
  obtain r2 s3 where cl: "close_epoll_call (re_epoll_fd (w_reactor w)) ?s2 = (r2, s3)" by fastforce
  have s3: "blocks s3 = blocks ?s2" "\<exists>ep. closed s3 = closed ?s2 @ ep \<and> set ep \<subseteq> {re_epoll_fd (w_reactor w)}"
    using cl by (auto simp: close_epoll_call_def ret_call_def close_call_def split: list.splits sum.splits if_splits)
  have s2: "blocks ?s2 = base" "closed ?s2 = closed (w_sys w) @ [fd]"
    using e(1,5) l(6) hb I(8) heap_frame_fields(10) [OF l(5)] by (simp_all add: blocks_free c_free_def close_call_def)
  have rem: "\<exists>r. vr_reactor_remove (Some (w_reactor w)) lp h' s' = Some (r, s1)"
    using h'(1) ct by (simp add: vr_reactor_remove_def)
  let ?r = "if r2 = -1 then w_reactor w else w_reactor w\<lparr>re_epoll_fd := -1\<rparr>"
  have "\<exists>r. vr_reactor_destroy (Some (w_reactor w)) ?s2 = (r, Some ?r, s3)"
    using cl by (simp add: vr_reactor_destroy_def)
  then have "reactor_shutdown lp fd w = Some (w\<lparr>w_reactor := ?r, w_mgr := m', w_heap := h'(lp := None), w_sys := s3\<rparr>)"
    using l(1) rem h'(1) by (auto simp: reactor_shutdown_def)
  then show thesis by (rule that) (use he l(2) s2 s3 in auto)
qed

section \<open>Start-up\<close>

lemma socket_calls_quiet:
  "vr_socket_create s = (fd, s') \<Longrightarrow> quiet s s'"
  "vr_socket_bind addr x s = (r, s') \<Longrightarrow> quiet s s'"
  "vr_socket_listen x s = (r, s') \<Longrightarrow> quiet s s'"
  "vr_socket_set_reuseaddr x s = (r, s') \<Longrightarrow> quiet s s'"
  by (auto simp: vr_socket_create_def vr_socket_bind_def vr_socket_listen_def vr_socket_set_reuseaddr_def
      split: prod.splits if_splits dest!: ret_call_quiet)

lemma server_create_quiet:
  assumes "vr_tcp_server_create port (Some x) s = (r, fd, s')" "interest s = Map.empty"
  shows "fd \<noteq> None" "quiet s s'"
proof -
  obtain f s1 where 1: "vr_socket_create s = (f, s1)" by fastforce
  obtain r2 s2 where 2: "vr_socket_set_reuseaddr f s1 = (r2, s2)" by fastforce
  obtain r3 s3 where 3: "vr_socket_bind (snd (vr_server_addr_init (Some sockaddr_zero) port)) f s2 = (r3, s3)" by fastforce
  obtain r4 s4 where 4: "vr_socket_listen f s3 = (r4, s4)" by fastforce
  note q1 = socket_calls_quiet(1) [OF 1]
  note q2 = quiet_trans [OF q1 socket_calls_quiet(4) [OF 2]]
  note q3 = quiet_trans [OF q2 socket_calls_quiet(2) [OF 3]]
  note q4 = quiet_trans [OF q3 socket_calls_quiet(3) [OF 4]]
  have cl: "quiet s (close_call f t)" if "quiet s t" for t
    using that assms(2) by (auto simp: quiet_def)
  show "fd \<noteq> None" "quiet s s'"
    using assms(1) 1 2 3 4 q1 cl [OF q2] cl [OF q3] cl [OF q4] q4
    by (auto simp: vr_tcp_server_create_def vr_server_addr_init_def split: if_splits)
qed

text \<open>The world in which \<open>vr_reactor_loop\<close> starts.\<close>

definition world_start :: "int \<Rightarrow> world \<Rightarrow> bool" where
  "world_start base w \<longleftrightarrow> w_heap w = Map.empty \<and> mgr_inv (w_mgr w) Map.empty \<and> managed (w_mgr w) = [] \<and>
     unat (mgr_capacity (w_mgr w)) \<le> 2 ^ 32 \<and> interest (w_sys w) = Map.empty \<and> blocks (w_sys w) = base \<and> replies_ok (w_sys w)"

lemma reactor_create_quiet:
  assumes "vr_reactor_create (Some r) s = (res, r', s')"
  shows "r' \<noteq> None" "quiet s s'"
  using assms by (auto simp: vr_reactor_create_def split: prod.splits if_splits dest!: ret_call_quiet)

lemma reactor_destroy_quiet:
  assumes "vr_reactor_destroy (Some r) s = (res, r', s')" "interest s = Map.empty"
  shows "r' \<noteq> None" "quiet s s'"
  using assms
  by (auto simp: vr_reactor_destroy_def close_epoll_call_def quiet_def
      split: prod.splits if_splits dest!: ret_call_quiet)

text \<open>A failed start-up: the worlds in which it leaves nothing behind.\<close>

definition start_failed :: "int \<Rightarrow> (vr_result_t \<times> (conn_ptr \<times> int) option \<times> world) option \<Rightarrow> bool" where
  "start_failed base res \<longleftrightarrow> (\<exists>w'. res = Some (VR_ERROR, None, w') \<and> w_heap w' = Map.empty \<and>
     managed (w_mgr w') = [] \<and> blocks (w_sys w') = base)"

lemma bootstrap_abort:
  assumes "world_start base w" "interest s = Map.empty" "blocks s = base"
  shows "start_failed base (case vr_reactor_destroy (Some r) s of (_, r, s) \<Rightarrow> do {
            r \<leftarrow> r;
            Some (VR_ERROR, None, w\<lparr>w_reactor := r, w_heap := Map.empty, w_sys := s\<rparr>)
          })"
proof -
  obtain res r' s' where d: "vr_reactor_destroy (Some r) s = (res, r', s')" by (metis prod_cases3)
  then show ?thesis using reactor_destroy_quiet [OF d assms(2)] assms(1,3)
    by (auto simp: start_failed_def world_start_def quiet_def)
qed

text \<open>The end of a successful start-up.\<close>

lemma listener_world:
  assumes "world_start base w" "lp \<noteq> 0" "conn_blocks lc = 1" "cn_type lc = VR_CONN_LISTENER"
    and "blocks s' = base + 1" "replies_ok s'" "interest s' = [conn_fd lc \<mapsto> (lp, ev)]"
  shows "world_inv lp base (w\<lparr>w_reactor := r, w_heap := [lp \<mapsto> lc], w_sys := s'\<rparr>)"
proof -
  have "mgr_inv (w_mgr w) [lp \<mapsto> lc]"
    by (rule mgr_inv_update [of _ Map.empty]) (use assms(1) in \<open>auto simp: world_start_def\<close>)
  moreover have "heap_blocks [lp \<mapsto> lc] = 1" using assms(3) by (simp add: heap_blocks_def)
  ultimately show ?thesis
    using assms by (auto simp: world_inv_def world_start_def interest_ok_def split: if_splits)
qed

lemma bootstrap_listening:
  assumes "world_start base w" "interest s = Map.empty" "blocks s = base" "replies_ok s"
    and "vr_reactor_create (Some (w_reactor w)) (w_sys w) = (VR_SUCCESS, Some r, s1)"
    and "vr_tcp_server_create (of_int port) (Some 0) s1 = (VR_SUCCESS, Some fd, s2)"
    and "vr_socket_set_non_blocking fd s2 = (VR_SUCCESS, s)"
  shows "start_failed base (reactor_bootstrap_listener port w) \<or>
    (\<exists>lp w'. reactor_bootstrap_listener port w = Some (VR_SUCCESS, Some (lp, fd), w') \<and> world_inv lp base w')"
proof -
  have he: "w_heap w = Map.empty" using assms(1) by (simp add: world_start_def)
  note run = reactor_bootstrap_listener_def Let_def assms(5-7) he
  show ?thesis
  proof (cases rule: malloc_connection_spec [of Map.empty s])
    case (null s3)
    have "start_failed base (case vr_reactor_destroy (Some r) (close_call fd s3) of (_, r, s) \<Rightarrow> do {
        r \<leftarrow> r; Some (VR_ERROR, None, w\<lparr>w_reactor := r, w_heap := Map.empty, w_sys := s\<rparr>) })"
      by (rule bootstrap_abort [OF assms(1)]) (use null assms(2,3) heap_frame_fields(8) [OF null(2)] in simp_all)
    then show ?thesis using null(1) by (simp add: run)
  next
    case (object lp s3)
    let ?c = "connection_zero\<lparr>cn_net_conn := net_conn_zero\<lparr>nc_fd := fd\<rparr>, cn_type := VR_CONN_LISTENER\<rparr>"
    have int: "interest s3 = Map.empty" using heap_frame_fields(8) [OF object(4)] assms(2) by simp
    obtain ra s4 where ct: "epoll_ctl_call EPOLL_CTL_ADD fd lp (EPOLLIN OR EPOLLET) s3 = (ra, s4)" by fastforce
    note e = epoll_ctl_frame [OF ct] epoll_add_interest [OF ct]
    show ?thesis
    proof (cases "ra = -1")
      case True
      have "start_failed base (case vr_reactor_destroy (Some r) (c_free (Some lp) (close_call fd s4)) of (_, r, s) \<Rightarrow> do {
          r \<leftarrow> r; Some (VR_ERROR, None, w\<lparr>w_reactor := r, w_heap := Map.empty, w_sys := s\<rparr>) })"
        by (rule bootstrap_abort [OF assms(1)])
          (use e True int object(5) assms(3) in \<open>auto simp: c_free_def\<close>)
      then show ?thesis using object(1,2) ct True by (simp add: run vr_reactor_add_def net_conn_zero_def)
    next
      case False
      have "world_inv lp base (w\<lparr>w_reactor := r, w_heap := [lp \<mapsto> ?c], w_sys := s4\<rparr>)"
        by (rule listener_world [OF assms(1) object(2), where ev = "EPOLLIN OR EPOLLET"])
          (use e False int object(5) assms(3,4) heap_frame_replies [OF object(4)]
            in \<open>auto simp: conn_blocks_def connection_zero_def net_conn_zero_def replies_ok_def\<close>)
      then show ?thesis using object(1,2) ct False
        by (simp add: run vr_reactor_add_def net_conn_zero_def)
    qed
  qed
qed

lemma bootstrap_world:
  assumes "world_start base w"
  shows "start_failed base (reactor_bootstrap_listener port w) \<or>
    (\<exists>lp fd w'. reactor_bootstrap_listener port w = Some (VR_SUCCESS, Some (lp, fd), w') \<and> world_inv lp base w')"
proof -
  have st: "w_heap w = Map.empty" "interest (w_sys w) = Map.empty" "blocks (w_sys w) = base" "replies_ok (w_sys w)"
      "managed (w_mgr w) = []"
    using assms by (simp_all add: world_start_def)
  obtain res r' s1 where c: "vr_reactor_create (Some (w_reactor w)) (w_sys w) = (res, r', s1)" by (metis prod_cases3)
  obtain r where r: "r' = Some r" and q1: "quiet (w_sys w) s1" using reactor_create_quiet [OF c] by blast
  have s1: "interest s1 = Map.empty" using q1 st(2) by (simp add: quiet_def)
  obtain res2 fd' s2 where c2: "vr_tcp_server_create (of_int port) (Some 0) s1 = (res2, fd', s2)" by (metis prod_cases3)
  obtain fd where fd: "fd' = Some fd" and q2: "quiet s1 s2" using server_create_quiet [OF c2 s1] by blast
  obtain res3 s3 where c3: "vr_socket_set_non_blocking fd s2 = (res3, s3)" by fastforce
  have q3: "quiet s2 s3" using non_blocking_quiet [OF c3] by simp
  have s3: "interest s3 = Map.empty" "blocks s3 = base" "replies_ok s3"
    using q1 q2 q3 st by (simp_all add: quiet_def replies_ok_def)
  consider "res \<noteq> VR_SUCCESS" | "res = VR_SUCCESS" "res2 \<noteq> VR_SUCCESS"
    | "res = VR_SUCCESS" "res2 = VR_SUCCESS" "res3 \<noteq> VR_SUCCESS"
    | "res = VR_SUCCESS" "res2 = VR_SUCCESS" "res3 = VR_SUCCESS" by blast
  then show ?thesis
  proof cases
    case 1
    then show ?thesis using c r q1 st by (simp add: reactor_bootstrap_listener_def start_failed_def quiet_def)
  next
    case 2
    have "interest s2 = Map.empty" "blocks s2 = base" using q1 q2 st by (simp_all add: quiet_def)
    then show ?thesis using bootstrap_abort [OF assms, of s2 r] c r c2 fd 2 st(1)
      by (simp add: reactor_bootstrap_listener_def Let_def)
  next
    case 3
    have "interest (close_call fd s3) = Map.empty" "blocks (close_call fd s3) = base" using s3 by auto
    then show ?thesis using bootstrap_abort [OF assms, of "close_call fd s3" r] c r c2 fd c3 3 st(1)
      by (simp add: reactor_bootstrap_listener_def Let_def)
  next
    case 4
    then show ?thesis using bootstrap_listening [OF assms s3, of r s1 port fd s2] c r c2 fd c3 by blast
  qed
qed

section \<open>The whole run\<close>

lemma reactor_loop_world:
  assumes "world_start base w"
  shows "\<exists>r w'. vr_reactor_loop port w = Some (r, w') \<and> w_heap w' = Map.empty \<and> managed (w_mgr w') = [] \<and>
    blocks (w_sys w') = base"
  using bootstrap_world [OF assms, of port]
proof
  assume "start_failed base (reactor_bootstrap_listener port w)"
  then show ?thesis by (auto simp: start_failed_def vr_reactor_loop_def)
next
  assume "\<exists>lp fd w'. reactor_bootstrap_listener port w = Some (VR_SUCCESS, Some (lp, fd), w') \<and> world_inv lp base w'"
  then obtain lp fd w1 where b: "reactor_bootstrap_listener port w = Some (VR_SUCCESS, Some (lp, fd), w1)"
      "world_inv lp base w1" by blast
  obtain w2 where l: "event_loop w1 = Some w2" "world_inv lp base w2" using safety.loop_kept [OF b(2)] by blast
  obtain w3 where "reactor_shutdown lp fd w2 = Some w3" "w_heap w3 = Map.empty" "managed (w_mgr w3) = []"
      "blocks (w_sys w3) = base"
    by (rule shutdown_world [OF l(2)])
  then show ?thesis using b(1) l(1) by (simp add: vr_reactor_loop_def)
qed

end
