(* ===== verification/Velora_Main.thy ===== *)
theory Velora_Main
  imports Velora_Loop_Spec
begin

text \<open>
  \<open>src/main.c\<close>: the signal set-up and the program. The calls of the logger are left out, as everywhere:
  without \<open>VR_DEBUG\<close> they are empty. The reactor
  and the manager are local variables without initial values, so the reactor's first value is an argument.
\<close>

definition SIGINT :: int where "SIGINT = 2"
definition SIGTERM :: int where "SIGTERM = 15"

text \<open>The action of each signal that has a handler.\<close>

type_synonym signal_table = "int \<rightharpoonup> (State \<Rightarrow> bytes \<times> State)"

definition setup_signals :: "signal_table \<Rightarrow> signal_table" where
  "setup_signals tbl = tbl(SIGINT \<mapsto> handle_shutdown, SIGTERM \<mapsto> handle_shutdown)"

definition velora_main :: "vr_reactor_t \<Rightarrow> sys \<Rightarrow> (int \<times> signal_table \<times> world) option" where
  "velora_main reactor s = do {
     let signals = setup_signals Map.empty;
     let port = 22409;
     let (_, manager, s) = vr_connection_manager_init VR_MAX_CONNECTIONS s;
     (_, w) \<leftarrow> vr_reactor_loop port
       \<lparr>w_reactor = reactor, w_mgr = manager, w_heap = Map.empty, w_status = RUNNING, w_sys = s\<rparr>;
     Some (0, signals, w)
   }"

text \<open>\<open>main\<close> ignores the result of \<open>vr_connection_manager_init\<close>; without an array the server refuses every client.\<close>

lemma manager_init_start:
  assumes "replies_ok s" "interest s = Map.empty"
  obtains res m s' where "vr_connection_manager_init VR_MAX_CONNECTIONS s = (res, m, s')"
    "world_start (blocks s + of_bool (fst (alloc s) \<noteq> None))
       \<lparr>w_reactor = r, w_mgr = m, w_heap = Map.empty, w_status = RUNNING, w_sys = s'\<rparr>"
proof (cases rule: alloc_cases [of s])
  case (null s')
  let ?m = "\<lparr>mgr_slots = None, mgr_count = 0, mgr_capacity = VR_MAX_CONNECTIONS\<rparr>"
  have "vr_connection_manager_init VR_MAX_CONNECTIONS s = (VR_ERROR, ?m, s')"
    using null(1) by (simp add: vr_connection_manager_init_def calloc_words_def)
  moreover have "mgr_inv ?m Map.empty" "managed ?m = []" by (simp_all add: mgr_inv_def managed_def)
  ultimately show thesis
    using that [of VR_ERROR ?m s'] null heap_frame_fields(8) [OF null(3)] heap_frame_replies [OF null(3) assms(1)] assms(2)
    by (simp add: world_start_def VR_MAX_CONNECTIONS_def)
next
  case (block a f s')
  let ?m = "\<lparr>mgr_slots = Some (replicate 65536 0), mgr_count = 0, mgr_capacity = VR_MAX_CONNECTIONS\<rparr>"
  have "vr_connection_manager_init VR_MAX_CONNECTIONS s = (VR_SUCCESS, ?m, s')"
    using block(1) by (simp add: vr_connection_manager_init_def calloc_words_def VR_MAX_CONNECTIONS_def)
  moreover have "mgr_inv ?m Map.empty" "managed ?m = []"
    by (simp_all add: mgr_inv_def managed_def VR_MAX_CONNECTIONS_def)
  ultimately show thesis
    using that [of VR_SUCCESS ?m s'] block heap_frame_fields(8) [OF block(3)] heap_frame_replies [OF block(3) assms(1)] assms(2)
    by (simp add: world_start_def VR_MAX_CONNECTIONS_def)
qed

end
