(* ===== verification/Velora_Reactor_Theorems.thy ===== *)
theory Velora_Reactor_Theorems
  imports Velora_Main Velora_Parser_Theorems
begin

text \<open>
  What the event loop promises: the program runs to its end without undefined behaviour and frees what it
  allocated, every batch of events keeps the invariant of the server, a readable client is served, and what is
  read, queued and sent is in order.
\<close>

section \<open>A small server\<close>

text \<open>A listener on descriptor 6 at address 100 and a client on descriptor 7 at address 200, which is about to send
  \<open>bs\<close>.\<close>

definition sample_client :: vr_connection_t where
  "sample_client = connection_zero\<lparr>cn_net_conn := \<lparr>nc_fd = 7, nc_addr = sockaddr_zero\<rparr>, cn_type := VR_CONN_CLIENT\<rparr>"

definition sample_world :: "bytes \<Rightarrow> world" where
  "sample_world bs = \<lparr>w_reactor = \<lparr>re_epoll_fd = 5, re_events = [], re_ready_events = 0\<rparr>,
     w_mgr = \<lparr>mgr_slots = Some [200], mgr_count = 1, mgr_capacity = 1\<rparr>,
     w_heap = [100 \<mapsto> connection_zero\<lparr>cn_net_conn := \<lparr>nc_fd = 6, nc_addr = sockaddr_zero\<rparr>\<rparr>, 200 \<mapsto> sample_client],
     w_status = RUNNING,
     w_sys = (sys_with 0)\<lparr>blocks := 3, recvs := [Recv_bytes bs], sends := [Send_upto 5, Send_upto 100],
       interest := [6 \<mapsto> (100, EPOLLIN), 7 \<mapsto> (200, EPOLLIN)]\<rparr>\<rparr>"

lemma sample_world_heap: "w_heap (sample_world bs) 200 = Some sample_client"
  by (simp add: sample_world_def)

lemma sample_world_managed: "managed (w_mgr (sample_world bs)) = [200]"
  by (simp add: sample_world_def managed_def)

lemma sample_world_inv: "world_inv 100 1 (sample_world bs)"
proof -
  have "mgr_inv (w_mgr (sample_world bs)) (w_heap (sample_world bs))"
    by (simp add: mgr_inv_def managed_def sample_world_def sample_client_def connection_zero_def)
  moreover have "dom (w_heap (sample_world bs)) = {100, 200}" by (auto simp: sample_world_def)
  moreover have "heap_blocks (w_heap (sample_world bs)) = 2"
    by (simp add: heap_blocks_def conn_blocks_def sample_world_def sample_client_def connection_zero_def ring_zero_def)
  moreover have "client_ok (w_sys (sample_world bs)) 200 sample_client"
    by (simp add: client_ok_def sample_world_def sample_client_def connection_zero_def conn_inv_def)
  moreover have "interest_ok (w_heap (sample_world bs)) (w_sys (sample_world bs))"
    by (auto simp: interest_ok_def sample_world_def sample_client_def split: if_splits)
  ultimately show ?thesis
    by (simp add: world_inv_def sample_world_managed sample_world_heap)
      (simp add: sample_world_def conn_blocks_def connection_zero_def ring_zero_def replies_ok_def sys_with_def)
qed

text \<open>A \<open>CONNECT\<close> frame as a client sends it.\<close>

definition connect_frame :: bytes where
  "connect_frame = frame (hd sample_frames)"

lemma connect_frame:
  "length connect_frame = 12"
  "parse_bytes parser_zero connect_frame =
     ([\<lparr>pkt_header = sample_header VR_PKT_CONNECT 0 0, pkt_payload = None\<rparr>], VR_EMPTY, parser_zero, [])"
proof -
  show "length connect_frame = 12" by (simp add: connect_frame_def sample_frames_def frame_def)
  have "list_all frame_ok [hd sample_frames]"
    by (simp add: sample_frames_def frame_ok_def sample_header_def header_valid_iff packet_consts unat_order)
  from parse_run_frames [OF this, of "sys_with 0"] show "parse_bytes parser_zero connect_frame =
     ([\<lparr>pkt_header = sample_header VR_PKT_CONNECT 0 0, pkt_payload = None\<rparr>], VR_EMPTY, parser_zero, [])"
    by (auto simp: parse_bytes_def connect_frame_def sample_frames_def plenty_def sys_with_def)
qed

section \<open>The whole program\<close>

text \<open>C1. The program is memory safe, ends and frees every connection: whatever the kernel answers, \<open>main\<close> returns 0 (in
  the model an access to freed memory, an out-of-range access or a loop that never ends would have no result), and
  no connection, ring or packet is left in the heap: the one block left is the manager's array of slots, which
  \<open>main\<close> does not free. Every allocation may fail but those of the replies, whose result is not tested. Both signals
  have the shutdown handler.\<close>

theorem main_safe:
  assumes "replies_ok s" "interest s = Map.empty" "blocks s = 0"
  shows "\<exists>signals w'. velora_main reactor s = Some (0, signals, w') \<and> signals SIGINT = Some handle_shutdown \<and>
    signals SIGTERM = Some handle_shutdown \<and> w_heap w' = Map.empty \<and> managed (w_mgr w') = [] \<and>
    blocks (w_sys w') = (if fst (alloc s) = None then 0 else 1)"
proof -
  obtain res m s' where m: "vr_connection_manager_init VR_MAX_CONNECTIONS s = (res, m, s')"
      "world_start (blocks s + of_bool (fst (alloc s) \<noteq> None))
         \<lparr>w_reactor = reactor, w_mgr = m, w_heap = Map.empty, w_status = RUNNING, w_sys = s'\<rparr>"
    by (rule manager_init_start [OF assms(1,2)])
  from reactor_loop_world [OF m(2), of 22409] m(1) assms(3) show ?thesis
    by (auto simp: velora_main_def setup_signals_def SIGINT_def SIGTERM_def)
qed

text \<open>A run that starts, has no memory for a first client, accepts a second one, has no memory to read from it, and is
  then told to shut down.\<close>

definition sample_run :: sys where
  "sample_run = (sys_with 0)\<lparr>
     allocs := map (\<lambda>a. if a = 0 then Alloc_null else Alloc_block a (\<lambda>_. 0)) [1, 100, 0, 200, 0],
     rets := map Inr [5, 6, 0, 0, 0, 0, 0, 0, 0],
     accepts := [Accept_conn 7 sockaddr_zero, Accept_conn 7 sockaddr_zero],
     recvs := [Recv_bytes [1, 2, 3]],
     waits := [Wait_ready [(6, EPOLLIN)] False, Wait_ready [(7, EPOLLIN)] True]\<rparr>"

theorem main_safe_witness:
  "\<exists>signals w'. velora_main \<lparr>re_epoll_fd = 0, re_events = [], re_ready_events = 0\<rparr> sample_run = Some (0, signals, w') \<and>
    signals SIGINT = Some handle_shutdown \<and> signals SIGTERM = Some handle_shutdown \<and>
    w_heap w' = Map.empty \<and> managed (w_mgr w') = [] \<and> blocks (w_sys w') = 1"
  using main_safe [of sample_run "\<lparr>re_epoll_fd = 0, re_events = [], re_ready_events = 0\<rparr>"]
  by (simp add: sample_run_def sys_with_def replies_ok_def alloc_def)

section \<open>Events\<close>

text \<open>C5. Every batch of events keeps the invariant of the server. The events \<open>epoll_wait\<close> reports name distinct live
  connections; handling them all, in order, is defined, although a handler may free its own connection, and keeps
  the manager, the heap, the interest list and the count of allocated blocks consistent.\<close>

theorem event_batch_invariant:
  assumes "world_inv lp base w" "distinct (map fst evs)" "fst ` set evs \<subseteq> dom (w_heap w)"
  shows "\<exists>w'. handle_events evs w = Some w' \<and> world_inv lp base w'"
  by (rule safety.batch_kept [OF assms]) blast

theorem event_batch_invariant_witness:
  "\<exists>w'. handle_events [(200, EPOLLIN), (100, EPOLLIN)] (sample_world [1, 2]) = Some w' \<and> world_inv 100 1 w'"
  by (rule event_batch_invariant [OF sample_world_inv]) (auto simp: sample_world_def)

text \<open>C4. Clients do not interfere: whatever the events of a batch do, a connection that has none of them keeps its data
  (its rings, its parser, its protocol state; only its slot in the manager's array may move), its registration with
  \<open>epoll\<close>, and nothing is received or sent on its descriptor, although all connections share the manager, the heap and
  the interest list.\<close>

theorem clients_isolated:
  assumes "world_inv lp base w" "distinct (map fst evs)" "fst ` set evs \<subseteq> dom (w_heap w)"
    and "q \<in> dom (w_heap w)" "q \<notin> fst ` set evs"
  shows "\<exists>w'. handle_events evs w = Some w' \<and> view w' q = view w q"
  by (rule safety.batch_kept [OF assms(1-3)]) (use assms(4,5) in blast)

theorem clients_isolated_witness:
  "\<exists>w'. handle_events [(100, EPOLLIN)] (sample_world [1, 2]) = Some w' \<and> view w' 200 =
    Some (conn_core sample_client, Some (200, EPOLLIN), [], [])"
proof -
  have "view (sample_world [1, 2]) 200 = Some (conn_core sample_client, Some (200, EPOLLIN), [], [])"
    by (simp add: view_def sample_world_def sample_client_def sys_with_def)
  moreover have "\<exists>w'. handle_events [(100, EPOLLIN)] (sample_world [1, 2]) = Some w' \<and>
      view w' 200 = view (sample_world [1, 2]) 200"
    by (rule clients_isolated [OF sample_world_inv]) (auto simp: sample_world_def)
  ultimately show ?thesis by simp
qed



lemma sample_world_talking: "talking [] [] (sample_world bs) 200"
proof -
  have "transduced sample_client [] []"
    by (rule transduced_new)
      (simp_all add: sample_client_def connection_zero_def proto_abs_def open_streams_def)
  then show ?thesis
    by (simp add: talking_def conversation_def sample_world_heap) (simp add: sample_world_def sys_with_def)
qed

lemma sample_world_unlimited: "unlimited (w_sys (sample_world bs))"
  by (simp add: sample_world_def unlimited_def replies_ok_def sys_with_def)

text \<open>C3. A client's conversation survives every event, its own and those of others, with any readiness reported. Let the
  client have received \<open>outs\<close> and sent \<open>ins\<close> on its descriptor when it was accepted, and let its state be that of the
  reference on what it has sent since: the packets of those bytes went through the abstract protocol, or wait in
  the read ring, and the bytes it was sent, followed by those in the write ring, are the replies in order, none missing
  as long as the replies amount to at most 65536 bytes. Then this holds after the event, with the bytes received
  and sent by its handler added, or the client is gone.\<close>

theorem client_conversation:
  assumes "world_inv lp base w" "unlimited (w_sys w)" "p \<in> set (managed (w_mgr w))" "w_heap w p = Some c"
    and "conversation ins outs (w_sys w) c" "q \<in> dom (w_heap w)"
  shows "\<exists>w'. handle_event (q, ev) w = Some w' \<and>
    (case w_heap w' p of None \<Rightarrow> q = p | Some c' \<Rightarrow> cn_type c' = VR_CONN_CLIENT \<and> conversation ins outs (w_sys w') c')"
proof -
  obtain w' where w': "handle_event (q, ev) w = Some w'" "stepped lp base q w w'" "talks q w w'"
    using handle_event_world [OF assms(1,6)] by blast
  have t: "talking ins outs w p" using assms(4,5) by (simp add: talking_def)
  have "talking ins outs w' p" if "q \<noteq> p"
    using talking_view [OF steppedD(6) [OF w'(2), of p] t] that assms(4) by simp
  then have t': "talking ins outs w' p" using w'(3) t assms(2) by (cases "q = p") (simp_all add: talks_def)
  have lp: "p \<noteq> lp" by (rule world_inv_client [OF assms(1,3)])
  note wi = steppedD(1) [OF w'(2)]
  show ?thesis
  proof (cases "w_heap w' p")
    case None
    then have "q = p" using stepped_live [OF w'(2), of p] assms(4) by auto
    then show ?thesis using w'(1) None by simp
  next
    case (Some c')
    then have "p \<in> set (managed (w_mgr w'))" using world_invD(3) [OF wi] lp by auto
    then have "cn_type c' = VR_CONN_CLIENT" by (rule world_inv_client [OF wi]) (use Some in \<open>simp add: client_ok_def\<close>)
    then show ?thesis using w'(1) Some t' by (simp add: talking_def)
  qed
qed

theorem client_conversation_witness:
  "\<exists>w'. handle_event (200, EPOLLIN) (sample_world connect_frame) = Some w' \<and>
    (case w_heap w' 200 of None \<Rightarrow> True | Some c' \<Rightarrow> cn_type c' = VR_CONN_CLIENT \<and> conversation [] [] (w_sys w') c')"
proof -
  have "conversation [] [] (w_sys (sample_world connect_frame)) sample_client"
    using sample_world_talking [of connect_frame] by (simp add: talking_def sample_world_heap) (simp add: sample_client_def)
  from client_conversation [OF sample_world_inv sample_world_unlimited _ sample_world_heap this, of 200 EPOLLIN]
  show ?thesis by (simp add: sample_world_managed) (auto simp: sample_world_def split: option.splits)
qed




text \<open>C8. No accepted socket is lost: whatever fails after \<open>accept\<close> (the allocation of the connection, the array of the
  manager, \<open>fcntl\<close>, \<open>epoll_ctl\<close>), the socket is in the end either a new client, in its initial state, managed and
  registered for reading under its own address, or it is closed, and then the connections and the interest list are
  those from before.\<close>

theorem accepted_socket_kept_or_closed:
  assumes "world_inv lp base w" "fresh_fd (nc_fd n) (w_sys w)"
  shows "\<exists>w'. listener_accepted n w = Some w' \<and> world_inv lp base w' \<and> (welcomed n w w' \<or> turned_away n w w')"
proof -
  obtain w' where "listener_accepted n w = Some w'" "joined lp base n w w'" using listener_accepted_world [OF assms] by blast
  then show ?thesis using steppedD(1) unfolding joined_def by metis
qed

text \<open>The manager's array has to grow for the new client on descriptor 8, which gets the address 300.\<close>

definition sample_accept :: world where
  "sample_accept = sample_world []\<lparr>w_sys := (w_sys (sample_world []))
     \<lparr>allocs := [Alloc_block 400 (\<lambda>_. 0), Alloc_block 300 (\<lambda>_. 0)], rets := [Inr 2, Inr 0]\<rparr>\<rparr>"

lemma sample_accept_open:
  "map_option (\<lambda>w'. closed (w_sys w')) (listener_accepted \<lparr>nc_fd = 8, nc_addr = sockaddr_zero\<rparr> sample_accept) = Some []"
  by code_simp

theorem accepted_socket_kept_or_closed_witness:
  "\<exists>w'. listener_accepted \<lparr>nc_fd = 8, nc_addr = sockaddr_zero\<rparr> sample_accept = Some w' \<and> world_inv 100 1 w' \<and>
    welcomed \<lparr>nc_fd = 8, nc_addr = sockaddr_zero\<rparr> sample_accept w'"
proof -
  let ?n = "\<lparr>nc_fd = 8, nc_addr = sockaddr_zero\<rparr>"
  have wi: "world_inv 100 1 sample_accept"
    using sample_world_inv [of "[]"] by (simp add: sample_accept_def world_inv_def client_ok_def interest_ok_def replies_ok_def)
  have fr: "fresh_fd (nc_fd ?n) (w_sys sample_accept)"
    by (simp add: fresh_fd_def sample_accept_def sample_world_def)
  have "closed (w_sys sample_accept) = []" by (simp add: sample_accept_def sample_world_def sys_with_def)
  then show ?thesis
    using accepted_socket_kept_or_closed [OF wi fr] sample_accept_open by (auto simp: turned_away_def)
qed



section \<open>Packets\<close>

text \<open>C7. The loop over packets refines the reference, which parses the bytes at once and runs the packets through the
  abstract protocol: when the replies fit the write ring, the connection ends in the reference's protocol state, the
  replies are queued in order, each as eight bytes and four more, and the parser keeps what is not yet a packet. The
  loop reports a violation exactly when the reference's parser rejects the bytes.\<close>

theorem packets_processed:
  assumes "conn_inv c" "unlimited s"
    and "parse_bytes (cn_parser c) (ring_contents (cn_read_buf c)) = (ps, r, p', rest)"
    and "proto_run (proto_abs c) ps = (a', reps)"
    and "length (ring_contents (cn_write_buf c)) + 12 * length reps \<le> 65536"
  shows "\<exists>c' s' wire. process_packets_loop c s = Some (r = VR_ERROR, c', s') \<and> proto_abs c' = a' \<and>
    wire_of reps wire \<and> ring_contents (cn_write_buf c') = ring_contents (cn_write_buf c) @ wire \<and>
    cn_parser c' = p' \<and> ring_contents (cn_read_buf c') = rest"
proof -
  from process_packets_spec [OF assms(1) unlimited_replies [OF assms(2)]] assms(2) obtain violation c' s' where
    run: "process_packets_loop c s = Some (violation, c', s')" and pr: "processed c violation c'" by blast
  from pr consider
      (all) wire where "proto_run (proto_abs c) ps = (proto_abs c', reps)" "wire_of reps wire"
        "ring_contents (cn_write_buf c') = ring_contents (cn_write_buf c) @ wire" "violation = (r = VR_ERROR)"
        "cn_parser c' = p'" "ring_contents (cn_read_buf c') = rest"
    | (full) k rs x wire where "proto_run (proto_abs c) (take (Suc k) ps) = (proto_abs c', rs @ [x])" "wire_of rs wire"
        "ring_contents (cn_write_buf c') = ring_contents (cn_write_buf c) @ wire"
        "65536 < length (ring_contents (cn_write_buf c')) + 12"
    using assms(3,4) by (auto simp: processed_def)
  then show ?thesis
  proof cases
    case all
    then show ?thesis using run assms(4) by auto
  next
    case full
    have "\<exists>a rs'. proto_run (proto_abs c) (take (Suc k) ps @ drop (Suc k) ps) = (a, (rs @ [x]) @ rs')"
      unfolding proto_run_append full(1) by (simp split: prod.split)
    then have "length rs < length reps" using assms(4) by auto
    then show ?thesis using full(3,4) wire_of_length [OF full(2)] assms(5) by simp
  qed
qed

theorem packets_processed_witness:
  "\<exists>c' s' wire. process_packets_loop (conn_reading connect_frame) (sys_with 0) = Some (False, c', s') \<and>
    cn_proto_state c' = VR_PROTO_ESTABILISHED \<and> wire_of [(VR_PKT_CONNECT_ACK, 0)] wire \<and>
    ring_contents (cn_write_buf c') = wire \<and> ring_contents (cn_read_buf c') = []"
proof -
  let ?c = "conn_reading connect_frame"
  have c: "conn_inv ?c" "ring_contents (cn_read_buf ?c) = connect_frame" "cn_parser ?c = parser_zero"
    using conn_reading [of connect_frame] connect_frame(1) by simp_all
  have w: "ring_contents (cn_write_buf ?c) = []" "cn_proto_state ?c = VR_PROTO_INIT"
    by (simp_all add: conn_reading_def connection_zero_def)
  have p: "parse_bytes (cn_parser ?c) (ring_contents (cn_read_buf ?c)) =
      ([\<lparr>pkt_header = sample_header VR_PKT_CONNECT 0 0, pkt_payload = None\<rparr>], VR_EMPTY, parser_zero, [])"
    unfolding c(2,3) by (rule connect_frame(2))
  have r: "proto_run (proto_abs ?c) [\<lparr>pkt_header = sample_header VR_PKT_CONNECT 0 0, pkt_payload = None\<rparr>] =
      ((VR_PROTO_ESTABILISHED, insert 0 (open_streams ?c), 1), [(VR_PKT_CONNECT_ACK, 0)])"
    using w(2) by (simp add: proto_abs_def proto_spec_def sample_header_def)
  from packets_processed [OF c(1) unlimited_sys_with(1) [of 0] p r] show ?thesis using w(1) by (auto simp: proto_abs_def)
qed

text \<open>C15. A reply that finds no room is lost: when the write ring holds more than 65524 bytes, the packet that asks for
  the reply is consumed and the protocol moves on as if the peer had been answered, but nothing is queued. The packets
  after it wait in the read ring, and the connection stays open.\<close>

theorem reply_lost_when_full:
  assumes "conn_inv c" "unlimited s" "65536 < length (ring_contents (cn_write_buf c)) + 12"
    and "parse_bytes (cn_parser c) (ring_contents (cn_read_buf c)) = (pkt # ps, r, p', rest)"
    and "proto_spec (proto_abs c) (hdr_type (pkt_header pkt)) (hdr_stream_id (pkt_header pkt)) = (a', Some x)"
  shows "\<exists>c' s'. process_packets_loop c s = Some (False, c', s') \<and> proto_abs c' = a' \<and>
    ring_contents (cn_write_buf c') = ring_contents (cn_write_buf c) \<and>
    parse_bytes (cn_parser c') (ring_contents (cn_read_buf c')) = (ps, r, p', rest)"
proof -
  obtain r1 p1 rest1 out s1 where e: "parse_ref (cn_parser c) (ring_contents (cn_read_buf c)) packet_zero s = (r1, p1, rest1, out, s1)"
    by (metis prod_cases5)
  have r1: "r1 = VR_SUCCESS" using parse_bytes_step(2) [OF assms(2) e] assms(4) by (cases r1) auto
  then have out: "out = pkt" "parse_bytes p1 rest1 = (ps, r, p', rest)"
    using parse_bytes_step(1) [OF assms(2) e] assms(4) by (auto split: prod.splits)
  note a = assms(5) [folded out(1)]
  show ?thesis
  proof (cases rule: process_packet [OF assms(1) unlimited_replies [OF assms(2)] e [unfolded r1] a])
    case (1 c2 s2)
    then have inv: "ring_inv (cn_write_buf c2)" by (simp add: conn_frame_def conn_inv_def)
    have "65536 < length (ring_contents (cn_write_buf c2))" using 1(6) assms(3) by auto
    then show ?thesis using length_ring_contents [OF inv] ring_count_le [OF inv] ring_capacity_le [OF inv] by simp
  next
    case (2 c2 s2)
    then show ?thesis using out(2) by auto
  qed
qed

text \<open>A client that has sent \<open>CONNECT\<close> and whose write ring is full.\<close>

definition full_client :: vr_connection_t where
  "full_client = (conn_reading connect_frame)\<lparr>cn_write_buf := \<lparr>rb_data = Some (replicate 65536 0), rb_capacity = 65536,
     rb_count = 65536, rb_read_pos = 0, rb_write_pos = 0, rb_state = VR_CONN_RING_BUF_ACTIVE\<rparr>\<rparr>"

theorem reply_lost_when_full_witness:
  "\<exists>c' s'. process_packets_loop full_client (sys_with 0) = Some (False, c', s') \<and>
    cn_proto_state c' = VR_PROTO_ESTABILISHED \<and>
    ring_contents (cn_write_buf c') = ring_contents (cn_write_buf full_client)"
proof -
  let ?pkt = "\<lparr>pkt_header = sample_header VR_PKT_CONNECT 0 0, pkt_payload = None\<rparr>"
  have w: "ring_inv (cn_write_buf full_client)" by (simp add: full_client_def ring_inv_def)
  then have full: "65536 < length (ring_contents (cn_write_buf full_client)) + 12"
    using length_ring_contents [OF w] by (simp add: full_client_def)
  have c: "conn_inv full_client" "ring_contents (cn_read_buf full_client) = connect_frame" "cn_parser full_client = parser_zero"
    using conn_reading [of connect_frame] connect_frame(1) w by (simp_all add: full_client_def conn_inv_def)
  have p: "parse_bytes (cn_parser full_client) (ring_contents (cn_read_buf full_client)) = ([?pkt], VR_EMPTY, parser_zero, [])"
    unfolding c(2,3) by (rule connect_frame(2))
  have "cn_proto_state full_client = VR_PROTO_INIT" by (simp add: full_client_def conn_reading_def connection_zero_def)
  then have r: "proto_spec (proto_abs full_client) (hdr_type (pkt_header ?pkt)) (hdr_stream_id (pkt_header ?pkt)) =
      ((VR_PROTO_ESTABILISHED, insert 0 (open_streams full_client), 1), Some (VR_PKT_CONNECT_ACK, 0))"
    by (simp add: proto_abs_def proto_spec_def sample_header_def)
  from reply_lost_when_full [OF c(1) unlimited_sys_with(1) [of 0] full p r] show ?thesis by (auto simp: proto_abs_def)
qed

text \<open>C12. A response is queued whole or not at all, and never leaks: with memory available it is queued exactly when it
  fits the maximum of 65536 bytes, on the contiguous and on the wrapping path alike. The bytes queued are the eight
  header bytes, the payload and four bytes of whatever the buffer held, since the size of the header in memory is
  twelve. The packet is freed in every case.\<close>

theorem enqueue_response_appends:
  assumes "ring_inv (cn_write_buf c)" "payload_ok p" "unlimited s"
    and "fits = (length (ring_contents (cn_write_buf c)) + 12 + unat (hdr_payload_len (pkt_header p)) \<le> 65536)"
  shows "\<exists>wb pad s'. reactor_enqueue_response (Some c) (Some p) s = Some (fits, Some (c\<lparr>cn_write_buf := wb\<rparr>), s') \<and>
    ring_inv wb \<and> length pad = 4 \<and>
    ring_contents wb = ring_contents (cn_write_buf c) @ (if fits then packet_bytes p @ pad else []) \<and>
    blocks s' - of_bool (rb_data wb \<noteq> None) = blocks s - of_bool (rb_data (cn_write_buf c) \<noteq> None) - packet_blocks p"
proof -
  obtain ok c' s' where e: "reactor_enqueue_response (Some c) (Some p) s = Some (ok, Some c', s')" "queued c p s ok c' s'"
      "unlimited s \<longrightarrow> (ok \<longleftrightarrow>
         length (ring_contents (cn_write_buf c)) + 12 + unat (hdr_payload_len (pkt_header p)) \<le> 65536)"
    by (rule enqueue_spec [OF assms(1,2)])
  then have ok: "ok = fits" using assms(3,4) by simp
  from e(2) obtain wb pad where "c' = c\<lparr>cn_write_buf := wb\<rparr>" "ring_inv wb" "length pad = 4"
      "blocks s' = blocks s - packet_blocks p +
         (of_bool (rb_data wb \<noteq> None) - of_bool (rb_data (cn_write_buf c) \<noteq> None))"
      "ring_contents wb = ring_contents (cn_write_buf c) @ (if ok then packet_bytes p @ pad else [])"
    unfolding queued_def by blast
  then show ?thesis using e(1) ok
    by (intro exI [of _ wb] exI [of _ pad] exI [of _ s']) (simp del: not_None_eq)
qed

theorem enqueue_response_appends_witness:
  "\<exists>wb pad s'. reactor_enqueue_response (Some connection_zero) (Some (reply_packet (VR_PKT_PONG, 3))) (sys_with 0)
      = Some (True, Some (connection_zero\<lparr>cn_write_buf := wb\<rparr>), s') \<and> length pad = 4 \<and>
    ring_contents wb = packet_bytes (reply_packet (VR_PKT_PONG, 3)) @ pad"
proof -
  have "ring_inv (cn_write_buf connection_zero)" "ring_contents (cn_write_buf connection_zero) = []"
      "hdr_payload_len (pkt_header (reply_packet (VR_PKT_PONG, 3))) = 0" "unlimited (sys_with 0)"
    by (simp_all add: connection_zero_def reply_packet_def)
  then show ?thesis
    using enqueue_response_appends [of connection_zero "reply_packet (VR_PKT_PONG, 3)" "sys_with 0" True] by auto
qed

section \<open>Sockets\<close>

text \<open>C13. Writing to a client keeps the order of the bytes: what \<open>send\<close> accepted is a prefix of the write ring and the
  rest stays queued, whether the ring wraps around or \<open>send\<close> is short. The loop ends with an empty ring, or because
  the socket takes no more, or, when \<open>send\<close> failed, with the request to close.\<close>

theorem drain_writes_in_order:
  assumes "ring_inv wb"
  shows "\<exists>failed wb' s' yss. drain_writes_loop fd wb s = Some (failed, wb', s') \<and> ring_inv wb' \<and>
    sent s' = sent s @ map (Pair fd) yss \<and> ring_contents wb = concat yss @ ring_contents wb' \<and>
    (if failed then ring_contents wb' \<noteq> [] \<and> list_ex send_fatal (sends s)
     else ring_contents wb' = [] \<or> errno s' = EAGAIN)"
  using drain_writes_loop_spec [OF assms, of fd s] unfolding writes_ended_def list_ex_iff by blast

theorem drain_writes_in_order_witness:
  "\<exists>failed wb' s' yss. drain_writes_loop 7 (ring_holding [1, 2, 3]) ((sys_with 0)\<lparr>sends := [Send_upto 2]\<rparr>)
      = Some (failed, wb', s') \<and> ring_inv wb' \<and> [1, 2, 3] = concat yss @ ring_contents wb' \<and> \<not> failed"
  using drain_writes_in_order [OF ring_holding(1), of "[1, 2, 3]" 7 "(sys_with 0)\<lparr>sends := [Send_upto 2]\<rparr>"]
    ring_holding(2) [of "[1, 2, 3]"]
  by (auto simp: send_fatal_def split: if_splits)

text \<open>C14. Reading from a client loses nothing: the loop returns, and the bytes taken from the socket are appended to the
  read ring in order. It ends when the socket is drained, when the ring has reached its maximal capacity, or, with
  the request to close, when the peer is gone or \<open>recv\<close> failed.\<close>

theorem drain_reads_loses_nothing:
  assumes "ring_inv rb"
  shows "\<exists>failed rb' s' xs. drain_reads_loop fd rb s = Some (failed, rb', s') \<and> ring_inv rb' \<and>
    ring_contents rb' = ring_contents rb @ xs \<and> incoming s = xs @ incoming s' \<and>
    (if failed then recv_hopeless s else errno s' = EAGAIN \<or> (unlimited s \<longrightarrow> unat (rb_capacity rb') = 65536))"
  using drain_reads_loop_spec [OF assms, of fd s] unfolding reads_ended_def read_more_def by blast

theorem drain_reads_loses_nothing_witness:
  "\<exists>failed rb' s' xs. drain_reads_loop 7 ring_zero ((sys_with 0)\<lparr>recvs := [Recv_bytes [1, 2, 3]]\<rparr>)
      = Some (failed, rb', s') \<and> ring_inv rb' \<and> ring_contents rb' = xs \<and> [1, 2, 3] = xs @ incoming s' \<and> \<not> failed"
  using drain_reads_loses_nothing [of ring_zero 7 "(sys_with 0)\<lparr>recvs := [Recv_bytes [1, 2, 3]]\<rparr>"]
  by (auto simp: incoming_def recv_hopeless_def split: if_splits)

section \<open>Shutdown\<close>

text \<open>C34. Shutting down frees every connection and closes the listener, but no client's descriptor: \<open>reactor_shutdown\<close>
  destroys the connections without closing their sockets.\<close>

theorem shutdown_frees_but_leaves_open:
  assumes "world_inv lp base w"
  shows "\<exists>w' ep. reactor_shutdown lp fd w = Some w' \<and> w_heap w' = Map.empty \<and> managed (w_mgr w') = [] \<and>
    blocks (w_sys w') = base \<and> closed (w_sys w') = closed (w_sys w) @ fd # ep \<and>
    set ep \<subseteq> {re_epoll_fd (w_reactor w)}"
  by (rule shutdown_world [OF assms, of fd]) blast

theorem shutdown_frees_but_leaves_open_witness:
  "\<exists>w'. reactor_shutdown 100 6 (sample_world []) = Some w' \<and> w_heap w' = Map.empty \<and> blocks (w_sys w') = 1 \<and>
    6 \<in> set (closed (w_sys w')) \<and> 7 \<notin> set (closed (w_sys w'))"
  using shutdown_frees_but_leaves_open [OF sample_world_inv, of 6 "[]"]
  by (auto simp: sample_world_def sys_with_def)

end
