(* ===== verification/Velora_Client.thy ===== *)
theory Velora_Client
  imports Velora_Reactor
begin

text \<open>
  The clients that exercise the server: the ping-pong client (\<open>tests/throughput_pingpong.c\<close>) with its handshake, its
  pipeline of \<open>PING\<close> packets, the parsing of the \<open>PONG\<close> packets and its handling of one event, and the workload of
  the parser benchmark (\<open>tests/packet_throughput.c\<close>), which builds a sequence of \<open>PUBLISH\<close> packets closed by a
  \<open>PING\<close>. A client is a process of its own, with its own system state. The progress reports on the standard streams and
  the clock are left out.
\<close>

unbundle bit_operations_syntax

definition HEADER_SIZE :: size_t where "HEADER_SIZE = 8"
definition RX_BUFFER_SIZE :: size_t where "RX_BUFFER_SIZE = 4096"

section \<open>Packets\<close>

definition build_packet :: "uint8 \<Rightarrow> bytes" where
  "build_packet type = [ucast (drop_bit 8 VR_MAGIC), ucast (VR_MAGIC AND 0xff), VR_PROTOCOL_VERSION, type, 0, 0, 0, 0]"

definition packet_magic :: "bytes \<Rightarrow> uint16" where
  "packet_magic packet = push_bit 8 (ucast (packet ! 0)) OR ucast (packet ! 1)"

section \<open>Blocking input and output\<close>

text \<open>A blocking \<open>recv\<close> or \<open>send\<close> without an answer does not return.\<close>

definition blocking_recv :: "int \<Rightarrow> nat \<Rightarrow> sys \<Rightarrow> (bytes option \<times> sys) option" where
  "blocking_recv fd len s = (if recvs s = [] then None else Some (recv_call fd len s))"

definition blocking_send :: "int \<Rightarrow> bytes \<Rightarrow> sys \<Rightarrow> (ssize_t \<times> sys) option" where
  "blocking_send fd data s = (if sends s = [] then None else Some (send_call fd data s))"

text \<open>\<open>buf\<close> holds the \<open>received\<close> bytes so far.\<close>

partial_function (option) recv_exact_loop :: "int \<Rightarrow> nat \<Rightarrow> bytes \<Rightarrow> sys \<Rightarrow> (int \<times> bytes \<times> sys) option" where
  "recv_exact_loop fd len buf s =
     (if length buf < len then do {
        (n, s) \<leftarrow> blocking_recv fd (len - length buf) s;
        (case n of
           Some bs \<Rightarrow> if bs \<noteq> [] then recv_exact_loop fd len (buf @ bs) s else Some (-1, buf, s)
         | None \<Rightarrow> if errno s = EINTR then recv_exact_loop fd len buf s else Some (-1, buf, s))
      }
      else Some (0, buf, s))"

definition recv_exact_blocking :: "int \<Rightarrow> nat \<Rightarrow> sys \<Rightarrow> (int \<times> bytes \<times> sys) option" where
  "recv_exact_blocking fd len s = recv_exact_loop fd len [] s"

partial_function (option) send_exact_loop :: "int \<Rightarrow> bytes \<Rightarrow> nat \<Rightarrow> sys \<Rightarrow> (int \<times> sys) option" where
  "send_exact_loop fd buf sent_len s =
     (if sent_len < length buf then do {
        (n, s) \<leftarrow> blocking_send fd (drop sent_len buf) s;
        if n > 0 then send_exact_loop fd buf (sent_len + nat n) s
        else if n = -1 \<and> errno s = EINTR then send_exact_loop fd buf sent_len s
        else Some (-1, s)
      }
      else Some (0, s))"

definition send_exact_blocking :: "int \<Rightarrow> bytes \<Rightarrow> sys \<Rightarrow> (int \<times> sys) option" where
  "send_exact_blocking fd buf s = send_exact_loop fd buf 0 s"

definition set_nonblocking :: "int \<Rightarrow> sys \<Rightarrow> int \<times> sys" where
  "set_nonblocking fd s = (case ret_call s of (flags, s) \<Rightarrow> if flags = -1 then (-1, s) else ret_call s)"

section \<open>The ping-pong client\<close>

record client_t =
  cl_fd :: int
  cl_outstanding :: uint32
  cl_rx :: bytes
  cl_rx_len :: size_t
  cl_completed :: uint64
  cl_errors :: uint64
  cl_alive :: bool

definition client_zero :: client_t where
  "client_zero = \<lparr>cl_fd = 0, cl_outstanding = 0, cl_rx = replicate (unat RX_BUFFER_SIZE) 0, cl_rx_len = 0,
     cl_completed = 0, cl_errors = 0, cl_alive = False\<rparr>"

text \<open>The answers of \<open>inet_pton\<close>, \<open>socket\<close> and \<open>connect\<close> come from the script of system calls.\<close>

definition establish_connection :: "client_t \<Rightarrow> sys \<Rightarrow> (int \<times> client_t \<times> sys) option" where
  "establish_connection client s =
     (case ret_call s of (r, s) \<Rightarrow> if r \<noteq> 1 then Some (-1, client, s) else
     (case ret_call s of (fd, s) \<Rightarrow> if fd = -1 then Some (-1, client, s) else
     (case ret_call s of (r, s) \<Rightarrow> if r = -1 then Some (-1, client, close_call fd s) else do {
        (r, s) \<leftarrow> send_exact_blocking fd (build_packet (ucast VR_PKT_CONNECT)) s;
        if r = -1 then Some (-1, client, close_call fd s)
        else do {
          (r, response, s) \<leftarrow> recv_exact_blocking fd (unat HEADER_SIZE) s;
          if r = -1 then Some (-1, client, close_call fd s)
          else if packet_magic response \<noteq> VR_MAGIC \<or> response ! 2 \<noteq> VR_PROTOCOL_VERSION \<or>
            response ! 3 \<noteq> ucast VR_PKT_CONNECT_ACK \<or> response ! 4 \<noteq> 0 \<or> response ! 5 \<noteq> 0 \<or>
            response ! 6 \<noteq> 0 \<or> response ! 7 \<noteq> 0
          then Some (-1, client, close_call fd s)
          else (case set_nonblocking fd s of (r, s) \<Rightarrow>
            if r = -1 then Some (-1, client, close_call fd s)
            else Some (0, client_zero\<lparr>cl_fd := fd, cl_alive := True\<rparr>, s))
        }
      })))"

definition register_client :: "client_t \<Rightarrow> uint32 \<Rightarrow> sys \<Rightarrow> int \<times> sys" where
  "register_client client index s =
     epoll_ctl_call EPOLL_CTL_ADD (cl_fd client) (unat index) (EPOLLIN OR EPOLLOUT OR EPOLLET) s"

definition ping_packet :: bytes where
  "ping_packet = [ucast (drop_bit 8 VR_MAGIC), ucast (VR_MAGIC AND 0xff), VR_PROTOCOL_VERSION, ucast VR_PKT_PING, 0, 0, 0, 0]"

partial_function (option) fill_pipeline ::
  "client_t \<Rightarrow> uint32 \<Rightarrow> uint64 \<Rightarrow> sys \<Rightarrow> (int \<times> client_t \<times> uint64 \<times> sys) option" where
  "fill_pipeline client pipeline send_failures s =
     (if cl_alive client \<and> cl_outstanding client < pipeline
      then (case send_call (cl_fd client) ping_packet s of (n, s) \<Rightarrow>
        if n = int (length ping_packet)
        then fill_pipeline (client\<lparr>cl_outstanding := cl_outstanding client + 1\<rparr>) pipeline send_failures s
        else if n = -1 \<and> (errno s = EAGAIN \<or> errno s = EWOULDBLOCK) then Some (0, client, send_failures, s)
        else if n = -1 \<and> errno s = EINTR then fill_pipeline client pipeline send_failures s
        else Some (-1, client\<lparr>cl_errors := cl_errors client + 1\<rparr>, send_failures + 1, s))
      else Some (0, client, send_failures, s))"

text \<open>A packet that the client accepts as a \<open>PONG\<close>.\<close>

definition pong_ok :: "bytes \<Rightarrow> bool" where
  "pong_ok packet \<longleftrightarrow>
     (let payload_len = push_bit 8 (ucast (packet ! 6)) OR ucast (packet ! 7) :: uint16
      in \<not> (packet_magic packet \<noteq> VR_MAGIC \<or> packet ! 2 \<noteq> VR_PROTOCOL_VERSION \<or> packet ! 3 \<noteq> ucast VR_PKT_PONG \<or>
        packet ! 4 \<noteq> 0 \<or> packet ! 5 \<noteq> 0 \<or> payload_len \<noteq> 0))"

text \<open>\<open>memmove(rx, rx + HEADER_SIZE, rx_len - HEADER_SIZE)\<close>.\<close>

definition rx_shift :: "bytes \<Rightarrow> size_t \<Rightarrow> bytes option" where
  "rx_shift rx rx_len = do {
     moved \<leftarrow> mem_read (Some rx) (unat HEADER_SIZE) (unat (rx_len - HEADER_SIZE));
     mem_write (Some rx) 0 moved
   }"

partial_function (option) process_pongs_loop :: "client_t \<Rightarrow> uint64 \<Rightarrow> (uint64 \<times> client_t) option" where
  "process_pongs_loop client completed =
     (if cl_rx_len client \<ge> HEADER_SIZE then do {
        packet \<leftarrow> mem_read (Some (cl_rx client)) 0 (unat HEADER_SIZE);
        if \<not> pong_ok packet then Some (completed, client\<lparr>cl_errors := cl_errors client + 1\<rparr>)
        else do {
          rx \<leftarrow> rx_shift (cl_rx client) (cl_rx_len client);
          let client = client\<lparr>cl_rx := rx, cl_rx_len := cl_rx_len client - HEADER_SIZE\<rparr>;
          if cl_outstanding client = 0
          then process_pongs_loop (client\<lparr>cl_errors := cl_errors client + 1\<rparr>) completed
          else process_pongs_loop (client\<lparr>cl_outstanding := cl_outstanding client - 1,
            cl_completed := cl_completed client + 1\<rparr>) (completed + 1)
        }
      }
      else Some (completed, client))"

definition process_pongs :: "client_t \<Rightarrow> (uint64 \<times> client_t) option" where
  "process_pongs client = process_pongs_loop client 0"

partial_function (option) drain_reads ::
  "client_t \<Rightarrow> uint64 \<Rightarrow> sys \<Rightarrow> (int \<times> uint64 \<times> client_t \<times> sys) option" where
  "drain_reads client completed s =
     (if cl_alive client then
        (if cl_rx_len client = RX_BUFFER_SIZE
         then Some (-1, completed, client\<lparr>cl_errors := cl_errors client + 1\<rparr>, s)
         else (case recv_call (cl_fd client) (unat (RX_BUFFER_SIZE - cl_rx_len client)) s of
             (Some bs, s) \<Rightarrow>
               if bs \<noteq> [] then do {
                 rx \<leftarrow> mem_write (Some (cl_rx client)) (unat (cl_rx_len client)) bs;
                 (k, client) \<leftarrow> process_pongs (client\<lparr>cl_rx := rx, cl_rx_len := cl_rx_len client + of_nat (length bs)\<rparr>);
                 drain_reads client (completed + k) s
               }
               else Some (-1, completed, client\<lparr>cl_alive := False\<rparr>, s)
           | (None, s) \<Rightarrow>
               if errno s = EINTR then drain_reads client completed s
               else if errno s = EAGAIN \<or> errno s = EWOULDBLOCK then Some (0, completed, client, s)
               else Some (-1, completed, client\<lparr>cl_errors := cl_errors client + 1\<rparr>, s)))
      else Some (-1, completed, client, s))"

text \<open>The totals of the benchmark, and what its loop does for one event of a client.\<close>

record bench =
  total_completed :: uint64
  total_errors :: uint64
  active :: int

definition client_readable :: "client_t \<Rightarrow> bench \<Rightarrow> sys \<Rightarrow> (bool \<times> client_t \<times> bench \<times> sys) option" where
  "client_readable client b s = do {
     (r, completed, client, s) \<leftarrow> drain_reads client 0 s;
     if r = -1 then
       (if cl_alive client
        then Some (True, client\<lparr>cl_alive := False, cl_fd := -1\<rparr>, b\<lparr>active := active b - 1\<rparr>, close_call (cl_fd client) s)
        else Some (True, client, b\<lparr>active := active b - 1\<rparr>, s))
     else Some (False, client, b\<lparr>total_completed := total_completed b + completed\<rparr>, s)
   }"

definition client_writable :: "uint32 \<Rightarrow> client_t \<Rightarrow> bench \<Rightarrow> sys \<Rightarrow> (client_t \<times> bench \<times> sys) option" where
  "client_writable pipeline client b s = do {
     let before = cl_errors client;
     (r, client, errs, s) \<leftarrow> fill_pipeline client pipeline (total_errors b) s;
     let b = b\<lparr>total_errors := errs\<rparr>;
     if r = -1 then
       (let client = client\<lparr>cl_errors := cl_errors client + of_bool (cl_errors client = before), cl_alive := False\<rparr>;
            (_, s) = epoll_ctl_call EPOLL_CTL_DEL (cl_fd client) 0 0 s;
            s = close_call (cl_fd client) s
        in Some (client\<lparr>cl_fd := -1\<rparr>, b\<lparr>active := active b - 1\<rparr>, s))
     else Some (client, b, s)
   }"

definition client_event :: "uint32 \<Rightarrow> uint32 \<Rightarrow> client_t \<Rightarrow> bench \<Rightarrow> sys \<Rightarrow> (client_t \<times> bench \<times> sys) option" where
  "client_event pipeline events client b s =
     (if \<not> cl_alive client then Some (client, b, s)
      else do {
        (skip, client, b, s) \<leftarrow>
          (if events AND EPOLLIN \<noteq> 0 then client_readable client b s else Some (False, client, b, s));
        if \<not> skip \<and> cl_alive client \<and> events AND EPOLLOUT \<noteq> 0 then client_writable pipeline client b s
        else Some (client, b, s)
      })"

text \<open>The clients without an event, refilled after the events of a round.\<close>

definition refill_client :: "uint32 \<Rightarrow> client_t \<Rightarrow> bench \<Rightarrow> sys \<Rightarrow> (client_t \<times> bench \<times> sys) option" where
  "refill_client pipeline client b s =
     (if \<not> cl_alive client then Some (client, b, s)
      else if cl_outstanding client \<ge> pipeline then Some (client, b, s)
      else do {
        (r, client, errs, s) \<leftarrow> fill_pipeline client pipeline (total_errors b) s;
        let b = b\<lparr>total_errors := errs\<rparr>;
        if r = -1 then
          (let client = client\<lparr>cl_alive := False\<rparr>;
               (_, s) = epoll_ctl_call EPOLL_CTL_DEL (cl_fd client) 0 0 s;
               s = close_call (cl_fd client) s
           in Some (client\<lparr>cl_fd := -1\<rparr>, b\<lparr>active := active b - 1\<rparr>, s))
        else Some (client, b, s)
      })"

fun refill_loop :: "uint32 \<Rightarrow> client_t list \<Rightarrow> bench \<Rightarrow> sys \<Rightarrow> (client_t list \<times> bench \<times> sys) option" where
  "refill_loop pipeline [] b s = Some ([], b, s)"
| "refill_loop pipeline (client # clients) b s = do {
     (client, b, s) \<leftarrow> refill_client pipeline client b s;
     (clients, b, s) \<leftarrow> refill_loop pipeline clients b s;
     Some (client # clients, b, s)
   }"

fun events_loop :: "uint32 \<Rightarrow> (uint32 \<times> uint32) list \<Rightarrow> client_t list \<Rightarrow> bench \<Rightarrow> sys \<Rightarrow>
    (client_t list \<times> bench \<times> sys) option" where
  "events_loop pipeline [] clients b s = Some (clients, b, s)"
| "events_loop pipeline ((index, events) # evs) clients b s =
     (if unat index \<ge> length clients then events_loop pipeline evs clients b s
      else do {
        (client, b, s) \<leftarrow> client_event pipeline events (clients ! unat index) b s;
        events_loop pipeline evs (clients[unat index := client]) b s
      })"

text \<open>One round of the benchmark: the events that \<open>epoll_wait\<close> has reported, then the refilling.\<close>

definition client_round :: "uint32 \<Rightarrow> (uint32 \<times> uint32) list \<Rightarrow> client_t list \<Rightarrow> bench \<Rightarrow> sys \<Rightarrow>
    (client_t list \<times> bench \<times> sys) option" where
  "client_round pipeline evs clients b s = do {
     (clients, b, s) \<leftarrow> events_loop pipeline evs clients b s;
     refill_loop pipeline clients b s
   }"

section \<open>The workload of the parser benchmark\<close>

definition write_header :: "bytes option \<Rightarrow> nat \<Rightarrow> uint8 \<Rightarrow> uint16 \<Rightarrow> bytes option" where
  "write_header dst off type payload_len = mem_write dst off
     [ucast (drop_bit 8 VR_MAGIC), ucast (VR_MAGIC AND 0xff), VR_PROTOCOL_VERSION, type, 0, 0,
      ucast (drop_bit 8 payload_len), ucast (payload_len AND 0xff)]"

primrec publish_loop :: "nat \<Rightarrow> bytes option \<Rightarrow> nat \<Rightarrow> bytes option \<Rightarrow> uint16 \<Rightarrow> (bytes option \<times> nat) option" where
  "publish_loop 0 dst off payload payload_len = Some (dst, off)"
| "publish_loop (Suc n) dst off payload payload_len = do {
     d \<leftarrow> write_header dst off (ucast VR_PKT_PUBLISH) payload_len;
     let off = off + unat HEADER_SIZE;
     xs \<leftarrow> mem_read payload 0 (unat payload_len);
     d \<leftarrow> mem_write (Some d) off xs;
     publish_loop n (Some d) (off + unat payload_len) payload payload_len
   }"

definition build_sequence :: "bytes option \<Rightarrow> nat \<Rightarrow> bytes option \<Rightarrow> uint16 \<Rightarrow> (nat \<times> bytes option) option" where
  "build_sequence dst packet_count payload payload_len = do {
     (dst, off) \<leftarrow> publish_loop packet_count dst 0 payload payload_len;
     d \<leftarrow> write_header dst off (ucast VR_PKT_PING) 0;
     Some (off + unat HEADER_SIZE, Some d)
   }"

end
