(* ===== verification/Velora_Client_Spec.thy ===== *)
theory Velora_Client_Spec
  imports Velora_Client Velora_Pipeline_Spec
begin

text \<open>
  The clients against plain byte sequences: the packets they build are those of the server's codec, the \<open>PONG\<close>
  packets are counted as a reference on the received bytes counts them, and every loop ends.
\<close>

section \<open>Packets\<close>

lemma client_consts: "unat HEADER_SIZE = 8" "unat RX_BUFFER_SIZE = 4096"
  by (simp_all add: HEADER_SIZE_def RX_BUFFER_SIZE_def)

lemma length_build_packet [simp]: "length (build_packet t) = 8" "build_packet t \<noteq> []"
  by (simp_all add: build_packet_def)

lemma build_packet_reply: "packet_bytes (reply_packet (t, 0)) = build_packet (ucast t)"
  by (simp add: packet_bytes_def reply_packet_def header_bytes_def build_packet_def vr_encode_u16_def VR_MAGIC_def
      VR_FLAG_NONE_def)

lemma ping_packet_eq: "ping_packet = build_packet (ucast VR_PKT_PING)"
  by (simp add: ping_packet_def build_packet_def)

lemma packet_magic_iff: "packet_magic bs = VR_MAGIC \<longleftrightarrow> bs ! 0 = 0x57 \<and> bs ! 1 = 0x89"
proof -
  have "packet_magic bs = vr_decode_u16 (bs ! 0) (bs ! 1)" by (simp add: packet_magic_def vr_decode_u16_def)
  moreover have "vr_encode_u16 VR_MAGIC = [0x57, 0x89]" by (simp add: vr_encode_u16_def VR_MAGIC_def)
  moreover have "vr_decode_u16 0x57 0x89 = VR_MAGIC" by (simp add: vr_decode_u16_def VR_MAGIC_def)
  ultimately show ?thesis using encode_decode_u16 [of "bs ! 0" "bs ! 1"] by auto
qed

lemma payload_len_zero: "push_bit 8 (ucast a) OR ucast b = (0 :: uint16) \<longleftrightarrow> a = 0 \<and> b = (0 :: uint8)" for a :: uint8
proof -
  have "vr_encode_u16 0 = [0, 0]" by (simp add: vr_encode_u16_def)
  then show ?thesis using encode_decode_u16 [of a b] by (auto simp: vr_decode_u16_def)
qed

lemma bytes8:
  assumes "length bs = 8"
  shows "bs = [bs ! 0, bs ! 1, bs ! 2, bs ! 3, bs ! 4, bs ! 5, bs ! 6, bs ! 7]"
  using assms by (intro nth_equalityI) (auto simp: less_Suc_eq nth_Cons' eval_nat_numeral)

lemma pong_ok_iff:
  assumes "length bs = 8"
  shows "pong_ok bs \<longleftrightarrow> bs = build_packet (ucast VR_PKT_PONG)"
proof
  assume "pong_ok bs"
  then have "bs ! 0 = 0x57" "bs ! 1 = 0x89" "bs ! 2 = VR_PROTOCOL_VERSION" "bs ! 3 = ucast VR_PKT_PONG" "bs ! 4 = 0"
      "bs ! 5 = 0" "bs ! 6 = 0" "bs ! 7 = 0"
    by (auto simp: pong_ok_def packet_magic_iff payload_len_zero Let_def)
  then show "bs = build_packet (ucast VR_PKT_PONG)"
    using bytes8 [OF assms] by (simp add: build_packet_def VR_MAGIC_def)
next
  assume "bs = build_packet (ucast VR_PKT_PONG)"
  then show "pong_ok bs"
    by (simp add: pong_ok_def packet_magic_iff payload_len_zero Let_def)
      (simp add: build_packet_def VR_MAGIC_def)
qed

section \<open>Counting\<close>

text \<open>The \<open>PONG\<close> packets at the front of a byte sequence, with \<open>n\<close> requests outstanding: how many complete a request, the
  errors, the requests still outstanding and the bytes left.\<close>

function pongs_ref :: "nat \<Rightarrow> bytes \<Rightarrow> nat \<times> nat \<times> nat \<times> bytes" where
  "pongs_ref n bs =
     (if length bs < 8 then (0, 0, n, bs)
      else if take 8 bs \<noteq> build_packet (ucast VR_PKT_PONG) then (0, 1, n, bs)
      else (case pongs_ref (n - 1) (drop 8 bs) of (k, e, m, rest) \<Rightarrow>
        if n = 0 then (k, e + 1, m, rest) else (k + 1, e, m, rest)))"
  by pat_completeness auto
termination by (relation "measure (\<lambda>(n, bs). length bs)") auto

declare pongs_ref.simps [simp del]

definition client_inv :: "client_t \<Rightarrow> bool" where
  "client_inv c \<longleftrightarrow> length (cl_rx c) = 4096 \<and> unat (cl_rx_len c) \<le> 4096"

definition rx_bytes :: "client_t \<Rightarrow> bytes" where
  "rx_bytes c = take (unat (cl_rx_len c)) (cl_rx c)"

lemma rx_shift_spec:
  assumes "length rx = 4096" "8 \<le> unat len" "unat len \<le> 4096"
  obtains rx' where "rx_shift rx len = Some rx'" "length rx' = 4096" "take (unat len - 8) rx' = drop 8 (take (unat len) rx)"
proof -
  have l: "unat (len - HEADER_SIZE) = unat len - 8"
    using assms(2) by (simp add: HEADER_SIZE_def unat_sub word_le_nat_alt)
  let ?m = "take (unat len - 8) (drop 8 rx)"
  have m: "length ?m = unat len - 8" using assms by simp
  have "rx_shift rx len = Some (overwrite rx 0 ?m)"
    using assms m by (simp add: rx_shift_def client_consts l mem_read_Some mem_write_Some)
  moreover have "length (overwrite rx 0 ?m) = 4096" using assms m by simp
  moreover have "take (unat len - 8) (overwrite rx 0 ?m) = drop 8 (take (unat len) rx)"
    using m assms by (simp add: overwrite_def drop_take)
  ultimately show thesis using that by blast
qed

text \<open>One round of the loop: it stops, or has taken one packet, which completes \<open>j\<close> requests and is \<open>i\<close> errors.\<close>

definition pongs_counted :: "client_t \<Rightarrow> nat \<Rightarrow> nat \<Rightarrow> client_t \<Rightarrow> bool" where
  "pongs_counted c k e c' \<longleftrightarrow> client_inv c' \<and> cl_completed c' = cl_completed c + of_nat k \<and>
     cl_errors c' = cl_errors c + of_nat e \<and> cl_fd c' = cl_fd c \<and> cl_alive c' = cl_alive c"

lemma pongs_counted_trans: "pongs_counted c j i c1 \<Longrightarrow> pongs_counted c1 k e c2 \<Longrightarrow> pongs_counted c (j + k) (i + e) c2"
  by (simp add: pongs_counted_def add.assoc)

lemma unat_pred: "x \<noteq> 0 \<Longrightarrow> unat (x - 1) = unat x - 1" for x :: uint32
  by (simp add: unat_sub word_le_nat_alt unat_gt_0 Suc_leI)

text \<open>Taking a \<open>PONG\<close> off the buffer.\<close>

lemma pong_taken:
  assumes "client_inv c" "8 \<le> unat (cl_rx_len c)" "pong_ok (take 8 (cl_rx c))"
  obtains c1 where
    "process_pongs_loop c z = process_pongs_loop c1 (z + of_nat (of_bool (cl_outstanding c \<noteq> 0)))"
    "pongs_counted c (of_bool (cl_outstanding c \<noteq> 0)) (of_bool (cl_outstanding c = 0)) c1"
    "unat (cl_outstanding c1) = unat (cl_outstanding c) - 1" "rx_bytes c1 = drop 8 (rx_bytes c)"
    "unat (cl_rx_len c1) < unat (cl_rx_len c)"
proof -
  have l4: "length (cl_rx c) = 4096" "unat (cl_rx_len c) \<le> 4096" using assms(1) by (auto simp: client_inv_def)
  have rd: "cl_rx_len c \<ge> HEADER_SIZE" "mem_read (Some (cl_rx c)) 0 (unat HEADER_SIZE) = Some (take 8 (cl_rx c))"
    using assms(2) l4 by (simp_all add: word_le_nat_alt client_consts mem_read_Some)
  obtain rx' where rx': "rx_shift (cl_rx c) (cl_rx_len c) = Some rx'" "length rx' = 4096"
      "take (unat (cl_rx_len c) - 8) rx' = drop 8 (rx_bytes c)"
    unfolding rx_bytes_def by (rule rx_shift_spec [OF l4(1) assms(2) l4(2)])
  have l: "unat (cl_rx_len c - HEADER_SIZE) = unat (cl_rx_len c) - 8"
    using assms(2) by (simp add: HEADER_SIZE_def unat_sub word_le_nat_alt)
  let ?o = "cl_outstanding c" and ?c = "c\<lparr>cl_rx := rx', cl_rx_len := cl_rx_len c - HEADER_SIZE\<rparr>"
  let ?c1 = "if ?o = 0 then ?c\<lparr>cl_errors := cl_errors c + 1\<rparr>
      else ?c\<lparr>cl_outstanding := ?o - 1, cl_completed := cl_completed c + 1\<rparr>"
  have "process_pongs_loop c z = process_pongs_loop ?c1 (z + of_nat (of_bool (?o \<noteq> 0)))"
    using rd assms(3) rx'(1) by (subst process_pongs_loop.simps) (simp add: Let_def)
  then show thesis using rx'(2,3) l l4 assms(2) unat_pred [of ?o]
    by (intro that [of ?c1]) (simp_all add: rx_bytes_def pongs_counted_def client_inv_def)
qed

lemma process_pongs_step:
  assumes "client_inv c" "pongs_ref (unat (cl_outstanding c)) (rx_bytes c) = (k, e, m, rest)"
  obtains (stop) c' where "process_pongs_loop c z = Some (z, c')" "k = 0" "pongs_counted c 0 e c'" "rx_bytes c' = rest"
      "unat (cl_outstanding c') = m"
  | (more) j i c1 k1 e1 where "process_pongs_loop c z = process_pongs_loop c1 (z + of_nat j)" "pongs_counted c j i c1"
      "pongs_ref (unat (cl_outstanding c1)) (rx_bytes c1) = (k1, e1, m, rest)" "k = j + k1" "e = i + e1"
      "unat (cl_rx_len c1) < unat (cl_rx_len c)"
proof -
  let ?p = "take 8 (cl_rx c)" and ?o = "cl_outstanding c"
  have l: "length (rx_bytes c) = unat (cl_rx_len c)" "length ?p = 8" "HEADER_SIZE \<le> cl_rx_len c \<longleftrightarrow> 8 \<le> unat (cl_rx_len c)"
      "mem_read (Some (cl_rx c)) 0 (unat HEADER_SIZE) = Some ?p"
    using assms(1) by (auto simp: client_inv_def rx_bytes_def word_le_nat_alt client_consts mem_read_Some)
  have tp: "take 8 (rx_bytes c) = ?p" if "8 \<le> unat (cl_rx_len c)" using that by (simp add: rx_bytes_def min_def)
  consider (short) "unat (cl_rx_len c) < 8" | (bad) "8 \<le> unat (cl_rx_len c)" "\<not> pong_ok ?p"
    | (ok) "8 \<le> unat (cl_rx_len c)" "pong_ok ?p" by linarith
  then show thesis
  proof cases
    case short
    then show thesis using assms l
      by (intro stop [of c]) (simp_all add: pongs_ref.simps process_pongs_loop.simps [of c] pongs_counted_def)
  next
    case bad
    then have "process_pongs_loop c z = Some (z, c\<lparr>cl_errors := cl_errors c + 1\<rparr>)"
      using l by (subst process_pongs_loop.simps) simp
    moreover have "(k, e, m, rest) = (0, 1, unat ?o, rx_bytes c)"
      using assms(2) bad pong_ok_iff [OF l(2)] tp l(1) by (simp add: pongs_ref.simps)
    ultimately show thesis using assms(1)
      by (intro stop [of "c\<lparr>cl_errors := cl_errors c + 1\<rparr>"]) (simp_all add: pongs_counted_def client_inv_def rx_bytes_def)
  next
    case ok
    obtain k1 e1 m1 rest1 where r1: "pongs_ref (unat ?o - 1) (drop 8 (rx_bytes c)) = (k1, e1, m1, rest1)"
      by (metis prod_cases4)
    have "pongs_ref (unat ?o) (rx_bytes c) = (of_bool (?o \<noteq> 0) + k1, of_bool (?o = 0) + e1, m1, rest1)"
      using r1 pong_ok_iff [OF l(2)] ok tp l(1) by (simp add: pongs_ref.simps [of "unat ?o"] unat_eq_zero)
    moreover obtain c1 where c1:
      "process_pongs_loop c z = process_pongs_loop c1 (z + of_nat (of_bool (?o \<noteq> 0)))"
      "pongs_counted c (of_bool (?o \<noteq> 0)) (of_bool (?o = 0)) c1" "unat (cl_outstanding c1) = unat ?o - 1"
      "rx_bytes c1 = drop 8 (rx_bytes c)" "unat (cl_rx_len c1) < unat (cl_rx_len c)"
      by (rule pong_taken [OF assms(1) ok])
    ultimately show thesis by (intro more [OF c1(1,2) _ _ _ c1(5), of k1 e1]) (use assms(2) r1 c1(3,4) in simp_all)
  qed
qed

lemma process_pongs_loop_spec:
  assumes "client_inv c" "pongs_ref (unat (cl_outstanding c)) (rx_bytes c) = (k, e, m, rest)"
  shows "\<exists>c'. process_pongs_loop c z = Some (z + of_nat k, c') \<and> pongs_counted c k e c' \<and> rx_bytes c' = rest \<and>
    unat (cl_outstanding c') = m"
  using assms
proof (induction "unat (cl_rx_len c)" arbitrary: c z k e rule: less_induct)
  case less
  show ?case
  proof (cases rule: process_pongs_step [OF less.prems, of z])
    case (1 c')
    then show ?thesis by simp
  next
    case (2 j i c1 k1 e1)
    have "client_inv c1" using 2(2) by (simp add: pongs_counted_def)
    from less.hyps [OF 2(6) this 2(3), of "z + of_nat j"] obtain c' where
      "process_pongs_loop c1 (z + of_nat j) = Some (z + of_nat j + of_nat k1, c')" "pongs_counted c1 k1 e1 c'"
      "rx_bytes c' = rest" "unat (cl_outstanding c') = m" by blast
    then show ?thesis using 2(1,4,5) pongs_counted_trans [OF 2(2)] by (intro exI [of _ c']) (simp add: add.assoc)
  qed
qed

lemma pongs_ref_balance: "pongs_ref n bs = (k, e, m, rest) \<Longrightarrow> k + m = n \<and> (\<exists>xs. bs = xs @ rest)"
proof (induction n bs arbitrary: k e m rest rule: pongs_ref.induct)
  case (1 n bs)
  show ?case
  proof (cases "length bs < 8 \<or> take 8 bs \<noteq> build_packet (ucast VR_PKT_PONG)")
    case True
    then show ?thesis using "1.prems" by (auto simp: pongs_ref.simps [of n] split: if_splits)
  next
    case False
    obtain k1 e1 m1 rest1 where r: "pongs_ref (n - 1) (drop 8 bs) = (k1, e1, m1, rest1)" by (metis prod_cases4)
    have ih: "k1 + m1 = n - 1" "\<exists>xs. drop 8 bs = xs @ rest1" using "1.IH" [OF _ _ r] False by auto
    then obtain xs where "bs = (take 8 bs @ xs) @ rest1" by (metis append.assoc append_take_drop_id)
    then show ?thesis using "1.prems" r False ih(1) by (auto simp: pongs_ref.simps [of n] split: if_splits)
  qed
qed

text \<open>What receiving may do to a client: \<open>k\<close> requests are completed.\<close>

definition progressed :: "client_t \<Rightarrow> nat \<Rightarrow> client_t \<Rightarrow> bool" where
  "progressed c k c' \<longleftrightarrow> client_inv c' \<and> unat (cl_outstanding c') + k = unat (cl_outstanding c) \<and>
     cl_completed c' = cl_completed c + of_nat k \<and> cl_fd c' = cl_fd c"

lemma progressed_trans: "progressed c j c1 \<Longrightarrow> progressed c1 k c2 \<Longrightarrow> progressed c (j + k) c2"
  by (auto simp: progressed_def)

lemma process_pongs_progress:
  assumes "client_inv c"
  shows "\<exists>k c'. process_pongs c = Some (of_nat k, c') \<and> progressed c k c' \<and> cl_alive c' = cl_alive c"
proof -
  obtain k e m rest where r: "pongs_ref (unat (cl_outstanding c)) (rx_bytes c) = (k, e, m, rest)" by (metis prod_cases4)
  have "k + m = unat (cl_outstanding c)" using pongs_ref_balance [OF r] by blast
  moreover obtain c' where "process_pongs_loop c 0 = Some (of_nat k, c')" "pongs_counted c k e c'" "unat (cl_outstanding c') = m"
    using process_pongs_loop_spec [OF assms r, of 0] by auto
  ultimately show ?thesis by (intro exI [of _ k] exI [of _ c']) (simp add: process_pongs_def progressed_def pongs_counted_def)
qed

section \<open>Receiving\<close>

lemma recv_call_interrupted: "recv_call fd n s = (None, s') \<Longrightarrow> errno s' = EINTR \<Longrightarrow> recv_left s' < recv_left s"
  by (auto simp: recv_call_def recv_left_def incoming_def errno_defs split: list.splits recv_answer.splits if_splits)

lemma rx_room:
  assumes "client_inv c" "cl_rx_len c \<noteq> RX_BUFFER_SIZE"
  shows "unat (RX_BUFFER_SIZE - cl_rx_len c) = 4096 - unat (cl_rx_len c)"
  using assms by (simp add: client_inv_def unat_sub word_le_nat_alt RX_BUFFER_SIZE_def)

lemma rx_received:
  assumes "client_inv c" "length bs \<le> 4096 - unat (cl_rx_len c)"
  shows "\<exists>rx. mem_write (Some (cl_rx c)) (unat (cl_rx_len c)) bs = Some rx \<and>
    client_inv (c\<lparr>cl_rx := rx, cl_rx_len := cl_rx_len c + of_nat (length bs)\<rparr>)"
proof -
  have le: "unat (cl_rx_len c) + length bs \<le> 4096" "length (cl_rx c) = 4096" using assms by (auto simp: client_inv_def)
  have "unat (cl_rx_len c + of_nat (length bs)) = (unat (cl_rx_len c) + length bs) mod 2 ^ 64"
    by (simp add: unat_word_ariths unat_of_nat mod_add_right_eq)
  then have "unat (cl_rx_len c + of_nat (length bs)) \<le> 4096" using le by simp
  then show ?thesis using le by (simp add: mem_write_Some client_inv_def)
qed

lemma client_drain_step:
  assumes "client_inv c"
  obtains (stop) r c' s' where "drain_reads c z s = Some (r, z, c', s')" "progressed c 0 c'" "r = 0 \<or> r = -1" "r = 0 \<longrightarrow> cl_alive c'"
  | (more) j c1 s1 where "drain_reads c z s = drain_reads c1 (z + of_nat j) s1" "progressed c j c1" "recv_left s1 < recv_left s"
proof -
  have refl: "progressed c 0 c" "progressed c 0 (c\<lparr>cl_errors := x\<rparr>)" "progressed c 0 (c\<lparr>cl_alive := a\<rparr>)" for x a
    using assms by (simp_all add: progressed_def client_inv_def)
  obtain o' s1 where rc: "recv_call (cl_fd c) (unat (RX_BUFFER_SIZE - cl_rx_len c)) s = (o', s1)" by fastforce
  consider (idle) "\<not> (cl_alive c \<and> cl_rx_len c \<noteq> RX_BUFFER_SIZE)"
    | (int) "cl_alive c" "cl_rx_len c \<noteq> RX_BUFFER_SIZE" "o' = None" "errno s1 = EINTR"
    | (err) "cl_alive c" "cl_rx_len c \<noteq> RX_BUFFER_SIZE" "o' = None" "errno s1 \<noteq> EINTR"
    | (eof) "cl_alive c" "cl_rx_len c \<noteq> RX_BUFFER_SIZE" "o' = Some []"
    | (data) bs where "cl_alive c" "cl_rx_len c \<noteq> RX_BUFFER_SIZE" "o' = Some bs" "bs \<noteq> []" by (cases o') auto
  then show thesis
  proof cases
    case idle
    then show thesis using stop [of "-1"] refl by (cases "cl_alive c") (simp_all add: drain_reads.simps [of c])
  next
    case int
    then have "drain_reads c z s = drain_reads c z s1" using rc by (subst drain_reads.simps) simp
    then show thesis using more [of c 0 s1] refl(1) recv_call_interrupted [OF _ int(4)] rc int(3) by simp
  next
    case err
    then show thesis using rc refl stop [of 0 c s1] stop [of "-1" "c\<lparr>cl_errors := cl_errors c + 1\<rparr>" s1]
      by (cases "errno s1 = EAGAIN") (simp_all add: drain_reads.simps [of c] EWOULDBLOCK_def)
  next
    case eof
    then show thesis using rc refl stop [of "-1" "c\<lparr>cl_alive := False\<rparr>" s1] by (simp add: drain_reads.simps [of c])
  next
    case (data bs)
    have "length bs \<le> 4096 - unat (cl_rx_len c)" using recv_call_length rc data(2,3) rx_room [OF assms] by metis
    from rx_received [OF assms this] obtain rx where rx: "mem_write (Some (cl_rx c)) (unat (cl_rx_len c)) bs = Some rx"
        "client_inv (c\<lparr>cl_rx := rx, cl_rx_len := cl_rx_len c + of_nat (length bs)\<rparr>)" (is "client_inv ?c1") by blast
    obtain j c2 where j: "process_pongs ?c1 = Some (of_nat j, c2)" "progressed ?c1 j c2"
      using process_pongs_progress [OF rx(2)] by blast
    have "drain_reads c z s = drain_reads c2 (z + of_nat j) s1"
      using rc data rx(1) j(1) by (subst drain_reads.simps) simp
    moreover have "recv_left s1 < recv_left s" using recv_call_left [of "cl_fd c"] rc data(3,4) by metis
    moreover have "progressed c j c2" using j(2) by (simp add: progressed_def)
    ultimately show thesis using more by blast
  qed
qed

lemma drain_reads_progress:
  assumes "client_inv c"
  shows "\<exists>r k c' s'. drain_reads c z s = Some (r, z + of_nat k, c', s') \<and> progressed c k c' \<and> (r = 0 \<or> r = -1) \<and>
    (r = 0 \<longrightarrow> cl_alive c')"
  using assms
proof (induction "recv_left s" arbitrary: c z s rule: less_induct)
  case less
  show ?case
  proof (cases rule: client_drain_step [OF less.prems, of z s])
    case (1 r c' s')
    then show ?thesis by (intro exI [of _ r] exI [of _ 0] exI [of _ c'] exI [of _ s']) simp
  next
    case (2 j c1 s1)
    have "client_inv c1" using 2(2) by (simp add: progressed_def)
    from less.hyps [OF 2(3) this, of "z + of_nat j"] obtain r k c' s' where
      ih: "drain_reads c1 (z + of_nat j) s1 = Some (r, z + of_nat j + of_nat k, c', s')" "progressed c1 k c'"
        "r = 0 \<or> r = -1" "r = 0 \<longrightarrow> cl_alive c'" by blast
    then show ?thesis unfolding 2(1) using progressed_trans [OF 2(2) ih(2)]
      by (intro exI [of _ r] exI [of _ "j + k"] exI [of _ c'] exI [of _ s']) (simp add: add.assoc)
  qed
qed

section \<open>Sending\<close>

text \<open>What filling the pipeline does: \<open>j\<close> more \<open>PING\<close> packets, and \<open>extra\<close>, the first bytes of one that was cut.\<close>

definition refilled :: "client_t \<Rightarrow> uint32 \<Rightarrow> sys \<Rightarrow> nat \<Rightarrow> bytes \<Rightarrow> client_t \<Rightarrow> sys \<Rightarrow> bool" where
  "refilled c pipeline s j extra c' s' \<longleftrightarrow>
     (\<exists>e. c' = c\<lparr>cl_outstanding := cl_outstanding c', cl_errors := e\<rparr>) \<and>
     unat (cl_outstanding c') = unat (cl_outstanding c) + j \<and> (j = 0 \<or> unat (cl_outstanding c') \<le> unat pipeline) \<and>
     bytes_on (cl_fd c) (sent s') = bytes_on (cl_fd c) (sent s) @ concat (replicate j ping_packet) @ extra"

lemma length_ping [simp]: "length ping_packet = 8"
  by (simp add: ping_packet_def)

lemma send_ping_cases:
  obtains (whole) s' where "send_call fd ping_packet s = (8, s')" "length (sends s') < length (sends s)"
      "bytes_on fd (sent s') = bytes_on fd (sent s) @ ping_packet"
  | (cut) n s' where "send_call fd ping_packet s = (int n, s')" "n < 8"
      "bytes_on fd (sent s') = bytes_on fd (sent s) @ take n ping_packet"
  | (error) s' where "send_call fd ping_packet s = (-1, s')" "sent s' = sent s"
      "errno s' = EINTR \<longrightarrow> length (sends s') < length (sends s)"
proof (cases "sends s")
  case Nil
  then show thesis using error [of "s\<lparr>errno := EAGAIN\<rparr>"] by (simp add: send_call_def errno_defs)
next
  case (Cons a as)
  show thesis
  proof (cases a)
    case (Send_error e)
    then show thesis using Cons error [of "s\<lparr>errno := e, sends := as\<rparr>"] by (simp add: send_call_def)
  next
    case (Send_upto n)
    let ?s = "s\<lparr>sends := as, sent := sent s @ [(fd, take (min n 8) ping_packet)]\<rparr>"
    have sc: "send_call fd ping_packet s = (int (min n 8), ?s)" using Cons Send_upto by (simp add: send_call_def Let_def)
    show thesis
    proof (cases "8 \<le> n")
      case True
      then show thesis using sc Cons whole [of ?s] by (simp add: min_def)
    next
      case False
      then show thesis using sc cut [of n ?s] by (simp add: min_def)
    qed
  qed
qed

lemma refilled_none:
  "bytes_on (cl_fd c) (sent s') = bytes_on (cl_fd c) (sent s) @ xs \<Longrightarrow> refilled c pipeline s 0 xs (c\<lparr>cl_errors := e\<rparr>) s'"
  by (auto simp: refilled_def)

lemma fill_pipeline_step:
  obtains (stop) r e f' s' extra where "fill_pipeline c pipeline f s = Some (r, c\<lparr>cl_errors := e\<rparr>, f', s')" "r = 0 \<or> r = -1"
      "bytes_on (cl_fd c) (sent s') = bytes_on (cl_fd c) (sent s) @ extra" "length extra < 8"
      "r = 0 \<longrightarrow> extra = [] \<and> e = cl_errors c"
  | (sent) s1 where "fill_pipeline c pipeline f s = fill_pipeline (c\<lparr>cl_outstanding := cl_outstanding c + 1\<rparr>) pipeline f s1"
      "cl_outstanding c < pipeline" "bytes_on (cl_fd c) (sent s1) = bytes_on (cl_fd c) (sent s) @ ping_packet"
      "length (sends s1) < length (sends s)"
  | (again) s1 where "fill_pipeline c pipeline f s = fill_pipeline c pipeline f s1" "sent s1 = sent s"
      "length (sends s1) < length (sends s)"
proof (cases "cl_alive c \<and> cl_outstanding c < pipeline")
  case False
  then show thesis by (intro stop [of 0 "cl_errors c" f s "[]"]) (auto simp: fill_pipeline.simps [of c])
next
  case go: True
  note fp = fill_pipeline.simps [of c pipeline f s]
  show thesis
  proof (cases rule: send_ping_cases [of "cl_fd c" s])
    case (whole s1)
    then show thesis using go by (intro sent [of s1]) (simp_all add: fp)
  next
    case (cut n s1)
    then show thesis using go by (intro stop [of "-1" "cl_errors c + 1" "f + 1" s1 "take n ping_packet"]) (simp_all add: fp)
  next
    case (error s1)
    consider "errno s1 = EAGAIN" | "errno s1 = EINTR" | "errno s1 \<noteq> EAGAIN" "errno s1 \<noteq> EINTR" by blast
    then show thesis
    proof cases
      case 1
      then show thesis using go error by (intro stop [of 0 "cl_errors c" f s1 "[]"]) (simp_all add: fp)
    next
      case 2
      then show thesis using go error by (intro again [of s1]) (simp_all add: fp errno_defs)
    next
      case 3
      then show thesis using go error
        by (intro stop [of "-1" "cl_errors c + 1" "f + 1" s1 "[]"]) (simp_all add: fp EWOULDBLOCK_def)
    qed
  qed
qed

lemma fill_pipeline_spec:
  "\<exists>r j c' f' s' extra. fill_pipeline c pipeline f s = Some (r, c', f', s') \<and> (r = 0 \<or> r = -1) \<and>
    refilled c pipeline s j extra c' s' \<and> length extra < 8 \<and> (r = 0 \<longrightarrow> extra = [] \<and> cl_errors c' = cl_errors c)"
proof (induction "length (sends s)" arbitrary: c f s rule: less_induct)
  case less
  show ?case
  proof (cases rule: fill_pipeline_step [of c pipeline f s])
    case (stop r e f' s' extra)
    then show ?thesis using refilled_none [OF stop(3), of pipeline e]
      by (intro exI [of _ r] exI [of _ 0] exI [of _ "c\<lparr>cl_errors := e\<rparr>"] exI [of _ f'] exI [of _ s'] exI [of _ extra]) simp
  next
    case (sent s1)
    let ?c = "c\<lparr>cl_outstanding := cl_outstanding c + 1\<rparr>"
    have o1: "unat (cl_outstanding c + 1) = unat (cl_outstanding c) + 1"
      using sent(2) unat32_less [of pipeline] by (simp add: word_less_nat_alt unat_word_ariths del: unat32_less)
    from less.hyps [OF sent(4), of ?c f] obtain r j c' f' s' extra where
      ih: "fill_pipeline ?c pipeline f s1 = Some (r, c', f', s')" "r = 0 \<or> r = -1" "refilled ?c pipeline s1 j extra c' s'"
        "length extra < 8" "r = 0 \<longrightarrow> extra = [] \<and> cl_errors c' = cl_errors ?c" by blast
    have "refilled c pipeline s (Suc j) extra c' s'"
      using ih(3) sent(2,3) o1 by (cases j) (auto simp: refilled_def word_less_nat_alt)
    then show ?thesis unfolding sent(1) using ih
      by (intro exI [of _ r] exI [of _ "Suc j"] exI [of _ c'] exI [of _ f'] exI [of _ s'] exI [of _ extra]) simp
  next
    case (again s1)
    have "refilled c pipeline s j extra c' s'" if "refilled c pipeline s1 j extra c' s'" for j extra c' s'
      using that again(2) unfolding refilled_def by metis
    then show ?thesis unfolding again(1) using less.hyps [OF again(3), of c f] by metis
  qed
qed

section \<open>A round of the benchmark\<close>

text \<open>The invariant of a client in the benchmark.\<close>

definition client_good :: "uint32 \<Rightarrow> client_t \<Rightarrow> bool" where
  "client_good pipeline c \<longleftrightarrow> client_inv c \<and> unat (cl_outstanding c) \<le> unat pipeline"

lemma client_good_fields [simp]:
  "client_good pl (c\<lparr>cl_fd := x\<rparr>) = client_good pl c" "client_good pl (c\<lparr>cl_alive := a\<rparr>) = client_good pl c"
  "client_good pl (c\<lparr>cl_errors := e\<rparr>) = client_good pl c"
  by (simp_all add: client_good_def client_inv_def)

lemma client_readable_good:
  assumes "client_good pl c"
  shows "\<exists>skip c' b' s'. client_readable c b s = Some (skip, c', b', s') \<and> client_good pl c'"
proof -
  have "client_inv c" using assms by (simp add: client_good_def)
  then obtain r k c' s' where d: "drain_reads c 0 s = Some (r, of_nat k, c', s')" "progressed c k c'"
    using drain_reads_progress [of c 0 s] by auto
  have "client_good pl c'" using assms d(2) by (auto simp: client_good_def progressed_def)
  then show ?thesis using d(1) by (auto simp: client_readable_def)
qed

lemma fill_pipeline_good:
  assumes "client_good pl c"
  obtains r c' f' s' where "fill_pipeline c pl f s = Some (r, c', f', s')" "client_good pl c'"
proof -
  from fill_pipeline_spec [of c pl f s] obtain r j c' f' s' extra where
    f: "fill_pipeline c pl f s = Some (r, c', f', s')" "refilled c pl s j extra c' s'" by blast
  then obtain e where c': "c' = c\<lparr>cl_outstanding := cl_outstanding c', cl_errors := e\<rparr>" by (auto simp: refilled_def)
  have "unat (cl_outstanding c') \<le> unat pl" using f(2) assms by (auto simp: refilled_def client_good_def)
  then have "client_good pl (c\<lparr>cl_outstanding := cl_outstanding c', cl_errors := e\<rparr>)"
    using assms by (simp add: client_good_def client_inv_def)
  then show thesis using that [OF f(1)] c' by simp
qed

lemma client_writable_good:
  assumes "client_good pl c"
  shows "\<exists>c' b' s'. client_writable pl c b s = Some (c', b', s') \<and> client_good pl c'"
  by (rule fill_pipeline_good [OF assms, of "total_errors b" s])
    (simp add: client_writable_def Let_def split: prod.split)

lemma refill_client_good:
  assumes "client_good pl c"
  shows "\<exists>c' b' s'. refill_client pl c b s = Some (c', b', s') \<and> client_good pl c'"
  by (rule fill_pipeline_good [OF assms, of "total_errors b" s])
    (use assms in \<open>simp add: refill_client_def Let_def split: prod.split\<close>)

lemma client_event_good:
  assumes "client_good pl c"
  shows "\<exists>c' b' s'. client_event pl ev c b s = Some (c', b', s') \<and> client_good pl c'"
proof -
  obtain skip c1 b1 s1 where 1: "(if ev AND EPOLLIN \<noteq> 0 then client_readable c b s else Some (False, c, b, s))
      = Some (skip, c1, b1, s1)" "client_good pl c1"
    using client_readable_good [OF assms, of b s] assms by (cases "ev AND EPOLLIN \<noteq> 0") auto
  then show ?thesis using assms client_writable_good [OF 1(2), of b1 s1] by (auto simp: client_event_def)
qed

lemma refill_loop_good:
  assumes "list_all (client_good pl) cs"
  shows "\<exists>cs' b' s'. refill_loop pl cs b s = Some (cs', b', s') \<and> length cs' = length cs \<and> list_all (client_good pl) cs'"
  using assms
proof (induction cs arbitrary: b s)
  case (Cons c cs)
  then obtain c' b1 s1 where 1: "refill_client pl c b s = Some (c', b1, s1)" "client_good pl c'"
    using refill_client_good [of pl c b s] by auto
  obtain cs' b' s' where "refill_loop pl cs b1 s1 = Some (cs', b', s')" "length cs' = length cs" "list_all (client_good pl) cs'"
    using Cons.IH [of b1 s1] Cons.prems by auto
  then show ?case using 1 by auto
qed simp

lemma events_loop_good:
  assumes "list_all (client_good pl) cs"
  shows "\<exists>cs' b' s'. events_loop pl evs cs b s = Some (cs', b', s') \<and> length cs' = length cs \<and> list_all (client_good pl) cs'"
  using assms
proof (induction evs arbitrary: cs b s)
  case (Cons x evs)
  obtain i ev where x: "x = (i, ev)" by fastforce
  show ?case
  proof (cases "unat i < length cs")
    case False
    then show ?thesis using Cons x by simp
  next
    case True
    then have "client_good pl (cs ! unat i)" using Cons.prems by (simp add: list_all_length)
    then obtain c' b1 s1 where 1: "client_event pl ev (cs ! unat i) b s = Some (c', b1, s1)" "client_good pl c'"
      using client_event_good by blast
    then have "list_all (client_good pl) (cs[unat i := c'])"
      using Cons.prems True by (auto simp: list_all_length nth_list_update)
    from Cons.IH [OF this, of b1 s1] show ?thesis using 1(1) True x by simp
  qed
qed simp

end
