(* ===== verification/Velora_Client_Theorems.thy ===== *)
theory Velora_Client_Theorems
  imports Velora_Client_Spec Velora_Parser_Theorems
begin

text \<open>
  What the clients promise, and what happens when they meet the server: they stay within their buffers and pipelines,
  but the two sides disagree on the size of a packet's header.
\<close>

section \<open>The benchmark\<close>

text \<open>C18. A round of the ping-pong benchmark, whatever the events and the answers of the kernel, returns without
  undefined behaviour: every loop of it ends, every client's receive buffer is used within its 4096 bytes, and no
  client ever has more requests outstanding than its pipeline allows.\<close>

theorem client_round_bounded:
  assumes "list_all (client_good pipeline) clients"
  shows "\<exists>clients' b' s'. client_round pipeline evs clients b s = Some (clients', b', s') \<and>
    length clients' = length clients \<and> list_all (client_good pipeline) clients'"
proof -
  obtain cs b1 s1 where 1: "events_loop pipeline evs clients b s = Some (cs, b1, s1)" "length cs = length clients"
      "list_all (client_good pipeline) cs"
    using events_loop_good [OF assms] by blast
  then show ?thesis using refill_loop_good [OF 1(3), of b1 s1] by (simp add: client_round_def)
qed

text \<open>A client with a pipeline of two requests.\<close>

definition sample_pinger :: client_t where
  "sample_pinger = client_zero\<lparr>cl_fd := 4, cl_alive := True\<rparr>"

lemma sample_pinger_good: "client_good 2 sample_pinger" "client_inv sample_pinger"
  by (simp_all add: client_good_def client_inv_def sample_pinger_def client_zero_def client_consts)

theorem client_round_bounded_witness:
  "\<exists>clients' b' s'. client_round 2 [(0, EPOLLIN OR EPOLLOUT)] [sample_pinger]
      \<lparr>total_completed = 0, total_errors = 0, active = 1\<rparr> ((sys_with 0)\<lparr>sends := [Send_upto 8, Send_upto 8]\<rparr>)
      = Some (clients', b', s') \<and> length clients' = 1 \<and> list_all (client_good 2) clients'"
  using client_round_bounded [of 2 "[sample_pinger]" "[(0, EPOLLIN OR EPOLLOUT)]"
      "\<lparr>total_completed = 0, total_errors = 0, active = 1\<rparr>" "(sys_with 0)\<lparr>sends := [Send_upto 8, Send_upto 8]\<rparr>"]
    sample_pinger_good(1) by simp

text \<open>The totals can disagree: when a read fails after some requests were completed, the client's own counter has them and
  the total of the benchmark has not. Here the server answers one request and then closes the connection.\<close>

lemma completions_not_totalled:
  assumes "client_inv c" "cl_alive c" "cl_rx_len c = 0" "cl_outstanding c \<noteq> 0" "events AND EPOLLIN \<noteq> 0"
    and "recvs s = [Recv_bytes (build_packet (ucast VR_PKT_PONG)), Recv_bytes []]"
  shows "\<exists>c' b' s'. client_event pipeline events c b s = Some (c', b', s') \<and>
    cl_completed c' = cl_completed c + 1 \<and> total_completed b' = total_completed b"
proof -
  let ?pong = "build_packet (ucast VR_PKT_PONG)"
  let ?s1 = "s\<lparr>recvs := [Recv_bytes []], rcvd := rcvd s @ [(cl_fd c, ?pong)]\<rparr>"
  have rc: "recv_call (cl_fd c) (unat (RX_BUFFER_SIZE - cl_rx_len c)) s = (Some ?pong, ?s1)"
    using assms(3,6) by (simp add: recv_call_def client_consts)
  have l: "length (cl_rx c) = 4096" using assms(1) by (simp add: client_inv_def)
  let ?c1 = "c\<lparr>cl_rx := overwrite (cl_rx c) 0 ?pong, cl_rx_len := 8\<rparr>"
  have c1: "client_inv ?c1" "rx_bytes ?c1 = ?pong"
    using l by (simp_all add: client_inv_def rx_bytes_def overwrite_def)
  have o: "unat (cl_outstanding c) \<noteq> 0" using assms(4) by (simp add: unat_eq_zero)
  then have "pongs_ref (unat (cl_outstanding ?c1)) (rx_bytes ?c1) = (1, 0, unat (cl_outstanding c) - 1, [])"
    unfolding c1(2) by (simp add: pongs_ref.simps)
  from process_pongs_loop_spec [OF c1(1) this, of 0] obtain c2 where
    c2: "process_pongs ?c1 = Some (1, c2)" "client_inv c2" "rx_bytes c2 = []" "cl_completed c2 = cl_completed c + 1"
      "cl_alive c2" using assms(2) by (auto simp: process_pongs_def pongs_counted_def)
  then have "cl_rx_len c2 = 0" by (simp add: rx_bytes_def client_inv_def) (metis length_0_conv list.size(3) unat_eq_zero zero_neq_numeral)
  then have "drain_reads c2 1 ?s1 = Some (-1, 1, c2\<lparr>cl_alive := False\<rparr>, ?s1\<lparr>recvs := [], rcvd := rcvd ?s1 @ [(cl_fd c2, [])]\<rparr>)"
    using c2(5) by (subst drain_reads.simps) (simp add: recv_call_def client_consts RX_BUFFER_SIZE_def)
  moreover have "drain_reads c 0 s = drain_reads c2 1 ?s1"
    using assms(2,3) rc l c2(1) by (subst drain_reads.simps) (simp add: mem_write_Some RX_BUFFER_SIZE_def)
  ultimately show ?thesis using assms(2,5) c2(4) by (simp add: client_event_def client_readable_def)
qed


section \<open>Client and server\<close>

lemma send_exact_sends:
  assumes "send_exact_loop fd buf k s = Some (0, s')" "k \<le> length buf"
  shows "bytes_on fd (sent s') = bytes_on fd (sent s) @ drop k buf"
  using assms
proof (induction "length (sends s)" arbitrary: k s rule: less_induct)
  case less
  show ?case
  proof (cases "k < length buf")
    case False
    then show ?thesis using less.prems by (subst (asm) send_exact_loop.simps) simp
  next
    case True
    obtain n s1 where sc: "send_call fd (drop k buf) s = (n, s1)" by fastforce
    have ne: "sends s \<noteq> []" using less.prems True by (subst (asm) send_exact_loop.simps) (auto simp: blocking_send_def)
    have run: "(if n > 0 then send_exact_loop fd buf (k + nat n) s1
        else if n = -1 \<and> errno s1 = EINTR then send_exact_loop fd buf k s1 else Some (-1, s1)) = Some (0, s')"
      using less.prems(1) True sc ne by (subst (asm) send_exact_loop.simps) (simp add: blocking_send_def)
    have sh: "length (sends s1) < length (sends s)"
      using sc ne by (auto simp: send_call_def Let_def neq_Nil_conv split: send_answer.splits)
    show ?thesis
    proof (cases "n > 0")
      case pos: True
      then have n: "nat n \<le> length buf - k" "bytes_on fd (sent s1) = bytes_on fd (sent s) @ take (nat n) (drop k buf)"
        using sc ne by (auto simp: send_call_def Let_def neq_Nil_conv split: send_answer.splits)
      have "bytes_on fd (sent s') = bytes_on fd (sent s1) @ drop (k + nat n) buf"
        by (rule less.hyps [OF sh]) (use run pos n(1) True in auto)
      moreover have "take (nat n) (drop k buf) @ drop (k + nat n) buf = drop k buf"
        by (metis append_take_drop_id drop_drop add.commute)
      ultimately show ?thesis using n(2) by (metis append.assoc)
    next
      case False
      then have r: "send_exact_loop fd buf k s1 = Some (0, s')" "n = -1" using run by (auto split: if_splits)
      have "sent s1 = sent s" using sc r(2) ne by (auto simp: send_call_def Let_def neq_Nil_conv split: send_answer.splits)
      then show ?thesis using less.hyps [OF sh r(1) less.prems(2)] by simp
    qed
  qed
qed

text \<open>C16. The handshake of the client never completes. The client sends a \<open>CONNECT\<close> packet of eight bytes and waits for the
  answer; the server, which has received just that, waits for the twelve bytes of \<open>sizeof(vr_packet_header_t)\<close>
  and queues nothing; without an answer \<open>establish_connection\<close> never returns.\<close>

theorem handshake_deadlock:
  assumes "rets s = Inr 1 # Inr fd # Inr 0 # rs" "fd \<noteq> -1"
    and "send_exact_blocking fd (build_packet (ucast VR_PKT_CONNECT)) (s\<lparr>rets := rs\<rparr>) = Some (0, s1)" "recvs s1 = []"
    and "conn_inv c" "cn_parser c = parser_zero"
    and "bytes_on fd (sent s1) = bytes_on fd (sent s) @ ring_contents (cn_read_buf c)"
  shows "(\<exists>c'. process_packets_loop c t = Some (False, c', t) \<and> cn_write_buf c' = cn_write_buf c \<and>
      ring_contents (cn_read_buf c') = ring_contents (cn_read_buf c)) \<and>
    establish_connection client s = None"
proof
  have "ring_contents (cn_read_buf c) = build_packet (ucast VR_PKT_CONNECT)"
    using send_exact_sends [of fd _ 0 "s\<lparr>rets := rs\<rparr>" s1] assms(3,7) by (simp add: send_exact_blocking_def)
  then have e: "parse_ref (cn_parser c) (ring_contents (cn_read_buf c)) packet_zero t
      = (VR_EMPTY, parser_zero, ring_contents (cn_read_buf c), packet_zero, t)"
    using assms(6) by (simp add: parse_ref_def parser_zero_def)
  obtain c1 where "process_packets_loop c t = Some (VR_EMPTY = VR_ERROR, c1, t)" "cn_write_buf c1 = cn_write_buf c"
      "ring_contents (cn_read_buf c1) = ring_contents (cn_read_buf c)"
    by (rule process_end [OF assms(5) e]) simp_all
  then show "\<exists>c'. process_packets_loop c t = Some (False, c', t) \<and> cn_write_buf c' = cn_write_buf c \<and>
      ring_contents (cn_read_buf c') = ring_contents (cn_read_buf c)" by auto
  have "recv_exact_blocking fd (unat HEADER_SIZE) s1 = None"
    using assms(4) by (simp add: recv_exact_blocking_def client_consts recv_exact_loop.simps blocking_recv_def)
  then show "establish_connection client s = None"
    using assms(1-3) by (simp add: establish_connection_def ret_call_def)
qed

text \<open>A client that has sent its request, and a server that has received it.\<close>

theorem handshake_deadlock_witness:
  "(\<exists>c'. process_packets_loop (conn_reading (build_packet (ucast VR_PKT_CONNECT))) (sys_with 0) = Some (False, c', sys_with 0) \<and>
      cn_write_buf c' = ring_zero \<and> ring_contents (cn_read_buf c') = build_packet (ucast VR_PKT_CONNECT)) \<and>
    establish_connection client_zero ((sys_with 0)\<lparr>rets := [Inr 1, Inr 4, Inr 0], sends := [Send_upto 8]\<rparr>) = None"
proof -
  let ?p = "build_packet (ucast VR_PKT_CONNECT)"
  let ?s1 = "(sys_with 0)\<lparr>sent := [(4, ?p)]\<rparr>"
  have c: "conn_inv (conn_reading ?p)" "ring_contents (cn_read_buf (conn_reading ?p)) = ?p" "cn_parser (conn_reading ?p) = parser_zero"
    using conn_reading [of ?p] by simp_all
  let ?s = "(sys_with 0)\<lparr>rets := [Inr 1, Inr 4, Inr 0], sends := [Send_upto 8]\<rparr>"
  have r: "rets ?s = Inr 1 # Inr 4 # Inr 0 # []" by simp
  have "send_exact_blocking 4 ?p (?s\<lparr>rets := []\<rparr>) = Some (0, ?s1)"
    by (simp add: send_exact_blocking_def send_exact_loop.simps blocking_send_def send_call_def Let_def sys_with_def)
  from handshake_deadlock [OF r _ this _ c(1,3), of "sys_with 0" client_zero] show ?thesis
    using c(2) by (auto simp: sys_with_def conn_reading_def connection_zero_def)
qed

text \<open>C17. The client misreads the server's answers. Each \<open>PONG\<close> arrives as eight bytes and four more; of two or more
  answers in the client's buffer the first completes a request, and the next eight bytes are taken for a packet whose
  stream id is the first byte of the magic number: whatever the four extra bytes are, it is an error, and the
  bytes stay in the buffer, so that no later answer is ever read.\<close>

theorem pongs_misread:
  assumes "client_inv c" "cl_outstanding c \<noteq> 0"
    and "wire_of (replicate (Suc (Suc k)) (VR_PKT_PONG, 0)) (rx_bytes c)"
  shows "\<exists>c'. process_pongs c = Some (1, c') \<and> cl_errors c' = cl_errors c + 1 \<and>
    rx_bytes c' = drop 8 (rx_bytes c) \<and> process_pongs c' = Some (0, c'\<lparr>cl_errors := cl_errors c' + 1\<rparr>)"
proof -
  let ?bs = "rx_bytes c" and ?pong = "build_packet (ucast VR_PKT_PONG)"
  have w: "24 \<le> length ?bs" "take 8 ?bs = ?pong" "take 8 (drop 12 ?bs) = ?pong"
    using assms(3) wire_of_length [OF assms(3)] by (simp_all add: build_packet_reply)
  have "?bs ! 12 = take 8 (drop 12 ?bs) ! 0" using w(1) by simp
  then have "?bs ! 12 = 0x57" unfolding w(3) by (simp add: build_packet_def VR_MAGIC_def)
  then have "take 8 (drop 8 ?bs) ! 4 \<noteq> ?pong ! 4" using w(1) by (simp add: build_packet_def)
  then have ne: "take 8 (drop 8 ?bs) \<noteq> ?pong" by metis
  have o: "unat (cl_outstanding c) \<noteq> 0" using assms(2) by (simp add: unat_eq_zero)
  have bad: "pongs_ref n (drop 8 ?bs) = (0, 1, n, drop 8 ?bs)" for n
    using ne w(1) by (simp add: pongs_ref.simps [of n])
  then have "pongs_ref (unat (cl_outstanding c)) ?bs = (1, 1, unat (cl_outstanding c) - 1, drop 8 ?bs)"
    using w(1,2) o by (simp add: pongs_ref.simps [of "unat (cl_outstanding c)"])
  from process_pongs_loop_spec [OF assms(1) this, of 0] obtain c' where
    c': "process_pongs c = Some (1, c')" "client_inv c'" "rx_bytes c' = drop 8 ?bs" "cl_errors c' = cl_errors c + 1"
    by (auto simp: process_pongs_def pongs_counted_def)
  have l: "8 \<le> unat (cl_rx_len c')" "length (cl_rx c') = 4096" "take 8 (cl_rx c') = take 8 (drop 8 ?bs)"
    using c'(2) arg_cong [OF c'(3), of length] arg_cong [OF c'(3), of "take 8"] w(1)
    by (simp_all add: client_inv_def rx_bytes_def min_def split: if_splits)
  have "\<not> pong_ok (take 8 (cl_rx c'))" using pong_ok_iff [of "take 8 (drop 8 ?bs)"] ne l(3) w(1) by simp
  then have "process_pongs c' = Some (0, c'\<lparr>cl_errors := cl_errors c' + 1\<rparr>)"
    unfolding process_pongs_def using l
    by (subst process_pongs_loop.simps) (simp add: word_le_nat_alt client_consts mem_read_Some)
  then show ?thesis using c' by blast
qed

text \<open>Two answers in the buffer.\<close>

definition sample_answered :: client_t where
  "sample_answered = sample_pinger\<lparr>cl_outstanding := 2, cl_rx_len := 24, cl_rx :=
     build_packet (ucast VR_PKT_PONG) @ [1, 2, 3, 4] @ build_packet (ucast VR_PKT_PONG) @ [5, 6, 7, 8] @ replicate 4072 0\<rparr>"

theorem pongs_misread_witness:
  "\<exists>c'. process_pongs sample_answered = Some (1, c') \<and> cl_errors c' = 1 \<and>
    process_pongs c' = Some (0, c'\<lparr>cl_errors := cl_errors c' + 1\<rparr>)"
proof -
  have "wire_of (replicate (Suc (Suc 0)) (VR_PKT_PONG, 0)) (rx_bytes sample_answered)"
    by (simp add: sample_answered_def rx_bytes_def build_packet_reply)
  from pongs_misread [OF _ _ this] show ?thesis
    by (auto simp: client_inv_def sample_answered_def sample_pinger_def client_zero_def)
qed

section \<open>The workload of the parser benchmark\<close>

text \<open>The packet of a given type and payload as the server's codec writes it.\<close>

definition client_packet :: "vr_packet_type_t \<Rightarrow> bytes \<Rightarrow> bytes" where
  "client_packet t xs = packet_bytes \<lparr>pkt_header = \<lparr>hdr_magic = VR_MAGIC, hdr_version = VR_PROTOCOL_VERSION, hdr_type = t,
     hdr_stream_id = 0, hdr_flags = VR_FLAG_NONE, hdr_payload_len = of_nat (length xs)\<rparr>, pkt_payload = Some xs\<rparr>"

lemma low_byte: "(ucast (v AND 0xFF) :: uint8) = ucast (v :: uint16)"
  by (rule bit_word_eqI) (auto simp: bit_simps byte_mask)

lemma take_overwrite:
  "n = off + length ys \<Longrightarrow> n \<le> length xs \<Longrightarrow> take n (overwrite xs off ys) = take off xs @ ys"
  by (cases ys) (simp_all add: overwrite_def min_def)

lemma publish_loop_spec:
  assumes "length xs = unat len" "off + n * (8 + length xs) \<le> length d"
  shows "\<exists>d'. publish_loop n (Some d) off (Some xs) len = Some (Some d', off + n * (8 + length xs)) \<and> length d' = length d \<and>
    take (off + n * (8 + length xs)) d' = take off d @ concat (replicate n (client_packet VR_PKT_PUBLISH xs))"
  using assms
proof (induction n arbitrary: off d)
  case (Suc n)
  let ?h = "[0x57, 0x89, VR_PROTOCOL_VERSION, ucast VR_PKT_PUBLISH, 0, 0, ucast (drop_bit 8 len), ucast (len AND 0xff)] :: bytes"
  let ?d = "overwrite (overwrite d off ?h) (off + 8) xs"
  have fit: "off + 8 + length xs \<le> length d" "off + 8 + length xs + n * (8 + length xs) \<le> length d"
    using Suc.prems(2) by (simp_all add: algebra_simps)
  have p: "?h @ xs = client_packet VR_PKT_PUBLISH xs"
    using Suc.prems(1) by (simp add: client_packet_def packet_bytes_def header_bytes_def vr_encode_u16_def VR_MAGIC_def
        VR_FLAG_NONE_def low_byte)
  have run: "publish_loop (Suc n) (Some d) off (Some xs) len = publish_loop n (Some ?d) (off + 8 + length xs) (Some xs) len"
    using Suc.prems(1) fit(1)
    by (simp add: write_header_def mem_write_Some mem_read_Some client_consts VR_MAGIC_def Let_def)
  have ld: "length ?d = length d" using fit(1) by simp
  have td: "take (off + 8 + length xs) ?d = take off d @ client_packet VR_PKT_PUBLISH xs"
    using fit(1) take_overwrite [of "off + 8" off ?h d]
      take_overwrite [of "off + 8 + length xs" "off + 8" xs "overwrite d off ?h"] p by simp
  have "off + 8 + length xs + n * (8 + length xs) \<le> length ?d" using fit(2) ld by simp
  from Suc.IH [OF Suc.prems(1) this] show ?case
    unfolding run td using ld by (auto simp: algebra_simps)
qed simp

lemma build_sequence_spec:
  assumes "length xs = unat len" "n * (8 + length xs) + 8 \<le> length d"
  shows "\<exists>d'. build_sequence (Some d) n (Some xs) len = Some (n * (8 + length xs) + 8, Some d') \<and> length d' = length d \<and>
    take (n * (8 + length xs) + 8) d' = concat (replicate n (client_packet VR_PKT_PUBLISH xs)) @ client_packet VR_PKT_PING []"
proof -
  let ?k = "n * (8 + length xs)"
  let ?h = "[0x57, 0x89, VR_PROTOCOL_VERSION, ucast VR_PKT_PING, 0, 0, 0, 0] :: bytes"
  obtain d1 where d1: "publish_loop n (Some d) 0 (Some xs) len = Some (Some d1, ?k)" "length d1 = length d"
      "take ?k d1 = concat (replicate n (client_packet VR_PKT_PUBLISH xs))"
    using publish_loop_spec [OF assms(1), of 0 n d] assms(2) by auto
  have "?h = client_packet VR_PKT_PING []"
    by (simp add: client_packet_def packet_bytes_def header_bytes_def vr_encode_u16_def VR_MAGIC_def VR_FLAG_NONE_def)
  moreover have "build_sequence (Some d) n (Some xs) len = Some (?k + 8, Some (overwrite d1 ?k ?h))"
    using d1(1,2) assms(2) by (simp add: build_sequence_def write_header_def mem_write_Some client_consts VR_MAGIC_def)
  moreover have "take (?k + 8) (overwrite d1 ?k ?h) = take ?k d1 @ ?h"
    using d1(2) assms(2) take_overwrite [of "?k + 8" ?k ?h d1] by simp
  moreover have "length (overwrite d1 ?k ?h) = length d" using d1(2) assms(2) by simp
  ultimately show ?thesis using d1(3) by simp
qed

text \<open>Without a payload \<open>memcpy\<close> is called with a null pointer, which is undefined even for no bytes.\<close>

lemma build_sequence_null: "build_sequence dst (Suc n) None len = None"
  by (simp add: build_sequence_def)

end
