(* ===== verification/Velora_Logger.thy ===== *)
theory Velora_Logger
  imports Velora_Common
begin

text \<open>
  \<open>src/core/logger.c\<close> and \<open>vr_perror\<close> of \<open>src/core/error.c\<close>. The first group of definitions is the file with
  \<open>VR_DEBUG\<close>, the second the stubs without it.

  \<open>log_ptr\<close> is null or an open file; the text handed to the stream and how much of it has been flushed stand for
  the file, the state of the mutex for \<open>log_mutex\<close>. Whether \<open>fopen\<close> and \<open>pthread_mutex_init\<close> succeed is an
  argument. The text that \<open>vfprintf\<close> makes of the format and its arguments is the argument \<open>msg\<close>. Locking a
  mutex that is held or not initialised, and unlocking or destroying one in the wrong state, is \<^term>\<open>None\<close>.
\<close>

section \<open>Data\<close>

datatype vr_log_level_t = VR_LOG_INFO | VR_LOG_WARN | VR_LOG_ERROR

primrec vr_log_level_code :: "vr_log_level_t \<Rightarrow> int" where
  "vr_log_level_code VR_LOG_INFO = 0"
| "vr_log_level_code VR_LOG_WARN = 1"
| "vr_log_level_code VR_LOG_ERROR = 2"

datatype mutex = Mutex_none | Mutex_free | Mutex_held

record logger =
  log_ptr :: bool       \<comment> \<open>not null\<close>
  log_mutex :: mutex
  log_text :: string
  log_flushed :: nat
  log_stderr :: string

definition logger_start :: logger where
  "logger_start = \<lparr>log_ptr = False, log_mutex = Mutex_none, log_text = [], log_flushed = 0, log_stderr = []\<rparr>"

section \<open>The C library\<close>

definition newline :: string where "newline = [CHR 0x0A]"

definition mutex_lock :: "logger \<Rightarrow> logger option" where
  "mutex_lock l = (if log_mutex l = Mutex_free then Some (l\<lparr>log_mutex := Mutex_held\<rparr>) else None)"

definition mutex_unlock :: "logger \<Rightarrow> logger option" where
  "mutex_unlock l = (if log_mutex l = Mutex_held then Some (l\<lparr>log_mutex := Mutex_free\<rparr>) else None)"

definition mutex_destroy :: "logger \<Rightarrow> logger option" where
  "mutex_destroy l = (if log_mutex l = Mutex_free then Some (l\<lparr>log_mutex := Mutex_none\<rparr>) else None)"

text \<open>\<open>fprintf\<close> to the log, \<open>fflush\<close> and \<open>fclose\<close> of it: a null stream is \<^term>\<open>None\<close>.\<close>

definition log_print :: "string \<Rightarrow> logger \<Rightarrow> logger option" where
  "log_print txt l = (if log_ptr l then Some (l\<lparr>log_text := log_text l @ txt\<rparr>) else None)"

definition log_flush :: "logger \<Rightarrow> logger option" where
  "log_flush l = (if log_ptr l then Some (l\<lparr>log_flushed := length (log_text l)\<rparr>) else None)"

section \<open>With \<open>VR_DEBUG\<close>\<close>

definition level_prefix :: "int \<Rightarrow> string" where
  "level_prefix type =
     (if type = vr_log_level_code VR_LOG_INFO then ''INFO: ''
      else if type = vr_log_level_code VR_LOG_ERROR then ''ERROR: ''
      else if type = vr_log_level_code VR_LOG_WARN then ''WARN: ''
      else ''UNKNOWN: '')"

definition vr_log :: "int \<Rightarrow> string \<Rightarrow> logger \<Rightarrow> logger option" where
  "vr_log type msg l =
     (if \<not> log_ptr l then Some l
      else do {
        l \<leftarrow> mutex_lock l;
        l \<leftarrow> log_print (level_prefix type) l;
        l \<leftarrow> log_print msg l;
        l \<leftarrow> log_print newline l;
        l \<leftarrow> (if type = vr_log_level_code VR_LOG_ERROR then log_flush l else Some l);
        mutex_unlock l
      })"

definition vr_log_init :: "bool \<Rightarrow> bool \<Rightarrow> logger \<Rightarrow> (vr_result_t \<times> logger) option" where
  "vr_log_init opened mutex_ok l =
     (if \<not> opened then
        Some (VR_ERROR, l\<lparr>log_ptr := False, log_stderr := log_stderr l @ ''Error while opening log file'' @ newline\<rparr>)
      else if \<not> mutex_ok then
        Some (VR_ERROR, l\<lparr>log_ptr := False, log_stderr := log_stderr l @ ''Error while initializing mutex'' @ newline\<rparr>)
      else do {
        l \<leftarrow> vr_log (vr_log_level_code VR_LOG_INFO) ''INITIALIZED'' (l\<lparr>log_ptr := True, log_mutex := Mutex_free\<rparr>);
        Some (VR_SUCCESS, l)
      })"

definition vr_log_close :: "logger \<Rightarrow> logger option" where
  "vr_log_close l =
     (if \<not> log_ptr l then Some l
      else do {
        l \<leftarrow> mutex_lock l;
        l \<leftarrow> log_flush l;
        l \<leftarrow> log_print (''EXIT'' @ newline) l;
        l \<leftarrow> log_flush l;
        let l = l\<lparr>log_ptr := False\<rparr>;
        l \<leftarrow> mutex_unlock l;
        mutex_destroy l
      })"

text \<open>\<open>vr_perror\<close>: \<open>err\<close> is the text of \<open>strerror(errno)\<close>.\<close>

definition vr_perror :: "string \<Rightarrow> string \<Rightarrow> logger \<Rightarrow> logger option" where
  "vr_perror msg err l = vr_log (vr_log_level_code VR_LOG_ERROR) (msg @ '': '' @ err) l"

section \<open>Without \<open>VR_DEBUG\<close>\<close>

definition vr_log_init_stub :: vr_result_t where "vr_log_init_stub = VR_SUCCESS"

definition vr_log_stub :: "int \<Rightarrow> string \<Rightarrow> unit" where "vr_log_stub type fmt = ()"

definition vr_log_close_stub :: unit where "vr_log_close_stub = ()"

section \<open>Properties\<close>

text \<open>What a logger that has been initialised and not closed looks like between calls.\<close>

definition logger_ready :: "logger \<Rightarrow> bool" where
  "logger_ready l \<longleftrightarrow> log_ptr l \<and> log_mutex l = Mutex_free \<and> log_flushed l \<le> length (log_text l)"

definition log_line :: "int \<times> string \<Rightarrow> string" where
  "log_line = (\<lambda>(type, msg). level_prefix type @ msg @ newline)"

primrec log_all :: "(int \<times> string) list \<Rightarrow> logger \<Rightarrow> logger option" where
  "log_all [] l = Some l"
| "log_all (m # ms) l = do { l \<leftarrow> vr_log (fst m) (snd m) l; log_all ms l }"

lemma vr_log_ready:
  assumes "logger_ready l"
  obtains l' where "vr_log type msg l = Some l'" "logger_ready l'"
    "log_text l' = log_text l @ log_line (type, msg)" "log_stderr l' = log_stderr l"
    "type = vr_log_level_code VR_LOG_ERROR \<Longrightarrow> log_flushed l' = length (log_text l')"
proof (rule that)
  let ?txt = "log_text l @ log_line (type, msg)"
  let ?l' = "l\<lparr>log_mutex := Mutex_free, log_text := ?txt,
    log_flushed := (if type = vr_log_level_code VR_LOG_ERROR then length ?txt else log_flushed l)\<rparr>"
  show "vr_log type msg l = Some ?l'"
    using assms by (simp add: vr_log_def logger_ready_def mutex_lock_def log_print_def log_flush_def
        mutex_unlock_def log_line_def)
  show "logger_ready ?l'" using assms by (simp add: logger_ready_def)
qed simp_all

lemma log_all_ready:
  assumes "logger_ready l"
  shows "\<exists>l'. log_all ms l = Some l' \<and> logger_ready l' \<and> log_text l' = log_text l @ concat (map log_line ms)"
  using assms
proof (induction ms arbitrary: l)
  case (Cons m ms)
  obtain l1 where l1: "vr_log (fst m) (snd m) l = Some l1" "logger_ready l1" "log_text l1 = log_text l @ log_line m"
    by (rule vr_log_ready [OF Cons.prems, of "fst m" "snd m"]) simp
  from Cons.IH [OF l1(2)] l1 show ?case by auto
qed simp

text \<open>C39. A logging session: after a successful \<open>vr_log_init\<close> every call of \<open>vr_log\<close> appends exactly one line,
  in order, no call locks a mutex that is held or gone, and \<open>vr_log_close\<close> flushes all of it, ends the file with
  \<open>EXIT\<close> and leaves a state in which \<open>vr_log\<close> and a second \<open>vr_log_close\<close> do nothing.\<close>

theorem log_session:
  "\<exists>l l' l''. vr_log_init True True logger_start = Some (VR_SUCCESS, l) \<and> log_all ms l = Some l' \<and>
    vr_log_close l' = Some l'' \<and>
    log_text l'' = concat (map log_line ((vr_log_level_code VR_LOG_INFO, ''INITIALIZED'') # ms)) @ ''EXIT'' @ newline \<and>
    log_flushed l'' = length (log_text l'') \<and> log_mutex l'' = Mutex_none \<and>
    vr_log type msg l'' = Some l'' \<and> vr_log_close l'' = Some l''"
proof -
  let ?l = "logger_start\<lparr>log_ptr := True, log_mutex := Mutex_free\<rparr>"
  have "logger_ready ?l" by (simp add: logger_ready_def logger_start_def)
  then obtain l where l: "vr_log (vr_log_level_code VR_LOG_INFO) ''INITIALIZED'' ?l = Some l" "logger_ready l"
      "log_text l = log_line (vr_log_level_code VR_LOG_INFO, ''INITIALIZED'')"
    by (rule vr_log_ready [of ?l "vr_log_level_code VR_LOG_INFO" "''INITIALIZED''"]) (simp add: logger_start_def)
  obtain l' where l': "log_all ms l = Some l'" "logger_ready l'" "log_text l' = log_text l @ concat (map log_line ms)"
    using log_all_ready [OF l(2)] by blast
  let ?l2 = "l'\<lparr>log_text := log_text l' @ ''EXIT'' @ newline,
    log_flushed := length (log_text l' @ ''EXIT'' @ newline), log_ptr := False, log_mutex := Mutex_none\<rparr>"
  have "vr_log_close l' = Some ?l2"
    using l'(2) by (simp add: vr_log_close_def logger_ready_def mutex_lock_def log_print_def log_flush_def
        mutex_unlock_def mutex_destroy_def)
  moreover have "vr_log_init True True logger_start = Some (VR_SUCCESS, l)"
    using l(1) by (simp add: vr_log_init_def)
  moreover have "vr_log type msg ?l2 = Some ?l2" "vr_log_close ?l2 = Some ?l2"
    by (simp_all add: vr_log_def vr_log_close_def)
  ultimately show ?thesis using l'(1,3) l(3)
    by (intro exI [of _ l] exI [of _ l'] exI [of _ ?l2]) simp
qed

end
