(* ===== verification/Velora_Kernel_Types.thy ===== *)
theory Velora_Kernel_Types
  imports Velora_C_Layout
begin

text \<open>
  The types of \<open>ebpf-learning/xdp/vmlinux.h\<close> that the eBPF programs and the server meet: the headers of a
  received frame, the context and the actions of an XDP program, the interface of the \<open>bpf\<close> system call
  through which programs and maps are created, and the socket and epoll structures of the server's system
  calls. Structures are layouts, enumerations the list of their constants.
\<close>

type_synonym c_enum = "(string \<times> int) list"

definition enum_const :: "c_enum \<Rightarrow> string \<Rightarrow> int option" where
  "enum_const e name = map_of e name"

section \<open>Headers of a frame\<close>

definition ethhdr :: ctype where
  "ethhdr = C_struct [
    (''h_dest'', C_array (C_int 1) 6), (''h_source'', C_array (C_int 1) 6), (''h_proto'', C_int 2)]"

definition iphdr :: ctype where
  "iphdr = C_struct [
    ('''', C_bits 1 [(''ihl'', 4), (''version'', 4)]), (''tos'', C_int 1), (''tot_len'', C_int 2),
    (''id'', C_int 2), (''frag_off'', C_int 2), (''ttl'', C_int 1), (''protocol'', C_int 1),
    (''check'', C_int 2),
    ('''', C_union [
      ('''', C_struct [
        (''saddr'', C_int 4), (''daddr'', C_int 4)]),
      (''addrs'', C_struct [
        (''saddr'', C_int 4), (''daddr'', C_int 4)])])]"

definition in6_addr :: ctype where
  "in6_addr = C_struct [
    (''in6_u'', C_union [
      (''u6_addr8'', C_array (C_int 1) 16), (''u6_addr16'', C_array (C_int 2) 8),
      (''u6_addr32'', C_array (C_int 4) 4)])]"

definition ipv6hdr :: ctype where
  "ipv6hdr = C_struct [
    ('''', C_bits 1 [(''priority'', 4), (''version'', 4)]), (''flow_lbl'', C_array (C_int 1) 3),
    (''payload_len'', C_int 2), (''nexthdr'', C_int 1), (''hop_limit'', C_int 1),
    ('''', C_union [
      ('''', C_struct [
        (''saddr'', in6_addr), (''daddr'', in6_addr)]),
      (''addrs'', C_struct [
        (''saddr'', in6_addr), (''daddr'', in6_addr)])])]"

definition tcphdr :: ctype where
  "tcphdr = C_struct [
    (''source'', C_int 2), (''dest'', C_int 2), (''seq'', C_int 4), (''ack_seq'', C_int 4),
    ('''', C_bits 2 [(''res1'', 4), (''doff'', 4), (''fin'', 1), (''syn'', 1), (''rst'', 1), (''psh'', 1), (''ack'', 1), (''urg'', 1), (''ece'', 1), (''cwr'', 1)]),
    (''window'', C_int 2), (''check'', C_int 2), (''urg_ptr'', C_int 2)]"

definition udphdr :: ctype where
  "udphdr = C_struct [
    (''source'', C_int 2), (''dest'', C_int 2), (''len'', C_int 2), (''check'', C_int 2)]"

section \<open>Structures of the socket and epoll calls\<close>

definition in_addr :: ctype where
  "in_addr = C_struct [
    (''s_addr'', C_int 4)]"

definition kernel_sockaddr_in :: ctype where
  "kernel_sockaddr_in = C_struct [
    (''sin_family'', C_int 2), (''sin_port'', C_int 2), (''sin_addr'', in_addr),
    (''__pad'', C_array (C_int 1) 8)]"

definition sockaddr :: ctype where
  "sockaddr = C_struct [
    (''sa_family'', C_int 2),
    ('''', C_union [
      (''sa_data_min'', C_array (C_int 1) 14),
      ('''', C_struct [
        (''__empty_sa_data'', C_struct []), (''sa_data'', C_array (C_int 1) 0)])])]"

definition iovec :: ctype where
  "iovec = C_struct [
    (''iov_base'', C_ptr), (''iov_len'', C_int 8)]"

definition user_msghdr :: ctype where
  "user_msghdr = C_struct [
    (''msg_name'', C_ptr), (''msg_namelen'', C_int 4), (''msg_iov'', C_ptr), (''msg_iovlen'', C_int 8),
    (''msg_control'', C_ptr), (''msg_controllen'', C_int 8), (''msg_flags'', C_int 4)]"

definition epoll_event :: ctype where
  "epoll_event = C_packed [
    (''events'', C_int 4), (''data'', C_int 8)]"

section \<open>Instructions, maps and programs\<close>

definition bpf_insn :: ctype where
  "bpf_insn = C_struct [
    (''code'', C_int 1), ('''', C_bits 1 [(''dst_reg'', 4), (''src_reg'', 4)]), (''off'', C_int 2),
    (''imm'', C_int 4)]"

definition bpf_sock :: ctype where
  "bpf_sock = C_struct [
    (''bound_dev_if'', C_int 4), (''family'', C_int 4), (''type'', C_int 4), (''protocol'', C_int 4),
    (''mark'', C_int 4), (''priority'', C_int 4), (''src_ip4'', C_int 4),
    (''src_ip6'', C_array (C_int 4) 4), (''src_port'', C_int 4), (''dst_port'', C_int 2),
    (''dst_ip4'', C_int 4), (''dst_ip6'', C_array (C_int 4) 4), (''state'', C_int 4),
    (''rx_queue_mapping'', C_int 4)]"

definition sk_buff :: ctype where
  "sk_buff = C_struct [
    (''len'', C_int 4), (''pkt_type'', C_int 4), (''mark'', C_int 4), (''queue_mapping'', C_int 4),
    (''protocol'', C_int 4), (''vlan_present'', C_int 4), (''vlan_tci'', C_int 4),
    (''vlan_proto'', C_int 4), (''priority'', C_int 4), (''ingress_ifindex'', C_int 4),
    (''ifindex'', C_int 4), (''tc_index'', C_int 4), (''cb'', C_array (C_int 4) 5), (''hash'', C_int 4),
    (''tc_classid'', C_int 4), (''data'', C_int 4), (''data_end'', C_int 4), (''napi_id'', C_int 4),
    (''family'', C_int 4), (''remote_ip4'', C_int 4), (''local_ip4'', C_int 4),
    (''remote_ip6'', C_array (C_int 4) 4), (''local_ip6'', C_array (C_int 4) 4),
    (''remote_port'', C_int 4), (''local_port'', C_int 4), (''data_meta'', C_int 4),
    ('''', C_union [
      (''flow_keys'', C_ptr)]),
    (''tstamp'', C_int 8), (''wire_len'', C_int 4), (''gso_segs'', C_int 4),
    ('''', C_union [
      (''sk'', C_ptr)]),
    (''gso_size'', C_int 4), (''tstamp_type'', C_int 1), (''hwtstamp'', C_int 8)]"

definition bpf_prog_info :: ctype where
  "bpf_prog_info = C_struct [
    (''type'', C_int 4), (''id'', C_int 4), (''tag'', C_array (C_int 1) 8), (''jited_prog_len'', C_int 4),
    (''xlated_prog_len'', C_int 4), (''jited_prog_insns'', C_int 8), (''xlated_prog_insns'', C_int 8),
    (''load_time'', C_int 8), (''created_by_uid'', C_int 4), (''nr_map_ids'', C_int 4),
    (''map_ids'', C_int 8), (''name'', C_array (C_int 1) 16), (''ifindex'', C_int 4),
    ('''', C_bits 4 [(''gpl_compatible'', 1)]), (''netns_dev'', C_int 8), (''netns_ino'', C_int 8),
    (''nr_jited_ksyms'', C_int 4), (''nr_jited_func_lens'', C_int 4), (''jited_ksyms'', C_int 8),
    (''jited_func_lens'', C_int 8), (''btf_id'', C_int 4), (''func_info_rec_size'', C_int 4),
    (''func_info'', C_int 8), (''nr_func_info'', C_int 4), (''nr_line_info'', C_int 4),
    (''line_info'', C_int 8), (''jited_line_info'', C_int 8), (''nr_jited_line_info'', C_int 4),
    (''line_info_rec_size'', C_int 4), (''jited_line_info_rec_size'', C_int 4),
    (''nr_prog_tags'', C_int 4), (''prog_tags'', C_int 8), (''run_time_ns'', C_int 8),
    (''run_cnt'', C_int 8), (''recursion_misses'', C_int 8), (''verified_insns'', C_int 4),
    (''attach_btf_obj_id'', C_int 4), (''attach_btf_id'', C_int 4)]"

definition bpf_map_info :: ctype where
  "bpf_map_info = C_struct [
    (''type'', C_int 4), (''id'', C_int 4), (''key_size'', C_int 4), (''value_size'', C_int 4),
    (''max_entries'', C_int 4), (''map_flags'', C_int 4), (''name'', C_array (C_int 1) 16),
    (''ifindex'', C_int 4), (''btf_vmlinux_value_type_id'', C_int 4), (''netns_dev'', C_int 8),
    (''netns_ino'', C_int 8), (''btf_id'', C_int 4), (''btf_key_type_id'', C_int 4),
    (''btf_value_type_id'', C_int 4), (''map_extra'', C_int 8)]"

definition bpf_btf_info :: ctype where
  "bpf_btf_info = C_struct [
    (''btf'', C_int 8), (''btf_size'', C_int 4), (''id'', C_int 4), (''name'', C_int 8),
    (''name_len'', C_int 4), (''kernel_btf'', C_int 4)]"

definition bpf_link_info :: ctype where
  "bpf_link_info = C_struct [
    (''type'', C_int 4), (''id'', C_int 4), (''prog_id'', C_int 4),
    ('''', C_union [
      (''raw_tracepoint'', C_struct [
        (''tp_name'', C_int 8), (''tp_name_len'', C_int 4)]),
      (''tracing'', C_struct [
        (''attach_type'', C_int 4), (''target_obj_id'', C_int 4), (''target_btf_id'', C_int 4)]),
      (''cgroup'', C_struct [
        (''cgroup_id'', C_int 8), (''attach_type'', C_int 4)]),
      (''iter'', C_struct [
        (''target_name'', C_int 8), (''target_name_len'', C_int 4),
        ('''', C_union [
          (''map'', C_struct [
            (''map_id'', C_int 4)])]),
        ('''', C_union [
          (''cgroup'', C_struct [
            (''cgroup_id'', C_int 8), (''order'', C_int 4)]),
          (''task'', C_struct [
            (''tid'', C_int 4), (''pid'', C_int 4)])])]),
      (''netns'', C_struct [
        (''netns_ino'', C_int 4), (''attach_type'', C_int 4)]),
      (''xdp'', C_struct [
        (''ifindex'', C_int 4)]),
      (''struct_ops'', C_struct [
        (''map_id'', C_int 4)]),
      (''netfilter'', C_struct [
        (''pf'', C_int 4), (''hooknum'', C_int 4), (''priority'', C_int 4), (''flags'', C_int 4)]),
      (''kprobe_multi'', C_struct [
        (''addrs'', C_int 8), (''count'', C_int 4), (''flags'', C_int 4), (''missed'', C_int 8)]),
      (''uprobe_multi'', C_struct [
        (''path'', C_int 8), (''offsets'', C_int 8), (''ref_ctr_offsets'', C_int 8), (''cookies'', C_int 8),
        (''path_size'', C_int 4), (''count'', C_int 4), (''flags'', C_int 4), (''pid'', C_int 4)]),
      (''perf_event'', C_struct [
        (''type'', C_int 4),
        ('''', C_union [
          (''uprobe'', C_struct [
            (''file_name'', C_int 8), (''name_len'', C_int 4), (''offset'', C_int 4), (''cookie'', C_int 8)]),
          (''kprobe'', C_struct [
            (''func_name'', C_int 8), (''name_len'', C_int 4), (''offset'', C_int 4), (''addr'', C_int 8),
            (''missed'', C_int 8), (''cookie'', C_int 8)]),
          (''tracepoint'', C_struct [
            (''tp_name'', C_int 8), (''name_len'', C_int 4), (''cookie'', C_int 8)]),
          (''event'', C_struct [
            (''config'', C_int 8), (''type'', C_int 4), (''cookie'', C_int 8)])])]),
      (''tcx'', C_struct [
        (''ifindex'', C_int 4), (''attach_type'', C_int 4)]),
      (''netkit'', C_struct [
        (''ifindex'', C_int 4), (''attach_type'', C_int 4)])])]"

definition bpf_attr_task_fd_query :: ctype where
  "bpf_attr_task_fd_query = C_struct [
    (''pid'', C_int 4), (''fd'', C_int 4), (''flags'', C_int 4), (''buf_len'', C_int 4),
    (''buf'', C_int 8), (''prog_id'', C_int 4), (''fd_type'', C_int 4), (''probe_offset'', C_int 8),
    (''probe_addr'', C_int 8)]"

definition bpf_attr_link_create :: ctype where
  "bpf_attr_link_create = C_struct [
    ('''', C_union [
      (''prog_fd'', C_int 4), (''map_fd'', C_int 4)]),
    ('''', C_union [
      (''target_fd'', C_int 4), (''target_ifindex'', C_int 4)]),
    (''attach_type'', C_int 4), (''flags'', C_int 4),
    ('''', C_union [
      (''target_btf_id'', C_int 4),
      ('''', C_struct [
        (''iter_info'', C_int 8), (''iter_info_len'', C_int 4)]),
      (''perf_event'', C_struct [
        (''bpf_cookie'', C_int 8)]),
      (''kprobe_multi'', C_struct [
        (''flags'', C_int 4), (''cnt'', C_int 4), (''syms'', C_int 8), (''addrs'', C_int 8),
        (''cookies'', C_int 8)]),
      (''tracing'', C_struct [
        (''target_btf_id'', C_int 4), (''cookie'', C_int 8)]),
      (''netfilter'', C_struct [
        (''pf'', C_int 4), (''hooknum'', C_int 4), (''priority'', C_int 4), (''flags'', C_int 4)]),
      (''tcx'', C_struct [
        ('''', C_union [
          (''relative_fd'', C_int 4), (''relative_id'', C_int 4)]),
        (''expected_revision'', C_int 8)]),
      (''uprobe_multi'', C_struct [
        (''path'', C_int 8), (''offsets'', C_int 8), (''ref_ctr_offsets'', C_int 8), (''cookies'', C_int 8),
        (''cnt'', C_int 4), (''flags'', C_int 4), (''pid'', C_int 4)]),
      (''netkit'', C_struct [
        ('''', C_union [
          (''relative_fd'', C_int 4), (''relative_id'', C_int 4)]),
        (''expected_revision'', C_int 8)])])]"

definition bpf_attr_link_update :: ctype where
  "bpf_attr_link_update = C_struct [
    (''link_fd'', C_int 4),
    ('''', C_union [
      (''new_prog_fd'', C_int 4), (''new_map_fd'', C_int 4)]),
    (''flags'', C_int 4),
    ('''', C_union [
      (''old_prog_fd'', C_int 4), (''old_map_fd'', C_int 4)])]"

definition bpf_attr :: ctype where
  "bpf_attr = C_union [
    ('''', C_struct [
      (''map_type'', C_int 4), (''key_size'', C_int 4), (''value_size'', C_int 4),
      (''max_entries'', C_int 4), (''map_flags'', C_int 4), (''inner_map_fd'', C_int 4),
      (''numa_node'', C_int 4), (''map_name'', C_array (C_int 1) 16), (''map_ifindex'', C_int 4),
      (''btf_fd'', C_int 4), (''btf_key_type_id'', C_int 4), (''btf_value_type_id'', C_int 4),
      (''btf_vmlinux_value_type_id'', C_int 4), (''map_extra'', C_int 8)]),
    ('''', C_struct [
      (''map_fd'', C_int 4), (''key'', C_int 8),
      ('''', C_union [
        (''value'', C_int 8), (''next_key'', C_int 8)]),
      (''flags'', C_int 8)]),
    (''batch'', C_struct [
      (''in_batch'', C_int 8), (''out_batch'', C_int 8), (''keys'', C_int 8), (''values'', C_int 8),
      (''count'', C_int 4), (''map_fd'', C_int 4), (''elem_flags'', C_int 8), (''flags'', C_int 8)]),
    ('''', C_struct [
      (''prog_type'', C_int 4), (''insn_cnt'', C_int 4), (''insns'', C_int 8), (''license'', C_int 8),
      (''log_level'', C_int 4), (''log_size'', C_int 4), (''log_buf'', C_int 8), (''kern_version'', C_int 4),
      (''prog_flags'', C_int 4), (''prog_name'', C_array (C_int 1) 16), (''prog_ifindex'', C_int 4),
      (''expected_attach_type'', C_int 4), (''prog_btf_fd'', C_int 4), (''func_info_rec_size'', C_int 4),
      (''func_info'', C_int 8), (''func_info_cnt'', C_int 4), (''line_info_rec_size'', C_int 4),
      (''line_info'', C_int 8), (''line_info_cnt'', C_int 4), (''attach_btf_id'', C_int 4),
      ('''', C_union [
        (''attach_prog_fd'', C_int 4), (''attach_btf_obj_fd'', C_int 4)]),
      (''core_relo_cnt'', C_int 4), (''fd_array'', C_int 8), (''core_relos'', C_int 8),
      (''core_relo_rec_size'', C_int 4), (''log_true_size'', C_int 4)]),
    ('''', C_struct [
      (''pathname'', C_int 8), (''bpf_fd'', C_int 4), (''file_flags'', C_int 4), (''path_fd'', C_int 4)]),
    ('''', C_struct [
      ('''', C_union [
        (''target_fd'', C_int 4), (''target_ifindex'', C_int 4)]),
      (''attach_bpf_fd'', C_int 4), (''attach_type'', C_int 4), (''attach_flags'', C_int 4),
      (''replace_bpf_fd'', C_int 4),
      ('''', C_union [
        (''relative_fd'', C_int 4), (''relative_id'', C_int 4)]),
      (''expected_revision'', C_int 8)]),
    (''test'', C_struct [
      (''prog_fd'', C_int 4), (''retval'', C_int 4), (''data_size_in'', C_int 4),
      (''data_size_out'', C_int 4), (''data_in'', C_int 8), (''data_out'', C_int 8), (''repeat'', C_int 4),
      (''duration'', C_int 4), (''ctx_size_in'', C_int 4), (''ctx_size_out'', C_int 4),
      (''ctx_in'', C_int 8), (''ctx_out'', C_int 8), (''flags'', C_int 4), (''cpu'', C_int 4),
      (''batch_size'', C_int 4)]),
    ('''', C_struct [
      ('''', C_union [
        (''start_id'', C_int 4), (''prog_id'', C_int 4), (''map_id'', C_int 4), (''btf_id'', C_int 4),
        (''link_id'', C_int 4)]),
      (''next_id'', C_int 4), (''open_flags'', C_int 4)]),
    (''info'', C_struct [
      (''bpf_fd'', C_int 4), (''info_len'', C_int 4), (''info'', C_int 8)]),
    (''query'', C_struct [
      ('''', C_union [
        (''target_fd'', C_int 4), (''target_ifindex'', C_int 4)]),
      (''attach_type'', C_int 4), (''query_flags'', C_int 4), (''attach_flags'', C_int 4),
      (''prog_ids'', C_int 8),
      ('''', C_union [
        (''prog_cnt'', C_int 4), (''count'', C_int 4)]),
      (''prog_attach_flags'', C_int 8), (''link_ids'', C_int 8), (''link_attach_flags'', C_int 8),
      (''revision'', C_int 8)]),
    (''raw_tracepoint'', C_struct [
      (''name'', C_int 8), (''prog_fd'', C_int 4)]),
    ('''', C_struct [
      (''btf'', C_int 8), (''btf_log_buf'', C_int 8), (''btf_size'', C_int 4), (''btf_log_size'', C_int 4),
      (''btf_log_level'', C_int 4), (''btf_log_true_size'', C_int 4)]),
    (''task_fd_query'', bpf_attr_task_fd_query),
    (''link_create'', bpf_attr_link_create),
    (''link_update'', bpf_attr_link_update),
    (''link_detach'', C_struct [
      (''link_fd'', C_int 4)]),
    (''enable_stats'', C_struct [
      (''type'', C_int 4)]),
    (''iter_create'', C_struct [
      (''link_fd'', C_int 4), (''flags'', C_int 4)]),
    (''prog_bind_map'', C_struct [
      (''prog_fd'', C_int 4), (''map_fd'', C_int 4), (''flags'', C_int 4)])]"

section \<open>Constants\<close>

definition bpf_cmd :: c_enum where
  "bpf_cmd = [
    (''BPF_MAP_CREATE'', 0), (''BPF_MAP_LOOKUP_ELEM'', 1), (''BPF_MAP_UPDATE_ELEM'', 2),
    (''BPF_MAP_DELETE_ELEM'', 3), (''BPF_MAP_GET_NEXT_KEY'', 4), (''BPF_PROG_LOAD'', 5),
    (''BPF_OBJ_PIN'', 6), (''BPF_OBJ_GET'', 7), (''BPF_PROG_ATTACH'', 8), (''BPF_PROG_DETACH'', 9),
    (''BPF_PROG_TEST_RUN'', 10), (''BPF_PROG_RUN'', 10), (''BPF_PROG_GET_NEXT_ID'', 11),
    (''BPF_MAP_GET_NEXT_ID'', 12), (''BPF_PROG_GET_FD_BY_ID'', 13), (''BPF_MAP_GET_FD_BY_ID'', 14),
    (''BPF_OBJ_GET_INFO_BY_FD'', 15), (''BPF_PROG_QUERY'', 16), (''BPF_RAW_TRACEPOINT_OPEN'', 17),
    (''BPF_BTF_LOAD'', 18), (''BPF_BTF_GET_FD_BY_ID'', 19), (''BPF_TASK_FD_QUERY'', 20),
    (''BPF_MAP_LOOKUP_AND_DELETE_ELEM'', 21), (''BPF_MAP_FREEZE'', 22), (''BPF_BTF_GET_NEXT_ID'', 23),
    (''BPF_MAP_LOOKUP_BATCH'', 24), (''BPF_MAP_LOOKUP_AND_DELETE_BATCH'', 25),
    (''BPF_MAP_UPDATE_BATCH'', 26), (''BPF_MAP_DELETE_BATCH'', 27), (''BPF_LINK_CREATE'', 28),
    (''BPF_LINK_UPDATE'', 29), (''BPF_LINK_GET_FD_BY_ID'', 30), (''BPF_LINK_GET_NEXT_ID'', 31),
    (''BPF_ENABLE_STATS'', 32), (''BPF_ITER_CREATE'', 33), (''BPF_LINK_DETACH'', 34),
    (''BPF_PROG_BIND_MAP'', 35)]"

definition bpf_map_type :: c_enum where
  "bpf_map_type = [
    (''BPF_MAP_TYPE_UNSPEC'', 0), (''BPF_MAP_TYPE_HASH'', 1), (''BPF_MAP_TYPE_ARRAY'', 2),
    (''BPF_MAP_TYPE_PROG_ARRAY'', 3), (''BPF_MAP_TYPE_PERF_EVENT_ARRAY'', 4),
    (''BPF_MAP_TYPE_PERCPU_HASH'', 5), (''BPF_MAP_TYPE_PERCPU_ARRAY'', 6),
    (''BPF_MAP_TYPE_STACK_TRACE'', 7), (''BPF_MAP_TYPE_CGROUP_ARRAY'', 8), (''BPF_MAP_TYPE_LRU_HASH'', 9),
    (''BPF_MAP_TYPE_LRU_PERCPU_HASH'', 10), (''BPF_MAP_TYPE_LPM_TRIE'', 11),
    (''BPF_MAP_TYPE_ARRAY_OF_MAPS'', 12), (''BPF_MAP_TYPE_HASH_OF_MAPS'', 13),
    (''BPF_MAP_TYPE_DEVMAP'', 14), (''BPF_MAP_TYPE_SOCKMAP'', 15), (''BPF_MAP_TYPE_CPUMAP'', 16),
    (''BPF_MAP_TYPE_XSKMAP'', 17), (''BPF_MAP_TYPE_SOCKHASH'', 18),
    (''BPF_MAP_TYPE_CGROUP_STORAGE_DEPRECATED'', 19), (''BPF_MAP_TYPE_CGROUP_STORAGE'', 19),
    (''BPF_MAP_TYPE_REUSEPORT_SOCKARRAY'', 20), (''BPF_MAP_TYPE_PERCPU_CGROUP_STORAGE_DEPRECATED'', 21),
    (''BPF_MAP_TYPE_PERCPU_CGROUP_STORAGE'', 21), (''BPF_MAP_TYPE_QUEUE'', 22),
    (''BPF_MAP_TYPE_STACK'', 23), (''BPF_MAP_TYPE_SK_STORAGE'', 24), (''BPF_MAP_TYPE_DEVMAP_HASH'', 25),
    (''BPF_MAP_TYPE_STRUCT_OPS'', 26), (''BPF_MAP_TYPE_RINGBUF'', 27),
    (''BPF_MAP_TYPE_INODE_STORAGE'', 28), (''BPF_MAP_TYPE_TASK_STORAGE'', 29),
    (''BPF_MAP_TYPE_BLOOM_FILTER'', 30), (''BPF_MAP_TYPE_USER_RINGBUF'', 31),
    (''BPF_MAP_TYPE_CGRP_STORAGE'', 32)]"

definition bpf_prog_type :: c_enum where
  "bpf_prog_type = [
    (''BPF_PROG_TYPE_UNSPEC'', 0), (''BPF_PROG_TYPE_SOCKET_FILTER'', 1), (''BPF_PROG_TYPE_KPROBE'', 2),
    (''BPF_PROG_TYPE_SCHED_CLS'', 3), (''BPF_PROG_TYPE_SCHED_ACT'', 4), (''BPF_PROG_TYPE_TRACEPOINT'', 5),
    (''BPF_PROG_TYPE_XDP'', 6), (''BPF_PROG_TYPE_PERF_EVENT'', 7), (''BPF_PROG_TYPE_CGROUP_SKB'', 8),
    (''BPF_PROG_TYPE_CGROUP_SOCK'', 9), (''BPF_PROG_TYPE_LWT_IN'', 10), (''BPF_PROG_TYPE_LWT_OUT'', 11),
    (''BPF_PROG_TYPE_LWT_XMIT'', 12), (''BPF_PROG_TYPE_SOCK_OPS'', 13), (''BPF_PROG_TYPE_SK_SKB'', 14),
    (''BPF_PROG_TYPE_CGROUP_DEVICE'', 15), (''BPF_PROG_TYPE_SK_MSG'', 16),
    (''BPF_PROG_TYPE_RAW_TRACEPOINT'', 17), (''BPF_PROG_TYPE_CGROUP_SOCK_ADDR'', 18),
    (''BPF_PROG_TYPE_LWT_SEG6LOCAL'', 19), (''BPF_PROG_TYPE_LIRC_MODE2'', 20),
    (''BPF_PROG_TYPE_SK_REUSEPORT'', 21), (''BPF_PROG_TYPE_FLOW_DISSECTOR'', 22),
    (''BPF_PROG_TYPE_CGROUP_SYSCTL'', 23), (''BPF_PROG_TYPE_RAW_TRACEPOINT_WRITABLE'', 24),
    (''BPF_PROG_TYPE_CGROUP_SOCKOPT'', 25), (''BPF_PROG_TYPE_TRACING'', 26),
    (''BPF_PROG_TYPE_STRUCT_OPS'', 27), (''BPF_PROG_TYPE_EXT'', 28), (''BPF_PROG_TYPE_LSM'', 29),
    (''BPF_PROG_TYPE_SK_LOOKUP'', 30), (''BPF_PROG_TYPE_SYSCALL'', 31), (''BPF_PROG_TYPE_NETFILTER'', 32),
    (''__MAX_BPF_PROG_TYPE'', 33)]"

definition bpf_attach_type :: c_enum where
  "bpf_attach_type = [
    (''BPF_CGROUP_INET_INGRESS'', 0), (''BPF_CGROUP_INET_EGRESS'', 1),
    (''BPF_CGROUP_INET_SOCK_CREATE'', 2), (''BPF_CGROUP_SOCK_OPS'', 3), (''BPF_SK_SKB_STREAM_PARSER'', 4),
    (''BPF_SK_SKB_STREAM_VERDICT'', 5), (''BPF_CGROUP_DEVICE'', 6), (''BPF_SK_MSG_VERDICT'', 7),
    (''BPF_CGROUP_INET4_BIND'', 8), (''BPF_CGROUP_INET6_BIND'', 9), (''BPF_CGROUP_INET4_CONNECT'', 10),
    (''BPF_CGROUP_INET6_CONNECT'', 11), (''BPF_CGROUP_INET4_POST_BIND'', 12),
    (''BPF_CGROUP_INET6_POST_BIND'', 13), (''BPF_CGROUP_UDP4_SENDMSG'', 14),
    (''BPF_CGROUP_UDP6_SENDMSG'', 15), (''BPF_LIRC_MODE2'', 16), (''BPF_FLOW_DISSECTOR'', 17),
    (''BPF_CGROUP_SYSCTL'', 18), (''BPF_CGROUP_UDP4_RECVMSG'', 19), (''BPF_CGROUP_UDP6_RECVMSG'', 20),
    (''BPF_CGROUP_GETSOCKOPT'', 21), (''BPF_CGROUP_SETSOCKOPT'', 22), (''BPF_TRACE_RAW_TP'', 23),
    (''BPF_TRACE_FENTRY'', 24), (''BPF_TRACE_FEXIT'', 25), (''BPF_MODIFY_RETURN'', 26),
    (''BPF_LSM_MAC'', 27), (''BPF_TRACE_ITER'', 28), (''BPF_CGROUP_INET4_GETPEERNAME'', 29),
    (''BPF_CGROUP_INET6_GETPEERNAME'', 30), (''BPF_CGROUP_INET4_GETSOCKNAME'', 31),
    (''BPF_CGROUP_INET6_GETSOCKNAME'', 32), (''BPF_XDP_DEVMAP'', 33),
    (''BPF_CGROUP_INET_SOCK_RELEASE'', 34), (''BPF_XDP_CPUMAP'', 35), (''BPF_SK_LOOKUP'', 36),
    (''BPF_XDP'', 37), (''BPF_SK_SKB_VERDICT'', 38), (''BPF_SK_REUSEPORT_SELECT'', 39),
    (''BPF_SK_REUSEPORT_SELECT_OR_MIGRATE'', 40), (''BPF_PERF_EVENT'', 41),
    (''BPF_TRACE_KPROBE_MULTI'', 42), (''BPF_LSM_CGROUP'', 43), (''BPF_STRUCT_OPS'', 44),
    (''BPF_NETFILTER'', 45), (''BPF_TCX_INGRESS'', 46), (''BPF_TCX_EGRESS'', 47),
    (''BPF_TRACE_UPROBE_MULTI'', 48), (''BPF_CGROUP_UNIX_CONNECT'', 49), (''BPF_CGROUP_UNIX_SENDMSG'', 50),
    (''BPF_CGROUP_UNIX_RECVMSG'', 51), (''BPF_CGROUP_UNIX_GETPEERNAME'', 52),
    (''BPF_CGROUP_UNIX_GETSOCKNAME'', 53), (''BPF_NETKIT_PRIMARY'', 54), (''BPF_NETKIT_PEER'', 55),
    (''__MAX_BPF_ATTACH_TYPE'', 56)]"

definition bpf_func_id :: c_enum where
  "bpf_func_id = [
    (''BPF_FUNC_unspec'', 0), (''BPF_FUNC_map_lookup_elem'', 1), (''BPF_FUNC_map_update_elem'', 2),
    (''BPF_FUNC_map_delete_elem'', 3), (''BPF_FUNC_probe_read'', 4), (''BPF_FUNC_ktime_get_ns'', 5),
    (''BPF_FUNC_trace_printk'', 6), (''BPF_FUNC_get_prandom_u32'', 7),
    (''BPF_FUNC_get_smp_processor_id'', 8), (''BPF_FUNC_skb_store_bytes'', 9),
    (''BPF_FUNC_l3_csum_replace'', 10), (''BPF_FUNC_l4_csum_replace'', 11), (''BPF_FUNC_tail_call'', 12),
    (''BPF_FUNC_clone_redirect'', 13), (''BPF_FUNC_get_current_pid_tgid'', 14),
    (''BPF_FUNC_get_current_uid_gid'', 15), (''BPF_FUNC_get_current_comm'', 16),
    (''BPF_FUNC_get_cgroup_classid'', 17), (''BPF_FUNC_skb_vlan_push'', 18),
    (''BPF_FUNC_skb_vlan_pop'', 19), (''BPF_FUNC_skb_get_tunnel_key'', 20),
    (''BPF_FUNC_skb_set_tunnel_key'', 21), (''BPF_FUNC_perf_event_read'', 22), (''BPF_FUNC_redirect'', 23),
    (''BPF_FUNC_get_route_realm'', 24), (''BPF_FUNC_perf_event_output'', 25),
    (''BPF_FUNC_skb_load_bytes'', 26), (''BPF_FUNC_get_stackid'', 27), (''BPF_FUNC_csum_diff'', 28),
    (''BPF_FUNC_skb_get_tunnel_opt'', 29), (''BPF_FUNC_skb_set_tunnel_opt'', 30),
    (''BPF_FUNC_skb_change_proto'', 31), (''BPF_FUNC_skb_change_type'', 32),
    (''BPF_FUNC_skb_under_cgroup'', 33), (''BPF_FUNC_get_hash_recalc'', 34),
    (''BPF_FUNC_get_current_task'', 35), (''BPF_FUNC_probe_write_user'', 36),
    (''BPF_FUNC_current_task_under_cgroup'', 37), (''BPF_FUNC_skb_change_tail'', 38),
    (''BPF_FUNC_skb_pull_data'', 39), (''BPF_FUNC_csum_update'', 40), (''BPF_FUNC_set_hash_invalid'', 41),
    (''BPF_FUNC_get_numa_node_id'', 42), (''BPF_FUNC_skb_change_head'', 43),
    (''BPF_FUNC_xdp_adjust_head'', 44), (''BPF_FUNC_probe_read_str'', 45),
    (''BPF_FUNC_get_socket_cookie'', 46), (''BPF_FUNC_get_socket_uid'', 47), (''BPF_FUNC_set_hash'', 48),
    (''BPF_FUNC_setsockopt'', 49), (''BPF_FUNC_skb_adjust_room'', 50), (''BPF_FUNC_redirect_map'', 51),
    (''BPF_FUNC_sk_redirect_map'', 52), (''BPF_FUNC_sock_map_update'', 53),
    (''BPF_FUNC_xdp_adjust_meta'', 54), (''BPF_FUNC_perf_event_read_value'', 55),
    (''BPF_FUNC_perf_prog_read_value'', 56), (''BPF_FUNC_getsockopt'', 57),
    (''BPF_FUNC_override_return'', 58), (''BPF_FUNC_sock_ops_cb_flags_set'', 59),
    (''BPF_FUNC_msg_redirect_map'', 60), (''BPF_FUNC_msg_apply_bytes'', 61),
    (''BPF_FUNC_msg_cork_bytes'', 62), (''BPF_FUNC_msg_pull_data'', 63), (''BPF_FUNC_bind'', 64),
    (''BPF_FUNC_xdp_adjust_tail'', 65), (''BPF_FUNC_skb_get_xfrm_state'', 66),
    (''BPF_FUNC_get_stack'', 67), (''BPF_FUNC_skb_load_bytes_relative'', 68),
    (''BPF_FUNC_fib_lookup'', 69), (''BPF_FUNC_sock_hash_update'', 70),
    (''BPF_FUNC_msg_redirect_hash'', 71), (''BPF_FUNC_sk_redirect_hash'', 72),
    (''BPF_FUNC_lwt_push_encap'', 73), (''BPF_FUNC_lwt_seg6_store_bytes'', 74),
    (''BPF_FUNC_lwt_seg6_adjust_srh'', 75), (''BPF_FUNC_lwt_seg6_action'', 76),
    (''BPF_FUNC_rc_repeat'', 77), (''BPF_FUNC_rc_keydown'', 78), (''BPF_FUNC_skb_cgroup_id'', 79),
    (''BPF_FUNC_get_current_cgroup_id'', 80), (''BPF_FUNC_get_local_storage'', 81),
    (''BPF_FUNC_sk_select_reuseport'', 82), (''BPF_FUNC_skb_ancestor_cgroup_id'', 83),
    (''BPF_FUNC_sk_lookup_tcp'', 84), (''BPF_FUNC_sk_lookup_udp'', 85), (''BPF_FUNC_sk_release'', 86),
    (''BPF_FUNC_map_push_elem'', 87), (''BPF_FUNC_map_pop_elem'', 88), (''BPF_FUNC_map_peek_elem'', 89),
    (''BPF_FUNC_msg_push_data'', 90), (''BPF_FUNC_msg_pop_data'', 91), (''BPF_FUNC_rc_pointer_rel'', 92),
    (''BPF_FUNC_spin_lock'', 93), (''BPF_FUNC_spin_unlock'', 94), (''BPF_FUNC_sk_fullsock'', 95),
    (''BPF_FUNC_tcp_sock'', 96), (''BPF_FUNC_skb_ecn_set_ce'', 97), (''BPF_FUNC_get_listener_sock'', 98),
    (''BPF_FUNC_skc_lookup_tcp'', 99), (''BPF_FUNC_tcp_check_syncookie'', 100),
    (''BPF_FUNC_sysctl_get_name'', 101), (''BPF_FUNC_sysctl_get_current_value'', 102),
    (''BPF_FUNC_sysctl_get_new_value'', 103), (''BPF_FUNC_sysctl_set_new_value'', 104),
    (''BPF_FUNC_strtol'', 105), (''BPF_FUNC_strtoul'', 106), (''BPF_FUNC_sk_storage_get'', 107),
    (''BPF_FUNC_sk_storage_delete'', 108), (''BPF_FUNC_send_signal'', 109),
    (''BPF_FUNC_tcp_gen_syncookie'', 110), (''BPF_FUNC_skb_output'', 111),
    (''BPF_FUNC_probe_read_user'', 112), (''BPF_FUNC_probe_read_kernel'', 113),
    (''BPF_FUNC_probe_read_user_str'', 114), (''BPF_FUNC_probe_read_kernel_str'', 115),
    (''BPF_FUNC_tcp_send_ack'', 116), (''BPF_FUNC_send_signal_thread'', 117),
    (''BPF_FUNC_jiffies64'', 118), (''BPF_FUNC_read_branch_records'', 119),
    (''BPF_FUNC_get_ns_current_pid_tgid'', 120), (''BPF_FUNC_xdp_output'', 121),
    (''BPF_FUNC_get_netns_cookie'', 122), (''BPF_FUNC_get_current_ancestor_cgroup_id'', 123),
    (''BPF_FUNC_sk_assign'', 124), (''BPF_FUNC_ktime_get_boot_ns'', 125), (''BPF_FUNC_seq_printf'', 126),
    (''BPF_FUNC_seq_write'', 127), (''BPF_FUNC_sk_cgroup_id'', 128),
    (''BPF_FUNC_sk_ancestor_cgroup_id'', 129), (''BPF_FUNC_ringbuf_output'', 130),
    (''BPF_FUNC_ringbuf_reserve'', 131), (''BPF_FUNC_ringbuf_submit'', 132),
    (''BPF_FUNC_ringbuf_discard'', 133), (''BPF_FUNC_ringbuf_query'', 134), (''BPF_FUNC_csum_level'', 135),
    (''BPF_FUNC_skc_to_tcp6_sock'', 136), (''BPF_FUNC_skc_to_tcp_sock'', 137),
    (''BPF_FUNC_skc_to_tcp_timewait_sock'', 138), (''BPF_FUNC_skc_to_tcp_request_sock'', 139),
    (''BPF_FUNC_skc_to_udp6_sock'', 140), (''BPF_FUNC_get_task_stack'', 141),
    (''BPF_FUNC_load_hdr_opt'', 142), (''BPF_FUNC_store_hdr_opt'', 143),
    (''BPF_FUNC_reserve_hdr_opt'', 144), (''BPF_FUNC_inode_storage_get'', 145),
    (''BPF_FUNC_inode_storage_delete'', 146), (''BPF_FUNC_d_path'', 147),
    (''BPF_FUNC_copy_from_user'', 148), (''BPF_FUNC_snprintf_btf'', 149),
    (''BPF_FUNC_seq_printf_btf'', 150), (''BPF_FUNC_skb_cgroup_classid'', 151),
    (''BPF_FUNC_redirect_neigh'', 152), (''BPF_FUNC_per_cpu_ptr'', 153), (''BPF_FUNC_this_cpu_ptr'', 154),
    (''BPF_FUNC_redirect_peer'', 155), (''BPF_FUNC_task_storage_get'', 156),
    (''BPF_FUNC_task_storage_delete'', 157), (''BPF_FUNC_get_current_task_btf'', 158),
    (''BPF_FUNC_bprm_opts_set'', 159), (''BPF_FUNC_ktime_get_coarse_ns'', 160),
    (''BPF_FUNC_ima_inode_hash'', 161), (''BPF_FUNC_sock_from_file'', 162), (''BPF_FUNC_check_mtu'', 163),
    (''BPF_FUNC_for_each_map_elem'', 164), (''BPF_FUNC_snprintf'', 165), (''BPF_FUNC_sys_bpf'', 166),
    (''BPF_FUNC_btf_find_by_name_kind'', 167), (''BPF_FUNC_sys_close'', 168),
    (''BPF_FUNC_timer_init'', 169), (''BPF_FUNC_timer_set_callback'', 170),
    (''BPF_FUNC_timer_start'', 171), (''BPF_FUNC_timer_cancel'', 172), (''BPF_FUNC_get_func_ip'', 173),
    (''BPF_FUNC_get_attach_cookie'', 174), (''BPF_FUNC_task_pt_regs'', 175),
    (''BPF_FUNC_get_branch_snapshot'', 176), (''BPF_FUNC_trace_vprintk'', 177),
    (''BPF_FUNC_skc_to_unix_sock'', 178), (''BPF_FUNC_kallsyms_lookup_name'', 179),
    (''BPF_FUNC_find_vma'', 180), (''BPF_FUNC_loop'', 181), (''BPF_FUNC_strncmp'', 182),
    (''BPF_FUNC_get_func_arg'', 183), (''BPF_FUNC_get_func_ret'', 184),
    (''BPF_FUNC_get_func_arg_cnt'', 185), (''BPF_FUNC_get_retval'', 186), (''BPF_FUNC_set_retval'', 187),
    (''BPF_FUNC_xdp_get_buff_len'', 188), (''BPF_FUNC_xdp_load_bytes'', 189),
    (''BPF_FUNC_xdp_store_bytes'', 190), (''BPF_FUNC_copy_from_user_task'', 191),
    (''BPF_FUNC_skb_set_tstamp'', 192), (''BPF_FUNC_ima_file_hash'', 193), (''BPF_FUNC_kptr_xchg'', 194),
    (''BPF_FUNC_map_lookup_percpu_elem'', 195), (''BPF_FUNC_skc_to_mptcp_sock'', 196),
    (''BPF_FUNC_dynptr_from_mem'', 197), (''BPF_FUNC_ringbuf_reserve_dynptr'', 198),
    (''BPF_FUNC_ringbuf_submit_dynptr'', 199), (''BPF_FUNC_ringbuf_discard_dynptr'', 200),
    (''BPF_FUNC_dynptr_read'', 201), (''BPF_FUNC_dynptr_write'', 202), (''BPF_FUNC_dynptr_data'', 203),
    (''BPF_FUNC_tcp_raw_gen_syncookie_ipv4'', 204), (''BPF_FUNC_tcp_raw_gen_syncookie_ipv6'', 205),
    (''BPF_FUNC_tcp_raw_check_syncookie_ipv4'', 206), (''BPF_FUNC_tcp_raw_check_syncookie_ipv6'', 207),
    (''BPF_FUNC_ktime_get_tai_ns'', 208), (''BPF_FUNC_user_ringbuf_drain'', 209),
    (''BPF_FUNC_cgrp_storage_get'', 210), (''BPF_FUNC_cgrp_storage_delete'', 211),
    (''__BPF_FUNC_MAX_ID'', 212)]"

definition bpf_update_flags :: c_enum where
  "bpf_update_flags = [
    (''BPF_ANY'', 0), (''BPF_NOEXIST'', 1), (''BPF_EXIST'', 2), (''BPF_F_LOCK'', 4)]"

end
