(* ===== verification/Velora_Ebpf.thy ===== *)
theory Velora_Ebpf
  imports Velora_Kernel_Types
begin

text \<open>
  The two eBPF programs of \<open>ebpf-learning\<close>: \<open>xdp_pass\<close> (\<open>xdp/xdp.bpf.c\<close>), which inspects the headers of a
  received frame, and \<open>count_execve\<close> (\<open>02-maps/hello.ebpf.c\<close>), which counts \<open>execve\<close> calls per process in a hash
  map. The kernel's helpers for the map are arguments of \<open>count_execve\<close>.
\<close>

section \<open>XDP: data\<close>

datatype xdp_action = XDP_ABORTED | XDP_DROP | XDP_PASS | XDP_TX | XDP_REDIRECT

primrec xdp_action_code :: "xdp_action \<Rightarrow> int" where
  "xdp_action_code XDP_ABORTED = 0"
| "xdp_action_code XDP_DROP = 1"
| "xdp_action_code XDP_PASS = 2"
| "xdp_action_code XDP_TX = 3"
| "xdp_action_code XDP_REDIRECT = 4"

record xdp_md =
  xdp_data :: uint32
  xdp_data_end :: uint32
  xdp_data_meta :: uint32
  xdp_ingress_ifindex :: uint32
  xdp_rx_queue_index :: uint32
  xdp_egress_ifindex :: uint32

section \<open>XDP: memory\<close>

text \<open>The frame lies at the address \<open>base\<close>; a load that is not inside it is \<^term>\<open>None\<close>. Loads are little-endian.\<close>

definition frame_read :: "nat \<Rightarrow> bytes \<Rightarrow> nat \<Rightarrow> nat \<Rightarrow> bytes option" where
  "frame_read base frame addr n = (if base \<le> addr then mem_read (Some frame) (addr - base) n else None)"

fun le_value :: "bytes \<Rightarrow> nat" where
  "le_value [] = 0"
| "le_value (b # bs) = unat b + 256 * le_value bs"

definition load8 :: "nat \<Rightarrow> bytes \<Rightarrow> nat \<Rightarrow> uint8 option" where
  "load8 base frame addr = map_option (\<lambda>bs. of_nat (le_value bs)) (frame_read base frame addr 1)"

definition load16 :: "nat \<Rightarrow> bytes \<Rightarrow> nat \<Rightarrow> uint16 option" where
  "load16 base frame addr = map_option (\<lambda>bs. of_nat (le_value bs)) (frame_read base frame addr 2)"

definition load32 :: "nat \<Rightarrow> bytes \<Rightarrow> nat \<Rightarrow> uint32 option" where
  "load32 base frame addr = map_option (\<lambda>bs. of_nat (le_value bs)) (frame_read base frame addr 4)"

text \<open>\<open>bpf_ntohs\<close> and \<open>bpf_ntohl\<close> reverse the bytes.\<close>

definition bpf_ntohs :: "uint16 \<Rightarrow> uint16" where
  "bpf_ntohs v = push_bit 8 v OR drop_bit 8 v"

definition bpf_ntohl :: "uint32 \<Rightarrow> uint32" where
  "bpf_ntohl v = push_bit 24 v OR push_bit 8 (v AND 0xFF00) OR (drop_bit 8 v AND 0xFF00) OR drop_bit 24 v"

section \<open>XDP: the program\<close>

text \<open>The result is the action and the calls of \<open>bpf_printk\<close>. An array passed to \<open>bpf_printk\<close> is its address.\<close>

type_synonym printk = "string \<times> nat list"

definition xdp_pass :: "xdp_md \<Rightarrow> bytes \<Rightarrow> (xdp_action \<times> printk list) option" where
  "xdp_pass ctx frame =
     (let data = unat (xdp_data ctx); data_end = unat (xdp_data_end ctx); eth = data
      in if eth + sizeof ethhdr > data_end then Some (XDP_PASS, [])
         else do {
           p \<leftarrow> offsetof ethhdr ''h_proto'';
           src \<leftarrow> offsetof ethhdr ''h_source'';
           dst \<leftarrow> offsetof ethhdr ''h_dest'';
           h_proto \<leftarrow> load16 data frame (eth + p);
           let log = [(''Ether Type: 0x%x'', [unat (bpf_ntohs h_proto)]), (''Ether src: %x'', [eth + src]),
                 (''Ether dest: %x'', [eth + dst])];
           if bpf_ntohs h_proto \<noteq> 0x0800 then Some (XDP_PASS, log)
           else let ip = eth + sizeof ethhdr
           in if ip + sizeof iphdr > data_end then Some (XDP_PASS, log)
           else do {
             o1 \<leftarrow> offsetof iphdr ''ttl'';
             o2 \<leftarrow> offsetof iphdr ''protocol'';
             o3 \<leftarrow> offsetof iphdr ''tot_len'';
             o4 \<leftarrow> offsetof iphdr ''saddr'';
             o5 \<leftarrow> offsetof iphdr ''daddr'';
             vihl \<leftarrow> load8 data frame ip;
             ttl \<leftarrow> load8 data frame (ip + o1);
             protocol \<leftarrow> load8 data frame (ip + o2);
             tot_len \<leftarrow> load16 data frame (ip + o3);
             saddr \<leftarrow> load32 data frame (ip + o4);
             daddr \<leftarrow> load32 data frame (ip + o5);
             Some (XDP_PASS, log @ [
               (''IPv4 packet-> IHL: %d TTL: %d protocol: %d'', [unat (vihl AND 15), unat ttl, unat protocol]),
               (''IPv4 packet-> total_len: %d src: %x dest: %x'',
                 [unat (bpf_ntohs tot_len), unat (bpf_ntohl saddr), unat (bpf_ntohl daddr)])])
           }
         })"

section \<open>Counting \<open>execve\<close>\<close>

text \<open>The declaration of the map \<open>counter\<close>.\<close>

record bpf_map_decl =
  decl_type :: "int option"
  decl_max_entries :: nat
  decl_key :: ctype
  decl_value :: ctype

definition counter :: bpf_map_decl where
  "counter = \<lparr>decl_type = enum_const bpf_map_type ''BPF_MAP_TYPE_HASH'', decl_max_entries = 1024,
     decl_key = C_int 4, decl_value = C_int 8\<rparr>"

text \<open>\<open>lookup\<close> is \<open>bpf_map_lookup_elem\<close>, whose pointer is null or that of the element; \<open>store\<close> writes through it;
  \<open>update\<close> is \<open>bpf_map_update_elem\<close> with \<open>BPF_ANY\<close>, whose result the program does not look at.\<close>

definition current_pid :: "uint64 \<Rightarrow> uint32" where
  "current_pid pid_tgid = ucast (drop_bit 32 pid_tgid)"

definition count_execve ::
  "('m \<Rightarrow> uint32 \<Rightarrow> uint64 option) \<Rightarrow> ('m \<Rightarrow> uint32 \<Rightarrow> uint64 \<Rightarrow> 'm) \<Rightarrow> ('m \<Rightarrow> uint32 \<Rightarrow> uint64 \<Rightarrow> 'm) \<Rightarrow>
     uint64 \<Rightarrow> 'm \<Rightarrow> int \<times> 'm" where
  "count_execve lookup store update pid_tgid m =
     (let pid = current_pid pid_tgid
      in case lookup m pid of
           Some count \<Rightarrow> (0, store m pid (count + 1))
         | None \<Rightarrow> (let initial = 1 in (0, update m pid initial)))"

text \<open>What the kernel documents of a hash map, as far as the program relies on it.\<close>

locale bpf_hash_map =
  fixes ok :: "'m \<Rightarrow> bool" and keys :: "'m \<Rightarrow> uint32 set" and max_entries :: nat
    and lookup :: "'m \<Rightarrow> uint32 \<Rightarrow> uint64 option"
    and store :: "'m \<Rightarrow> uint32 \<Rightarrow> uint64 \<Rightarrow> 'm" and update :: "'m \<Rightarrow> uint32 \<Rightarrow> uint64 \<Rightarrow> 'm"
  assumes keys: "ok m \<Longrightarrow> k \<in> keys m \<longleftrightarrow> lookup m k \<noteq> None"
    and store: "ok m \<Longrightarrow> k \<in> keys m \<Longrightarrow> ok (store m k v) \<and> lookup (store m k v) = (lookup m)(k \<mapsto> v)"
    and update_new: "ok m \<Longrightarrow> k \<notin> keys m \<Longrightarrow> card (keys m) < max_entries \<Longrightarrow>
      ok (update m k v) \<and> lookup (update m k v) = (lookup m)(k \<mapsto> v)"
    and update_full: "ok m \<Longrightarrow> k \<notin> keys m \<Longrightarrow> max_entries \<le> card (keys m) \<Longrightarrow>
      ok (update m k v) \<and> lookup (update m k v) = lookup m"
    and finite_keys: "ok m \<Longrightarrow> finite (keys m)"

text \<open>A hash map of at most 1024 entries as the list of its entries.\<close>

type_synonym counter_map = "(uint32 \<times> uint64) list"

definition map_lookup :: "counter_map \<Rightarrow> uint32 \<Rightarrow> uint64 option" where
  "map_lookup m k = map_of m k"

definition map_store :: "counter_map \<Rightarrow> uint32 \<Rightarrow> uint64 \<Rightarrow> counter_map" where
  "map_store m k v = map (\<lambda>(k', v'). if k' = k then (k', v) else (k', v')) m"

definition map_update :: "counter_map \<Rightarrow> uint32 \<Rightarrow> uint64 \<Rightarrow> counter_map" where
  "map_update m k v =
     (if k \<in> fst ` set m then map_store m k v
      else if length m < decl_max_entries counter then (k, v) # m
      else m)"

end
