(* ===== verification/Velora_Ebpf_Theorems.thy ===== *)
theory Velora_Ebpf_Theorems
  imports Velora_Ebpf
begin

text \<open>
  What the eBPF programs do: \<open>xdp_pass\<close> stays inside the frame and passes every frame on; \<open>count_execve\<close> counts
  exactly when its runs do not overlap, and never too much when they do.
\<close>

section \<open>Counting, one run after the other\<close>

definition run_execve ::
  "('m \<Rightarrow> uint32 \<Rightarrow> uint64 option) \<Rightarrow> ('m \<Rightarrow> uint32 \<Rightarrow> uint64 \<Rightarrow> 'm) \<Rightarrow> ('m \<Rightarrow> uint32 \<Rightarrow> uint64 \<Rightarrow> 'm) \<Rightarrow>
     uint64 list \<Rightarrow> 'm \<Rightarrow> 'm" where
  "run_execve lookup store update xs m = fold (\<lambda>x m. snd (count_execve lookup store update x m)) xs m"

text \<open>The elements of a list in the order in which they first occur.\<close>

definition first_seen :: "'a list \<Rightarrow> 'a list" where
  "first_seen xs = fold (\<lambda>x acc. if x \<in> set acc then acc else acc @ [x]) xs []"

lemma first_seen_snoc:
  "first_seen (xs @ [x]) = (if x \<in> set (first_seen xs) then first_seen xs else first_seen xs @ [x])"
  by (simp add: first_seen_def)

lemma set_first_seen [simp]: "set (first_seen xs) = set xs"
  by (induction xs rule: rev_induct) (auto simp: first_seen_snoc first_seen_def)

lemma distinct_first_seen [simp]: "distinct (first_seen xs)"
  by (induction xs rule: rev_induct) (auto simp: first_seen_snoc first_seen_def)

context bpf_hash_map
begin

lemma run_counts:
  assumes "ok m" "lookup m = Map.empty"
  shows "ok (run_execve lookup store update xs m) \<and> (\<forall>pid. lookup (run_execve lookup store update xs m) pid =
    (if pid \<in> set (take max_entries (first_seen (map current_pid xs)))
     then Some (of_nat (count_list (map current_pid xs) pid)) else None))"
proof (induction xs rule: rev_induct)
  case Nil
  then show ?case using assms by (simp add: run_execve_def first_seen_def)
next
  case (snoc x xs)
  let ?m = "run_execve lookup store update xs m" and ?ps = "map current_pid xs" and ?p = "current_pid x"
  let ?kept = "take max_entries (first_seen ?ps)"
  have ih: "ok ?m" "\<And>pid. lookup ?m pid = (if pid \<in> set ?kept then Some (of_nat (count_list ?ps pid)) else None)"
    using snoc by auto
  have keys: "keys ?m = set ?kept" using keys [OF ih(1)] ih(2) by (auto split: if_splits)
  have card: "card (keys ?m) = min (length (first_seen ?ps)) max_entries"
    unfolding keys by (simp add: distinct_card)
  have step: "run_execve lookup store update (xs @ [x]) m = snd (count_execve lookup store update x ?m)"
    by (simp add: run_execve_def)
  show ?case
  proof (cases "?p \<in> set ?kept")
    case True
    then have "?p \<in> set (first_seen ?ps)" by (rule in_set_takeD)
    then have "first_seen (map current_pid (xs @ [x])) = first_seen ?ps" by (simp add: first_seen_snoc)
    moreover have "snd (count_execve lookup store update x ?m) = store ?m ?p (of_nat (count_list ?ps ?p) + 1)"
      using True ih(2) by (simp add: count_execve_def Let_def)
    ultimately show ?thesis using store [OF ih(1), of ?p] True keys ih(2) unfolding step by auto
  next
    case False
    then have new: "?p \<notin> keys ?m" and run: "snd (count_execve lookup store update x ?m) = update ?m ?p 1"
      using keys ih(2) by (simp_all add: count_execve_def Let_def)
    show ?thesis
    proof (cases "length (first_seen ?ps) < max_entries")
      case True
      then have np: "?p \<notin> set ?ps" using False by auto
      have lt: "card (keys ?m) < max_entries" using card True by simp
      from update_new [OF ih(1) new lt, of 1] np True ih(2)
      show ?thesis unfolding step run by (auto simp: first_seen_snoc count_list_0_iff)
    next
      case full: False
      then have "max_entries \<le> card (keys ?m)" using card by simp
      moreover have "take max_entries (first_seen (map current_pid (xs @ [x]))) = ?kept"
        using full by (simp add: first_seen_snoc)
      ultimately show ?thesis
        using update_full [OF ih(1) new, of 1] False ih(2) unfolding step run by auto
    qed
  qed
qed

end

lemma map_store_keys [simp]: "fst ` set (map_store m k v) = fst ` set m"
  by (force simp: map_store_def)

lemma map_store_lookup: "map_of (map_store m k v) = (if k \<in> fst ` set m then (map_of m)(k \<mapsto> v) else map_of m)"
  by (induction m) (auto simp: map_store_def fun_eq_iff)

definition counter_ok :: "counter_map \<Rightarrow> bool" where
  "counter_ok m \<longleftrightarrow> distinct (map fst m)"

interpretation counter_hash: bpf_hash_map counter_ok "\<lambda>m. fst ` set m" "decl_max_entries counter"
  map_lookup map_store map_update
proof
  fix m :: counter_map and k v
  assume ok: "counter_ok m"
  then have card: "card (fst ` set m) = length m"
    unfolding counter_ok_def by (metis distinct_card length_map set_map)
  have st: "counter_ok (map_store m k v)"
    using ok by (simp add: counter_ok_def map_store_def case_prod_beta comp_def if_distrib cong: if_cong)
  show "k \<in> fst ` set m \<longleftrightarrow> map_lookup m k \<noteq> None"
    by (simp add: map_lookup_def map_of_eq_None_iff)
  show "finite (fst ` set m)" by simp
  show "counter_ok (map_store m k v) \<and> map_lookup (map_store m k v) = (map_lookup m)(k \<mapsto> v)" if "k \<in> fst ` set m"
    using st that map_store_lookup [of m k v] by (auto simp: map_lookup_def fun_eq_iff)
  show "counter_ok (map_update m k v) \<and> map_lookup (map_update m k v) = (map_lookup m)(k \<mapsto> v)"
    if "k \<notin> fst ` set m" "card (fst ` set m) < decl_max_entries counter"
    using ok that card by (auto simp: counter_ok_def map_update_def map_lookup_def fun_eq_iff)
  show "counter_ok (map_update m k v) \<and> map_lookup (map_update m k v) = map_lookup m"
    if "k \<notin> fst ` set m" "decl_max_entries counter \<le> card (fst ` set m)"
    using ok that card by (simp add: map_update_def)
qed

text \<open>C35. When its runs do not overlap, \<open>count_execve\<close> has counted, for each of the first 1024 processes, every one
  of its \<open>execve\<close> calls (modulo \<open>2\<close> to the \<open>64\<close>), and no other process has an entry.\<close>

theorem count_execve_counts:
  "map_lookup (run_execve map_lookup map_store map_update xs []) pid =
    (if pid \<in> set (take 1024 (first_seen (map current_pid xs)))
     then Some (of_nat (count_list (map current_pid xs) pid)) else None)"
proof -
  have "counter_ok []" "map_lookup [] = Map.empty" by (auto simp: counter_ok_def map_lookup_def)
  from counter_hash.run_counts [OF this, of xs] show ?thesis by (simp add: counter_def)
qed

section \<open>Counting, on several processors at once\<close>

text \<open>
  \<open>(*count)++\<close> is a load and a store, and the runs of different processors interleave. A run is idle, has found
  no entry, or has found one and loaded its value. \<open>started\<close> is the number of runs begun per process.
\<close>

datatype cpu_run = Idle | Missed uint32 | Loaded uint32 uint64

record smp =
  smp_map :: counter_map
  smp_cpu :: "nat \<Rightarrow> cpu_run"
  smp_started :: "uint32 \<Rightarrow> nat"

definition smp_start :: smp where
  "smp_start = \<lparr>smp_map = [], smp_cpu = (\<lambda>_. Idle), smp_started = (\<lambda>_. 0)\<rparr>"

inductive smp_step :: "smp \<Rightarrow> smp \<Rightarrow> bool" where
  miss: "smp_cpu t c = Idle \<Longrightarrow> map_lookup (smp_map t) (current_pid x) = None \<Longrightarrow>
    smp_step t (t\<lparr>smp_cpu := (smp_cpu t)(c := Missed (current_pid x)),
      smp_started := (smp_started t)(current_pid x := smp_started t (current_pid x) + 1)\<rparr>)"
| hit: "smp_cpu t c = Idle \<Longrightarrow> map_lookup (smp_map t) (current_pid x) = Some v \<Longrightarrow>
    smp_step t (t\<lparr>smp_cpu := (smp_cpu t)(c := Loaded (current_pid x) v),
      smp_started := (smp_started t)(current_pid x := smp_started t (current_pid x) + 1)\<rparr>)"
| insert: "smp_cpu t c = Missed pid \<Longrightarrow>
    smp_step t (t\<lparr>smp_cpu := (smp_cpu t)(c := Idle), smp_map := map_update (smp_map t) pid 1\<rparr>)"
| store: "smp_cpu t c = Loaded pid v \<Longrightarrow>
    smp_step t (t\<lparr>smp_cpu := (smp_cpu t)(c := Idle), smp_map := map_store (smp_map t) pid (v + 1)\<rparr>)"

inductive_cases smp_stepE: "smp_step t t'"







text \<open>Two runs for process 7 on processors 0 and 1 that both look the entry up before either has made it.\<close>

definition smp_both_missed :: smp where
  "smp_both_missed = \<lparr>smp_map = [], smp_cpu = (\<lambda>_. Idle)(0 := Missed 7, 1 := Missed 7), smp_started = (\<lambda>_. 0)(7 := 2)\<rparr>"

definition smp_lost :: smp where
  "smp_lost = \<lparr>smp_map = [(7, 1)], smp_cpu = (\<lambda>_. Idle), smp_started = (\<lambda>_. 0)(7 := 2)\<rparr>"

lemma current_pid_7: "current_pid 30064771072 = 7"
  by (simp add: current_pid_def drop_bit_eq_div)

lemma idle_again [simp]: "(\<lambda>_. Idle)(c := Idle) = (\<lambda>_. Idle)"
  by auto

lemma smp_both_missed_reachable: "smp_step\<^sup>*\<^sup>* smp_start smp_both_missed"
proof -
  let ?t = "\<lparr>smp_map = [], smp_cpu = (\<lambda>_. Idle)(0 := Missed 7), smp_started = (\<lambda>_. 0)(7 := 1)\<rparr>"
  have "smp_step smp_start ?t"
    using smp_step.miss [of smp_start 0 30064771072] by (simp add: current_pid_7 smp_start_def map_lookup_def)
  moreover have "smp_step ?t smp_both_missed"
    using smp_step.miss [of ?t 1 30064771072]
    by (simp add: current_pid_7 smp_both_missed_def map_lookup_def numeral_2_eq_2)
  ultimately show ?thesis by (meson rtranclp.simps)
qed

lemma smp_lost_reachable: "smp_step\<^sup>*\<^sup>* smp_start smp_lost"
proof -
  let ?t = "smp_both_missed\<lparr>smp_cpu := (\<lambda>_. Idle)(1 := Missed 7), smp_map := [(7, 1)]\<rparr>"
  have "smp_step smp_both_missed ?t"
    using smp_step.insert [of smp_both_missed 0 7]
    by (simp add: smp_both_missed_def map_update_def counter_def fun_upd_twist)
  moreover have "smp_step ?t smp_lost"
    using smp_step.insert [of ?t 1 7]
    by (simp add: smp_both_missed_def smp_lost_def map_update_def map_store_def)
  ultimately show ?thesis using smp_both_missed_reachable by (meson rtranclp.rtrancl_into_rtrancl)
qed



text \<open>C37. Runs that overlap can lose a count: two \<open>execve\<close> calls of one process, both runs finished, and a
  counter of one. The increment and the insertion are not atomic.\<close>

theorem count_execve_loses_counts:
  "\<exists>t. smp_step\<^sup>*\<^sup>* smp_start t \<and> (\<forall>c. smp_cpu t c = Idle) \<and> smp_started t 7 = 2 \<and> map_lookup (smp_map t) 7 = Some 1"
  using smp_lost_reachable by (auto simp: smp_lost_def map_lookup_def intro!: exI [of _ smp_lost])

section \<open>The XDP program\<close>

text \<open>The big-endian value of the \<open>n\<close> bytes at offset \<open>i\<close>.\<close>

definition be_at :: "bytes \<Rightarrow> nat \<Rightarrow> nat \<Rightarrow> nat" where
  "be_at frame i n = le_value (rev (take n (drop i frame)))"

text \<open>The report by the offsets of Ethernet (RFC 894) and IPv4 (RFC 791).\<close>

definition xdp_report :: "nat \<Rightarrow> bytes \<Rightarrow> printk list" where
  "xdp_report data frame =
     (let ether = [(''Ether Type: 0x%x'', [be_at frame 12 2]), (''Ether src: %x'', [data + 6]), (''Ether dest: %x'', [data])];
          ip = [(''IPv4 packet-> IHL: %d TTL: %d protocol: %d'', [be_at frame 14 1 mod 16, be_at frame 22 1, be_at frame 23 1]),
                (''IPv4 packet-> total_len: %d src: %x dest: %x'', [be_at frame 16 2, be_at frame 26 4, be_at frame 30 4])]
      in if length frame < 14 then []
         else if be_at frame 12 2 \<noteq> 0x0800 \<or> length frame < 34 then ether
         else ether @ ip)"

lemma header_sizes: "sizeof ethhdr = 14" "sizeof iphdr = 20"
  by code_simp+

lemma header_offsets:
  "offsetof ethhdr ''h_proto'' = Some 12" "offsetof ethhdr ''h_source'' = Some 6" "offsetof ethhdr ''h_dest'' = Some 0"
  "offsetof iphdr ''ttl'' = Some 8" "offsetof iphdr ''protocol'' = Some 9" "offsetof iphdr ''tot_len'' = Some 2"
  "offsetof iphdr ''saddr'' = Some 12" "offsetof iphdr ''daddr'' = Some 16"
  by code_simp+

subsection \<open>Byte order\<close>

lemma byte_bit: "bit (a :: uint8) n \<Longrightarrow> n < 8"
  using bit_imp_le_length [of a n] by simp

lemma byte_high: "8 \<le> n \<Longrightarrow> \<not> bit (a :: uint8) n"
  using bit_imp_le_length [of a n] by auto

lemma le_word16: "(of_nat (le_value [a, b]) :: uint16) = ucast a OR push_bit 8 (ucast b)"
proof -
  have "(of_nat (le_value [a, b]) :: uint16) = ucast a + push_bit 8 (ucast b)"
    by (simp add: push_bit_eq_mult unsigned_ucast_eq)
  also have "\<dots> = ucast a OR push_bit 8 (ucast b)"
    by (rule disjunctive_add_eq_or) (auto simp: bit_eq_iff bit_simps dest: byte_bit)
  finally show ?thesis .
qed

lemma le_word32:
  "(of_nat (le_value [a, b, c, d]) :: uint32) =
   ucast a OR (push_bit 8 (ucast b) OR (push_bit 16 (ucast c) OR push_bit 24 (ucast d)))"
proof -
  have "(of_nat (le_value [a, b, c, d]) :: uint32) =
      ucast a + (push_bit 8 (ucast b) + (push_bit 16 (ucast c) + push_bit 24 (ucast d)))"
    by (simp add: push_bit_eq_mult unsigned_ucast_eq algebra_simps)
  also have "push_bit 16 (ucast c) + push_bit 24 (ucast d) = push_bit 16 (ucast c) OR (push_bit 24 (ucast d) :: uint32)"
    by (rule disjunctive_add_eq_or) (auto simp: bit_eq_iff bit_simps dest: byte_bit)
  also have "push_bit 8 (ucast b) + (push_bit 16 (ucast c) OR push_bit 24 (ucast d)) =
      push_bit 8 (ucast b) OR (push_bit 16 (ucast c) OR (push_bit 24 (ucast d) :: uint32))"
    by (rule disjunctive_add_eq_or) (auto simp: bit_eq_iff bit_simps dest: byte_bit)
  also have "ucast a + (push_bit 8 (ucast b) OR (push_bit 16 (ucast c) OR push_bit 24 (ucast d))) =
      ucast a OR (push_bit 8 (ucast b) OR (push_bit 16 (ucast c) OR (push_bit 24 (ucast d) :: uint32)))"
    by (rule disjunctive_add_eq_or) (auto simp: bit_eq_iff bit_simps dest: byte_bit)
  finally show ?thesis .
qed

lemma second_byte: "(0xFF00 :: uint32) = push_bit 8 (mask 8)"
  by (simp add: mask_eq_exp_minus_1)

lemma byte_ranges:
  assumes "n < (32 :: nat)"
  obtains k where "k < 8" "n = k \<or> n = 8 + k \<or> n = 16 + k \<or> n = 24 + k"
proof (rule that [of "n mod 8"])
  show "n = n mod 8 \<or> n = 8 + n mod 8 \<or> n = 16 + n mod 8 \<or> n = 24 + n mod 8" using assms by presburger
qed simp

lemma bpf_ntohs_le: "bpf_ntohs (of_nat (le_value [a, b])) = of_nat (le_value [b, a])"
  unfolding le_word16 by (rule bit_word_eqI) (auto simp: bpf_ntohs_def bit_simps dest: byte_bit)

lemma bpf_ntohl_le: "bpf_ntohl (of_nat (le_value [a, b, c, d])) = of_nat (le_value [d, c, b, a])"
  unfolding le_word32
proof (rule bit_word_eqI)
  fix n
  assume "n < LENGTH(32)"
  then have n: "n < 32" by simp
  obtain k where k: "k < 8" "n = k \<or> n = 8 + k \<or> n = 16 + k \<or> n = 24 + k" by (rule byte_ranges [OF n])
  from k(2) show "bit (bpf_ntohl (ucast a OR (push_bit 8 (ucast b) OR (push_bit 16 (ucast c) OR push_bit 24 (ucast d))))) n =
      bit (ucast d OR (push_bit 8 (ucast c) OR (push_bit 16 (ucast b) OR push_bit 24 (ucast a))) :: uint32) n"
    by (elim disjE) (use k(1) in \<open>simp_all add: bpf_ntohl_def second_byte bit_simps byte_high\<close>)
qed

lemma le_value_less: "le_value bs < 256 ^ length bs"
proof (induction bs)
  case (Cons b bs)
  have "unat b < 256" by (rule unat8_less)
  then have "unat b + 256 * le_value bs < 256 * 256 ^ length bs" using Cons by linarith
  then show ?case by simp
qed simp

subsection \<open>Loads\<close>

lemma loads_inside:
  assumes "i + n \<le> length frame"
  shows "frame_read base frame (base + i) n = Some (take n (drop i frame))"
  using assms by (simp add: frame_read_def mem_read_Some)

lemma bytes_2: "length bs = 2 \<Longrightarrow> \<exists>a b. bs = [a, b]"
  by (auto simp: length_Suc_conv numeral_eq_Suc)

lemma bytes_4: "length bs = 4 \<Longrightarrow> \<exists>a b c d. bs = [a, b, c, d]"
  by (auto simp: length_Suc_conv numeral_eq_Suc)

lemma load8_value:
  assumes "i + 1 \<le> length frame"
  obtains w where "load8 base frame (base + i) = Some w" "unat w = be_at frame i 1"
proof -
  have "take 1 (drop i frame) = [frame ! i]" using assms by (simp add: take_Suc_conv_app_nth Cons_nth_drop_Suc [symmetric])
  then show thesis
    using that [of "frame ! i"] loads_inside [OF assms, of base] by (simp add: load8_def be_at_def)
qed

lemma load16_value:
  assumes "i + 2 \<le> length frame"
  obtains w where "load16 base frame (base + i) = Some w" "unat (bpf_ntohs w) = be_at frame i 2"
proof -
  have "length (take 2 (drop i frame)) = 2" using assms by simp
  then obtain a b where ab: "take 2 (drop i frame) = [a, b]" using bytes_2 by blast
  have "unat (of_nat (le_value [b, a]) :: uint16) = le_value [b, a]"
    using le_value_less [of "[b, a]"] by (simp add: unat_of_nat del: le_value.simps)
  then show thesis
    using that [of "of_nat (le_value [a, b])"] loads_inside [OF assms, of base] ab
    by (simp add: load16_def be_at_def bpf_ntohs_le del: le_value.simps)
qed

lemma load32_value:
  assumes "i + 4 \<le> length frame"
  obtains w where "load32 base frame (base + i) = Some w" "unat (bpf_ntohl w) = be_at frame i 4"
proof -
  have "length (take 4 (drop i frame)) = 4" using assms by simp
  then obtain a b c d where ab: "take 4 (drop i frame) = [a, b, c, d]" using bytes_4 by blast
  have "unat (of_nat (le_value [d, c, b, a]) :: uint32) = le_value [d, c, b, a]"
    using le_value_less [of "[d, c, b, a]"] by (simp add: unat_of_nat del: le_value.simps)
  then show thesis
    using that [of "of_nat (le_value [a, b, c, d])"] loads_inside [OF assms, of base] ab
    by (simp add: load32_def be_at_def bpf_ntohl_le del: le_value.simps)
qed

text \<open>C38. For every frame that lies between \<open>data\<close> and \<open>data_end\<close>, \<open>xdp_pass\<close> reads no byte outside it, returns
  \<open>XDP_PASS\<close>, and reports the Ethernet type and the IPv4 header fields at the offsets the standards give them,
  in host byte order; the two hardware addresses it reports are the addresses of the arrays in memory, not their
  contents.\<close>

theorem xdp_pass_reports:
  assumes "unat (xdp_data ctx) + length frame = unat (xdp_data_end ctx)"
  shows "xdp_pass ctx frame = Some (XDP_PASS, xdp_report (unat (xdp_data ctx)) frame)"
proof (cases "length frame < 14")
  case True
  then show ?thesis using assms by (simp add: xdp_pass_def xdp_report_def header_sizes Let_def)
next
  case False
  let ?d = "unat (xdp_data ctx)"
  have l: "12 + 2 \<le> length frame" using False by simp
  obtain p where p: "load16 ?d frame (?d + 12) = Some p" "unat (bpf_ntohs p) = be_at frame 12 2"
    by (rule load16_value [OF l])
  have ip: "bpf_ntohs p = 0x0800 \<longleftrightarrow> be_at frame 12 2 = 0x0800"
    using p(2) by (simp add: word_unat_eq_iff)
  show ?thesis
  proof (cases "be_at frame 12 2 = 0x0800 \<and> 34 \<le> length frame")
    case no: False
    then have "bpf_ntohs p \<noteq> 0x0800 \<or> \<not> 34 \<le> length frame" using ip by simp
    then show ?thesis using assms False p no
      by (auto simp: xdp_pass_def xdp_report_def header_sizes header_offsets Let_def)
  next
    case True
    have b: "14 + 1 \<le> length frame" "22 + 1 \<le> length frame" "23 + 1 \<le> length frame" "16 + 2 \<le> length frame"
        "26 + 4 \<le> length frame" "30 + 4 \<le> length frame" using True by simp_all
    obtain v where v: "load8 ?d frame (?d + 14) = Some v" "unat v = be_at frame 14 1" by (rule load8_value [OF b(1)])
    obtain t where t: "load8 ?d frame (?d + 22) = Some t" "unat t = be_at frame 22 1" by (rule load8_value [OF b(2)])
    obtain q where q: "load8 ?d frame (?d + 23) = Some q" "unat q = be_at frame 23 1" by (rule load8_value [OF b(3)])
    obtain l where l: "load16 ?d frame (?d + 16) = Some l" "unat (bpf_ntohs l) = be_at frame 16 2"
      by (rule load16_value [OF b(4)])
    obtain x where x: "load32 ?d frame (?d + 26) = Some x" "unat (bpf_ntohl x) = be_at frame 26 4"
      by (rule load32_value [OF b(5)])
    obtain y where y: "load32 ?d frame (?d + 30) = Some y" "unat (bpf_ntohl y) = be_at frame 30 4"
      by (rule load32_value [OF b(6)])
    have "v AND 15 = take_bit 4 v" by (simp add: take_bit_eq_mask mask_eq_exp_minus_1)
    then have "unat (v AND 15) = unat v mod 16" by (simp add: take_bit_eq_mod unat_mod_distrib)
    then show ?thesis using assms True p ip v t q l x y
      by (simp add: xdp_pass_def xdp_report_def header_sizes header_offsets Let_def ac_simps)
  qed
qed

definition sample_frame :: bytes where
  "sample_frame = replicate 12 0 @ [8, 0] @ [0x45, 0, 0, 20] @ replicate 4 0 @ [64, 6] @ [0, 0] @ [10, 0, 0, 1] @ [10, 0, 0, 2]"

definition sample_ctx :: xdp_md where
  "sample_ctx = \<lparr>xdp_data = 4096, xdp_data_end = 4130, xdp_data_meta = 0, xdp_ingress_ifindex = 0,
     xdp_rx_queue_index = 0, xdp_egress_ifindex = 0\<rparr>"

theorem xdp_pass_reports_witness:
  "xdp_pass sample_ctx sample_frame = Some (XDP_PASS, xdp_report 4096 sample_frame) \<and>
   length (xdp_report 4096 sample_frame) = 5"
proof -
  have "unat (xdp_data sample_ctx) + length sample_frame = unat (xdp_data_end sample_ctx)"
    by (simp add: sample_ctx_def sample_frame_def)
  from xdp_pass_reports [OF this] have "xdp_pass sample_ctx sample_frame = Some (XDP_PASS, xdp_report 4096 sample_frame)"
    by (simp add: sample_ctx_def)
  moreover have "length (xdp_report 4096 sample_frame) = 5"
    by (simp add: xdp_report_def be_at_def sample_frame_def Let_def)
  ultimately show ?thesis by blast
qed

end
