(* ===== verification/Velora_Kernel_Theorems.thy ===== *)
theory Velora_Kernel_Theorems
  imports Velora_Kernel_Types
begin





text \<open>The layouts and numbers on which the programs depend: an Ethernet header of 14 bytes with its type at offset 12,
  an IPv4 header of 20 bytes with the fields that are printed at their wire offsets, TCP and UDP headers of 20 and 8
  bytes, a socket address of 16 bytes with the port at offset 2, a packed \<open>epoll_event\<close> of 12 bytes with the pointer
  at offset 4, and the helper, map type and flag numbers of the counting program.\<close>

theorem kernel_abi:
  "sizeof ethhdr = 14 \<and> offsetof ethhdr ''h_source'' = Some 6 \<and> offsetof ethhdr ''h_proto'' = Some 12 \<and>
   sizeof iphdr = 20 \<and> offsetof iphdr ''tot_len'' = Some 2 \<and> offsetof iphdr ''ttl'' = Some 8 \<and>
   offsetof iphdr ''protocol'' = Some 9 \<and> offsetof iphdr ''saddr'' = Some 12 \<and> offsetof iphdr ''daddr'' = Some 16 \<and>
   sizeof ipv6hdr = 40 \<and> sizeof tcphdr = 20 \<and> sizeof udphdr = 8 \<and>
   sizeof kernel_sockaddr_in = 16 \<and> offsetof kernel_sockaddr_in ''sin_port'' = Some 2 \<and>
   sizeof epoll_event = 12 \<and> offsetof epoll_event ''data'' = Some 4 \<and>
   enum_const bpf_map_type ''BPF_MAP_TYPE_HASH'' = Some 1 \<and>
   enum_const bpf_func_id ''BPF_FUNC_map_lookup_elem'' = Some 1 \<and>
   enum_const bpf_func_id ''BPF_FUNC_map_update_elem'' = Some 2 \<and>
   enum_const bpf_func_id ''BPF_FUNC_get_current_pid_tgid'' = Some 14 \<and>
   enum_const bpf_update_flags ''BPF_ANY'' = Some 0"
  by (intro conjI) code_simp+

end
