(* ===== verification/Spec2Isabelle.thy ===== *)
theory Spec2Isabelle
  imports Velora_Ring_Theorems Velora_Parser_Theorems Velora_Protocol_Theorems
    Velora_Conn_Theorems Velora_Net_Theorems Velora_Reactor_Theorems
    Velora_Client_Theorems Velora_Logger Velora_Ebpf_Theorems Velora_Kernel_Theorems
begin

text \<open>
  \<^bold>\<open>Velora.\<close> A verification development for the Velora server: a single-threaded TCP server in C, built on an
  edge-triggered \<open>epoll\<close> loop, that speaks a small binary protocol with multiplexed streams, for the clients that
  test it and for the two eBPF programs kept beside it.

  \<^bold>\<open>The program.\<close> \<open>main\<close> (\<open>src/main.c\<close>) installs the signal handlers, sets up the connection manager
  (\<open>src/conn/conn.c\<close>) and runs \<open>vr_reactor_loop\<close> (\<open>src/event_loop/reactor.c\<close>). The loop opens the listening socket
  (\<open>src/net/tcp_server.c\<close>, \<open>src/net/socket_utils.c\<close>), waits for events, accepts clients, reads what they send into
  the read ring of their connection (\<open>src/conn/ring_buffer.c\<close>), takes packets out of it (\<open>src/protocol/parser.c\<close>,
  \<open>src/protocol/packet.c\<close>), runs them through the protocol's state machine (\<open>src/protocol/protocol.c\<close>), queues the
  replies in the write ring and sends them when the socket can take them. \<open>src/core\<close> has the logger and the error
  texts, \<open>tests\<close> the clients, \<open>ebpf-learning\<close> the eBPF programs.

  \<^bold>\<open>The model.\<close> Definitions have the names of the C functions and types and are in their order. A structure is a
  record, an enumeration a datatype, an integer a word of its width. A function that changes an object returns it.
  A result of \<open>None\<close> stands for undefined behaviour (an access to freed memory or outside a block, a null pointer,
  a division by zero) or for a loop that never ends; an error the code reports is a value. The allocator and the
  kernel are the record \<open>sys\<close> of \<open>Velora_System\<close>: the lists of the answers they will give, over which every theorem
  quantifies, the interest list, what was received and sent on which descriptor, which descriptors were closed, and the number of blocks allocated and
  not freed. A pointer to a connection is an address in a partial map, and freeing removes it.

  \<^item> \<open>Velora_Prelude\<close>, \<open>Velora_System\<close>: memory blocks and words; the allocator and the system calls.
  \<^item> \<open>Velora_C_Layout\<close>: sizes, alignments and offsets of C types (System V ABI for 64 bits).
  \<^item> \<open>Velora_Common\<close>: \<open>common.h\<close>, \<open>error.h\<close>, \<open>error.c\<close>, \<open>utilities.c\<close>, the signal handler of \<open>main.c\<close>.
  \<^item> \<open>Velora_Ring_Buffer\<close>, \<open>Velora_Ring_Spec\<close>, \<open>Velora_Ring_Theorems\<close>: \<open>ring_buffer.c\<close>. The ring stands for a queue of
    bytes, \<open>ring_contents\<close>, under the invariant \<open>ring_inv\<close>; each operation is its effect on the queue. The contracts
    that clients use, among them that of zero-copy writing, are locales with interpretations on these operations.
  \<^item> \<open>Velora_Packet\<close>, \<open>Velora_Conn_Types\<close>: \<open>packet.c\<close>, \<open>packet.h\<close>; the connection of \<open>conn.h\<close>, \<open>net.h\<close>.
  \<^item> \<open>Velora_Parser\<close>, \<open>Velora_Parser_Spec\<close>, \<open>Velora_Parser_Theorems\<close>: \<open>parser.c\<close>, which refines a parser on plain
    bytes, does not depend on how the stream is cut, and delivers what it should.
  \<^item> \<open>Velora_Protocol\<close>, \<open>Velora_Protocol_Spec\<close>, \<open>Velora_Protocol_Theorems\<close>: \<open>protocol.c\<close>, which refines a state machine
    over sets of stream ids.
  \<^item> \<open>Velora_Conn_Manager\<close>, \<open>Velora_Conn_Spec\<close>, \<open>Velora_Conn_Theorems\<close>: \<open>conn.c\<close>, the array of live connections and the
    heap they are in.
  \<^item> \<open>Velora_Net\<close>, \<open>Velora_Net_Spec\<close>, \<open>Velora_Net_Theorems\<close>: \<open>socket_utils.c\<close>, \<open>tcp_server.c\<close>.
  \<^item> \<open>Velora_Reactor_Io\<close>, \<open>Velora_Reactor\<close>, \<open>Velora_Main\<close>: \<open>reactor.c\<close> and \<open>main.c\<close>, over a \<open>world\<close> that holds the
    reactor, the manager, the heap, the run state and the system.
  \<^item> \<open>Velora_Enqueue_Spec\<close>: a response is queued whole or not at all, on the contiguous and on the wrapping path.
    \<open>Velora_Drain_Spec\<close>: the loops that read and write a socket return, keep the order and lose nothing.
    \<open>Velora_Pipeline_Spec\<close>: the loop over packets computes the reference run of parser and protocol.
    \<open>Velora_Conversation_Spec\<close>: a connection over its whole life as a transducer from the bytes received to the bytes
    sent (\<open>transduced\<close>), whatever the cuts between reads and between writes.
  \<^item> \<open>Velora_World_Spec\<close>, \<open>Velora_Loop_Spec\<close>: the invariant \<open>world_inv\<close> of the running server, kept by every handler; a
    handler of one connection leaves what belongs to the others (\<open>view\<close>) alone. Two locales carry this from a handler
    to a batch of events (\<open>event_handlers\<close>) and to the loop (\<open>loop_invariant\<close>), which is interpreted twice: for
    \<open>world_inv\<close> and for \<open>conversing\<close>, the conversations of all clients. Start-up establishes the invariant and shutdown
    uses it.
  \<^item> \<open>Velora_Reactor_Theorems\<close>: the properties that span the components, from one socket to the whole program.
  \<^item> \<open>Velora_Client\<close>, \<open>Velora_Client_Spec\<close>, \<open>Velora_Client_Theorems\<close>: \<open>throughput_pingpong.c\<close>, its handshake, its pipeline,
    its parsing of the answers and one round of its loop, the sequence that \<open>packet_throughput.c\<close> sends, and what
    happens when these clients meet the server.
  \<^item> \<open>Velora_Logger\<close>: \<open>logger.c\<close>, with and without \<open>VR_DEBUG\<close>, and \<open>vr_perror\<close>.
  \<^item> \<open>Velora_Kernel_Types\<close>, \<open>Velora_Kernel_Theorems\<close>: the layouts and constants of \<open>vmlinux.h\<close> that concern the programs.
    \<open>Velora_Ebpf\<close>, \<open>Velora_Ebpf_Theorems\<close>: \<open>xdp.bpf.c\<close> and \<open>hello.ebpf.c\<close>; the latter over any hash map with the
    kernel's contract (the locale \<open>bpf_hash_map\<close>), in sequence and interleaved on several processors.

  \<^bold>\<open>What the theorems show.\<close> The program has no undefined behaviour and frees every connection, ring and packet,
  whatever the kernel and the allocator answer, but for one call: the protocol does not check the \<open>calloc\<close> of a reply,
  and its failure is proved to be a null dereference. What needs memory to go well, such as the processing of all
  packets, is stated for an allocator that does not fail (\<open>unlimited\<close>). No event reaches a freed connection, and no
  client's event touches another client. An accepted socket is served or closed. For every client, in every
  interleaving, state and output are those of the reference on its input. Bytes are neither lost nor reordered between the socket and the parser or between the replies and the socket. Polling and the
  protocol refine their specifications. Errors are results that leave the invariants in place. Where the code does
  not do what it means to, there is a theorem that says so: the twelve-byte header in memory against the eight-byte
  header on the wire, for which the clients of \<open>tests\<close> and the server wait for each other forever, the replies that are
  lost when the write ring is full, the descriptor test of \<open>vr_tcp_server_create\<close>, the closing of an unopened stream, client
  descriptors left open at shutdown, the increments lost between processors, and others.

  \<^bold>\<open>Loops, bounds and fuel.\<close> Loops whose end depends on the kernel are partial functions on options, and each is proved
  to return. They return because the lists of answers are finite and a list that has run out ends the loop: a server
  that is never told to shut down is the limit of these runs. \<open>poll_all\<close>, which iterates the parser in a statement,
  takes fuel: \<open>2 n + 2\<close> polls for \<open>n\<close> bytes, since each poll that delivers a packet takes a byte or leaves the
  payload state. The number of descriptors is bounded by the range of \<open>int\<close>, which bounds the number of connections.

  \<^bold>\<open>Not modelled.\<close> The text of log messages at their call sites: without \<open>VR_DEBUG\<close> the logger is empty, and
  with it the calls have no effect on the server; the logger itself is modelled. A signal that arrives outside
  \<open>epoll_wait\<close>, which only delays the end of the loop. \<open>inet_ntop\<close>'s text. The rest of \<open>vmlinux.h\<close>, a dump of all types
  of a kernel, none of which the programs use. Of \<open>tests\<close>, the clock, the reports and the command line of the clients, the parts of
  \<open>packet_throughput.c\<close> that repeat the ping-pong client, the connection flood and the send-only generator, which do not
  look at what the server answers beyond the handshake, and the shell scripts. The build files.
\<close>

end
